(* ===== verification/Go_Prelude.thy ===== *)
theory Go_Prelude
  imports Main "HOL-Library.Monad_Syntax" "HOL-Library.Char_ord" "HOL-Library.List_Lexorder"
begin

text \<open>
  What every component of the model shares: the named theorem collections of the
  development, Go's machine integers (\<open>int\<close> is 64 bits wide, \<open>int32\<close> 32 bits) as
  \<open>int\<close> with the wrap-around written out, \<open>strconv.Itoa\<close>, and general facts on
  intervals of heights, lists and maps.

  Conventions of the whole development:
  \<^item> a Go panic (nil dereference, explicit \<open>panic\<close>, out-of-range index) is the value
    \<^const>\<open>None\<close> of a result type \<open>'a option\<close>, sequenced with the \<open>do\<close> notation;
  \<^item> a Go \<open>error\<close> result is a value of a datatype, \<open>None\<close> standing for \<open>nil\<close>;
  \<^item> a nilable pointer is an \<open>option\<close>;
  \<^item> a Go map is a HOL map; where the code ranges over one, the order in which the
    keys are visited (which Go leaves open) is an explicit argument, and theorems hold for
    every order.
\<close>

section \<open>Collections\<close>

named_theorems go_defs \<open>definitions that unfold to the body of a small operation\<close>
named_theorems wf_intros \<open>operations that keep a well-formedness invariant\<close>

section \<open>Machine integers\<close>

definition wrap64 :: "int \<Rightarrow> int" where
  "wrap64 x = (x + 2 ^ 63) mod 2 ^ 64 - 2 ^ 63"

definition wrap32 :: "int \<Rightarrow> int" where
  "wrap32 x = (x + 2 ^ 31) mod 2 ^ 32 - 2 ^ 31"

definition int64_range :: "int \<Rightarrow> bool" where
  "int64_range x \<longleftrightarrow> - (2 ^ 63) \<le> x \<and> x < 2 ^ 63"

definition int32_range :: "int \<Rightarrow> bool" where
  "int32_range x \<longleftrightarrow> - (2 ^ 31) \<le> x \<and> x < 2 ^ 31"

lemma wrap64_id: "int64_range x \<Longrightarrow> wrap64 x = x"
  by (simp add: wrap64_def int64_range_def)

lemma wrap32_id: "int32_range x \<Longrightarrow> wrap32 x = x"
  by (simp add: wrap32_def int32_range_def)

lemma wrap64_range: "int64_range (wrap64 x)"
  by (simp add: wrap64_def int64_range_def algebra_simps)

lemma wrap32_range: "int32_range (wrap32 x)"
  by (simp add: wrap32_def int32_range_def algebra_simps)

text \<open>
  The sum of two non-negative 64-bit values that wraps is negative: a positive result is
  therefore the exact sum. This is what makes the balance check of the account verifier
  safe.
\<close>

lemma wrap64_add_pos_exact:
  assumes "int64_range a" "int64_range b" "0 \<le> a" "0 \<le> b" "0 \<le> wrap64 (a + b)"
  shows "wrap64 (a + b) = a + b"
proof (rule ccontr)
  assume neq: "wrap64 (a + b) \<noteq> a + b"
  then have big: "2 ^ 63 \<le> a + b"
    using assms(3,4) wrap64_id [of "a + b"] by (force simp: int64_range_def)
  have "a + b + 2 ^ 63 < 2 * 2 ^ 64" "2 ^ 64 \<le> a + b + 2 ^ 63"
    using assms(1,2) big by (auto simp: int64_range_def)
  then have "(a + b + 2 ^ 63) mod 2 ^ 64 = a + b + 2 ^ 63 - 2 ^ 64"
    by (simp add: mod_pos_geq)
  then have "wrap64 (a + b) < 0"
    using assms(1,2) by (simp add: wrap64_def int64_range_def)
  with assms(5) show False by simp
qed

lemma wrap64_add_opposite_exact:
  assumes "int64_range a" "int64_range b" "0 \<le> a" "b \<le> 0"
  shows "wrap64 (a + b) = a + b"
  using assms by (intro wrap64_id) (auto simp: int64_range_def)

section \<open>Decimal numerals: \<open>strconv.Itoa\<close>\<close>

definition digit :: "nat \<Rightarrow> char" where
  "digit d = char_of (48 + d)"

fun utoa :: "nat \<Rightarrow> string" where
  "utoa n = (if n < 10 then [digit n] else utoa (n div 10) @ [digit (n mod 10)])"

declare utoa.simps [simp del]

definition itoa :: "int \<Rightarrow> string" where
  "itoa i = (if i < 0 then CHR ''-'' # utoa (nat (- i)) else utoa (nat i))"

definition undigit :: "nat \<Rightarrow> char \<Rightarrow> nat" where
  "undigit acc c = 10 * acc + (of_char c - 48)"

lemma of_char_digit: "d < 10 \<Longrightarrow> of_char (digit d) = 48 + d"
  by (simp add: digit_def)

lemma undigit_digit: "d < 10 \<Longrightarrow> undigit acc (digit d) = 10 * acc + d"
  by (simp add: undigit_def of_char_digit)

lemma foldl_undigit_utoa: "foldl undigit 0 (utoa n) = n"
proof (induction n rule: utoa.induct)
  case (1 n)
  then show ?case
    by (cases "n < 10") (simp_all add: utoa.simps [of n] undigit_digit)
qed

lemma utoa_inject [simp]: "utoa m = utoa n \<longleftrightarrow> m = n"
  by (metis foldl_undigit_utoa)

lemma utoa_digits: "c \<in> set (utoa n) \<Longrightarrow> 48 \<le> (of_char c :: nat) \<and> of_char c \<le> (57 :: nat)"
proof (induction n rule: utoa.induct)
  case (1 n)
  then show ?case
    by (cases "n < 10") (auto simp: utoa.simps [of n] of_char_digit)
qed

lemma utoa_no_underscore: "CHR ''_'' \<notin> set (utoa n)"
  using utoa_digits [of "CHR ''_''" n] by auto

lemma itoa_no_underscore: "CHR ''_'' \<notin> set (itoa i)"
  by (simp add: itoa_def utoa_no_underscore)

lemma utoa_no_minus: "utoa n \<noteq> CHR ''-'' # s"
  using utoa_digits [of "CHR ''-''" n] by auto

lemma itoa_inject [simp]: "itoa i = itoa j \<longleftrightarrow> i = j"
  by (auto simp: itoa_def utoa_no_minus utoa_no_minus [symmetric] split: if_splits)

text \<open>
  A separator that occurs in neither suffix splits a string in one way only: this is what
  makes keys such as \<open>addr_height\<close> unambiguous.
\<close>

lemma append_sep_inject:
  assumes "c \<notin> set s" "c \<notin> set t" "u @ c # s = v @ c # t"
  shows "u = v \<and> s = t"
proof -
  have "takeWhile (\<lambda>x. x \<noteq> c) (rev (u @ c # s)) = rev s"
    using assms(1) by (simp, subst takeWhile_append2) auto
  moreover have "takeWhile (\<lambda>x. x \<noteq> c) (rev (v @ c # t)) = rev t"
    using assms(2) by (simp, subst takeWhile_append2) auto
  ultimately have "s = t" using assms(3) by simp
  with assms(3) show ?thesis by simp
qed

section \<open>Intervals of heights\<close>

lemma upto_snoc: "i \<le> j \<Longrightarrow> [i..j] = [i..j - 1] @ [j]" for i j :: int
  by (rule upto_rec2)

lemma atLeastAtMost_insert_hi: "i \<le> j + 1 \<Longrightarrow> {i..j + 1} = insert (j + 1) {i..j}" for i j :: int
  by auto

lemma atLeastAtMost_remove_lo: "{i..j} - {i} = {i + 1..j}" for i j :: int
  by auto

section \<open>Maps and lists\<close>

lemma dom_map_upd_del: "dom (m(k := None)) = dom m - {k}"
  by auto

lemma map_filter_find:
  "find P xs = Some x \<Longrightarrow> x \<in> set xs \<and> P x"
  by (auto simp: find_Some_iff)

end
