(* ===== verification/Common_Types.thy ===== *)
theory Common_Types
  imports Go_Prelude
begin

text \<open>
  The data of \<open>common/types.go\<close> and \<open>common/face/syncer.go\<close>: block headers, account and
  snapshot blocks, snapshot points, fetch requests, and the functions that build them.

  Struct embedding in Go is record extension here: \<open>Tblock\<close> is embedded in both block
  types, so code written against the interface \<open>common.Block\<close> is polymorphic in the
  record extension. A time is its Unix second count, the only reading the code makes of
  the timestamp of a block.
\<close>

section \<open>Errors\<close>

text \<open>
  One constructor per error value that the modelled code creates; an \<open>err\<close> is what a Go
  function of result type \<open>error\<close> returns, \<^const>\<open>None\<close> being \<open>nil\<close>.
\<close>

datatype error =
    HasSnapshot
  | AccountNotExist string
  | SnapshotPointCheckFail
  | AccountStateError
  | NotExistSnapshotPoint
  | NotEqualsForStart
  | ErrorForkVersion int int
  | ForkChainError
  | CurrentModifyError
  | RollbackFail
  | LongestChainError
  | CurrentChainError
  | CantFindForkPoint
  | ErrorRollbackCmd
  | PendingForSomething
  | VerifyFail string
  | BlockNotExist string string
  | GetByHashError
  | WriteChannelFull
  | NoBestPeer
  | NetIdDiff int int
  | GenesisDiff string string
  | SnapshotHashEmpty
  | ReadFail

type_synonym err = "error option"

section \<open>Hash-height pairs and snapshot points\<close>

record HashHeight =
  Hash :: string
  Height :: int

record AccountHashH = HashHeight +
  Addr :: string

definition NewAccountHashH :: "string \<Rightarrow> string \<Rightarrow> int \<Rightarrow> AccountHashH" where
  [go_defs]: "NewAccountHashH address hash height = \<lparr>Hash = hash, Height = height, Addr = address\<rparr>"

record SnapshotPoint =
  spSnapshotHeight :: int
  spSnapshotHash :: string
  spAccountHeight :: int
  spAccountHash :: string

definition SnapshotPoint_Equals :: "SnapshotPoint \<Rightarrow> SnapshotPoint option \<Rightarrow> bool" where
  "SnapshotPoint_Equals self peer =
     (case peer of
        None \<Rightarrow> False
      | Some p \<Rightarrow>
          if spSnapshotHash self = spSnapshotHash p \<and>
             spSnapshotHeight self = spSnapshotHeight p \<and>
             spAccountHeight self = spAccountHeight p \<and>
             spAccountHash self = spAccountHash p
          then True else False)"

lemma SnapshotPoint_Equals_iff [simp]: "SnapshotPoint_Equals p q \<longleftrightarrow> q = Some p"
  by (cases q) (auto simp: SnapshotPoint_Equals_def)

section \<open>Block types\<close>

text \<open>
  \<open>BlockType\<close> is an integer in the source with three named values; a block decoded from
  the network may carry any other integer, which is the last constructor.
\<close>

datatype BlockType = GENESIS | SEND | RECEIVED | OtherBlockType int

fun BlockType_String :: "BlockType \<Rightarrow> string" where
  "BlockType_String SEND = ''send tx''"
| "BlockType_String RECEIVED = ''received tx''"
| "BlockType_String _ = ''Unknown''"

section \<open>Blocks\<close>

record Tblock =
  Theight :: int
  Thash :: string
  TpreHash :: string
  Tsigner :: string
  Ttimestamp :: int

definition SetHash :: "string \<Rightarrow> 'a Tblock_scheme \<Rightarrow> 'a Tblock_scheme" where
  [go_defs]: "SetHash hash b = b\<lparr>Thash := hash\<rparr>"

record AccountStateBlock = Tblock +
  Amount :: int
  ModifiedAmount :: int
  SnapshotHeight :: int
  SnapshotHash :: string
  BlockTypeOf :: BlockType
  From :: string
  To :: string
  SourceHash :: string
  SourceHeight :: int

record SnapshotBlock = Tblock +
  Accounts :: "AccountHashH list"

definition NewSnapshotBlock ::
  "int \<Rightarrow> string \<Rightarrow> string \<Rightarrow> string \<Rightarrow> int \<Rightarrow> AccountHashH list \<Rightarrow> SnapshotBlock" where
  [go_defs]: "NewSnapshotBlock height hash preHash signer timestamp accounts =
     \<lparr>Theight = height, Thash = hash, TpreHash = preHash, Tsigner = signer,
      Ttimestamp = timestamp, Accounts = accounts\<rparr>"

definition NewAccountBlock ::
  "int \<Rightarrow> string \<Rightarrow> string \<Rightarrow> string \<Rightarrow> int \<Rightarrow> int \<Rightarrow> int \<Rightarrow> int \<Rightarrow> string \<Rightarrow> BlockType \<Rightarrow>
   string \<Rightarrow> string \<Rightarrow> string \<Rightarrow> int \<Rightarrow> AccountStateBlock" where
  [go_defs]: "NewAccountBlock height hash preHash signer timestamp amount modifiedAmount
     snapshotHeight snapshotHash blockType from to sourceHash sourceHeight =
     \<lparr>Theight = height, Thash = hash, TpreHash = preHash, Tsigner = signer,
      Ttimestamp = timestamp, Amount = amount, ModifiedAmount = modifiedAmount,
      SnapshotHeight = snapshotHeight, SnapshotHash = snapshotHash,
      BlockTypeOf = blockType, From = from, To = to,
      SourceHash = sourceHash, SourceHeight = sourceHeight\<rparr>"

definition NewAccountBlockFrom ::
  "AccountStateBlock option \<Rightarrow> string \<Rightarrow> int \<Rightarrow> int \<Rightarrow> SnapshotBlock \<Rightarrow> BlockType \<Rightarrow>
   string \<Rightarrow> string \<Rightarrow> string \<Rightarrow> int \<Rightarrow> AccountStateBlock" where
  "NewAccountBlockFrom accountBlock signer timestamp modifiedAmount snapshotBlock blockType
     from to sourceHash sourceHeight =
     \<lparr>Theight = (case accountBlock of None \<Rightarrow> 1 | Some a \<Rightarrow> Theight a + 1),
      Thash = '''',
      TpreHash = (case accountBlock of None \<Rightarrow> '''' | Some a \<Rightarrow> Thash a),
      Tsigner = signer, Ttimestamp = timestamp,
      Amount = (case accountBlock of
                  None \<Rightarrow> modifiedAmount
                | Some a \<Rightarrow> wrap64 (Amount a + modifiedAmount)),
      ModifiedAmount = modifiedAmount,
      SnapshotHeight = Theight snapshotBlock, SnapshotHash = Thash snapshotBlock,
      BlockTypeOf = blockType, From = from, To = to,
      SourceHash = sourceHash, SourceHeight = sourceHeight\<rparr>"

section \<open>Fetch requests\<close>

record FetchRequest =
  frChain :: string
  frHeight :: int
  frHash :: string
  frPrevCnt :: int

definition FetchRequest_String :: "FetchRequest \<Rightarrow> string" where
  "FetchRequest_String r =
     frChain r @ '','' @ itoa (frHeight r) @ '','' @ frHash r @ '','' @ itoa (frPrevCnt r)"

end
