(* ===== verification/Linked_Chain.thy ===== *)
theory Linked_Chain
  imports Common_Types
begin

text \<open>
  The contract that every chain of the program keeps: a height index holds a block at each
  height from 0 to the head, each block carries its own height, and its \<open>preHash\<close> is the
  hash of the block below. The definitions are polymorphic in the block type, and the
  account chains, the snapshot chain and the chains of the pool all use them.
\<close>

type_synonym 'a height_index = "int \<Rightarrow> 'a Tblock_scheme option"

text \<open>Blocks \<open>lo\<close> to \<open>hi\<close> are present with their own heights and linked by hash.\<close>

definition linked :: "'a height_index \<Rightarrow> int \<Rightarrow> int \<Rightarrow> bool" where
  "linked get lo hi \<longleftrightarrow>
     (\<forall>h. lo \<le> h \<longrightarrow> h \<le> hi \<longrightarrow> (\<exists>b. get h = Some b \<and> Theight b = h)) \<and>
     (\<forall>h b c. lo \<le> h \<longrightarrow> h < hi \<longrightarrow> get h = Some b \<longrightarrow> get (h + 1) = Some c \<longrightarrow> TpreHash c = Thash b)"

lemma linkedI:
  assumes "\<And>h. lo \<le> h \<Longrightarrow> h \<le> hi \<Longrightarrow> \<exists>b. get h = Some b \<and> Theight b = h"
    and "\<And>h b c. lo \<le> h \<Longrightarrow> h < hi \<Longrightarrow> get h = Some b \<Longrightarrow> get (h + 1) = Some c \<Longrightarrow> TpreHash c = Thash b"
  shows "linked get lo hi"
  unfolding linked_def using assms by blast

lemma linked_get: "linked get lo hi \<Longrightarrow> lo \<le> h \<Longrightarrow> h \<le> hi \<Longrightarrow> \<exists>b. get h = Some b \<and> Theight b = h"
  unfolding linked_def by blast

lemma linked_preHash:
  "linked get lo hi \<Longrightarrow> lo \<le> h \<Longrightarrow> h < hi \<Longrightarrow> get h = Some b \<Longrightarrow> get (h + 1) = Some c \<Longrightarrow>
   TpreHash c = Thash b"
  unfolding linked_def by blast

lemma linked_height: "linked get lo hi \<Longrightarrow> lo \<le> h \<Longrightarrow> h \<le> hi \<Longrightarrow> get h = Some b \<Longrightarrow> Theight b = h"
  using linked_get [of get lo hi h] by auto

lemma linked_empty [simp]: "hi < lo \<Longrightarrow> linked get lo hi"
  by (rule linkedI) simp_all

lemma linked_single: "get h = Some b \<Longrightarrow> Theight b = h \<Longrightarrow> linked get h h"
  by (rule linkedI) simp_all

text \<open>A chain depends only on the heights it spans, and any sub-range of it is a chain.\<close>

lemma linked_transfer:
  assumes "linked get lo hi" "\<And>h. lo \<le> h \<Longrightarrow> h \<le> hi \<Longrightarrow> get' h = get h"
  shows "linked get' lo hi"
proof (rule linkedI)
  fix h b c
  assume "lo \<le> h" "h < hi" "get' h = Some b" "get' (h + 1) = Some c"
  then show "TpreHash c = Thash b"
    using assms(2) [of h] assms(2) [of "h + 1"] by (intro linked_preHash [OF assms(1), of h]) auto
qed (use linked_get [OF assms(1)] assms(2) in auto)

lemma linked_cong:
  assumes "\<And>h. lo \<le> h \<Longrightarrow> h \<le> hi \<Longrightarrow> get h = get' h"
  shows "linked get lo hi = linked get' lo hi"
  using assms linked_transfer by metis

lemma linked_sub:
  assumes "linked get lo hi" "lo \<le> lo'" "hi' \<le> hi"
  shows "linked get lo' hi'"
  using assms
  by (intro linkedI) (blast intro: linked_get linked_preHash order.trans order.strict_trans2)+

text \<open>Appending the next block, and joining two adjacent chains.\<close>

lemma linked_join:
  assumes "linked get lo mid" "linked get (mid + 1) hi"
    and "\<And>b c. lo \<le> mid \<Longrightarrow> mid < hi \<Longrightarrow> get mid = Some b \<Longrightarrow> get (mid + 1) = Some c \<Longrightarrow> TpreHash c = Thash b"
  shows "linked get lo hi"
proof (rule linkedI)
  fix h assume h: "lo \<le> h" "h \<le> hi"
  show "\<exists>b. get h = Some b \<and> Theight b = h"
  proof (cases "h \<le> mid")
    case True
    with h show ?thesis by (intro linked_get [OF assms(1)]) auto
  next
    case False
    with h show ?thesis by (intro linked_get [OF assms(2)]) auto
  qed
next
  fix h b c
  assume h: "lo \<le> h" "h < hi" "get h = Some b" "get (h + 1) = Some c"
  consider "h < mid" | "h = mid" | "mid < h" by linarith
  then show "TpreHash c = Thash b"
  proof cases
    case 1
    with h show ?thesis by (intro linked_preHash [OF assms(1), of h]) auto
  next
    case 2
    with h show ?thesis by (intro assms(3)) auto
  next
    case 3
    with h show ?thesis by (intro linked_preHash [OF assms(2), of h]) auto
  qed
qed

lemma linked_extend:
  assumes "linked get lo hi" "Theight b = hi + 1"
    and "\<And>c. lo \<le> hi \<Longrightarrow> get hi = Some c \<Longrightarrow> TpreHash b = Thash c"
  shows "linked (get(hi + 1 \<mapsto> b)) lo (hi + 1)"
proof (rule linked_join)
  show "linked (get(hi + 1 \<mapsto> b)) lo hi"
    using assms(1) linked_cong [of lo hi "get(hi + 1 \<mapsto> b)" get] by simp
  show "linked (get(hi + 1 \<mapsto> b)) (hi + 1) (hi + 1)"
    using assms(2) by (auto intro!: linked_single)
qed (use assms(3) in auto)

lemma linked_prepend:
  assumes "linked get lo hi" "Theight b = lo - 1"
    and "\<And>c. lo \<le> hi \<Longrightarrow> get lo = Some c \<Longrightarrow> TpreHash c = Thash b"
  shows "linked (get(lo - 1 \<mapsto> b)) (lo - 1) hi"
proof (rule linked_join [where mid = "lo - 1"])
  show "linked (get(lo - 1 \<mapsto> b)) (lo - 1) (lo - 1)"
    using assms(2) by (auto intro!: linked_single)
  show "linked (get(lo - 1 \<mapsto> b)) (lo - 1 + 1) hi"
    using assms(1) linked_cong [of lo hi "get(lo - 1 \<mapsto> b)" get] by simp
qed (use assms(3) in auto)

text \<open>
  Two chains that agree at some height agree at every height below it, if equal hashes mean
  equal blocks there: the reason why one common block is a fork point.
\<close>

lemma linked_agree_below:
  assumes "linked f lo hi" "linked g lo hi" "f hi = g hi"
    and inj: "\<And>h b c. lo \<le> h \<Longrightarrow> h < hi \<Longrightarrow> f h = Some b \<Longrightarrow> g h = Some c \<Longrightarrow> Thash b = Thash c \<Longrightarrow> b = c"
    and "lo \<le> h" "h \<le> hi"
  shows "f h = g h"
  using assms(6,5)
proof (induction h rule: int_le_induct)
  case base
  then show ?case using assms(3) by simp
next
  case (step i)
  then have fg: "f i = g i" by simp
  obtain b c d where "f (i - 1) = Some b" "g (i - 1) = Some c" "f i = Some d"
    using linked_get [OF assms(1), of "i - 1"] linked_get [OF assms(2), of "i - 1"]
      linked_get [OF assms(1), of i] step.hyps step.prems by auto
  moreover from this have "TpreHash d = Thash b" "TpreHash d = Thash c"
    using linked_preHash [OF assms(1), of "i - 1" b d] linked_preHash [OF assms(2), of "i - 1" c d]
      fg step.hyps step.prems by auto
  ultimately show ?case using inj [of "i - 1" b c] step.hyps step.prems by simp
qed

section \<open>A chain with its head\<close>

text \<open>
  \<open>chain_ok get hd0\<close>: the index \<open>get\<close> holds exactly one linked chain from height 0 to the
  block \<open>hd0\<close>, and nothing when there is no head. \<open>extends hd0 b\<close>: the block \<open>b\<close> is a
  correct next block.
\<close>

definition chain_ok :: "'a height_index \<Rightarrow> 'a Tblock_scheme option \<Rightarrow> bool" where
  "chain_ok get hd0 \<longleftrightarrow>
     (case hd0 of
        None \<Rightarrow> get = Map.empty
      | Some b \<Rightarrow> 0 \<le> Theight b \<and> get (Theight b) = Some b \<and> linked get 0 (Theight b) \<and>
          dom get = {0..Theight b})"

definition extends :: "'a Tblock_scheme option \<Rightarrow> 'a Tblock_scheme \<Rightarrow> bool" where
  "extends hd0 b \<longleftrightarrow>
     (case hd0 of
        None \<Rightarrow> Theight b = 0
      | Some c \<Rightarrow> Theight b = Theight c + 1 \<and> TpreHash b = Thash c)"

lemma chain_okD:
  assumes "chain_ok get (Some b)"
  shows "0 \<le> Theight b" "get (Theight b) = Some b" "linked get 0 (Theight b)"
    "dom get = {0..Theight b}"
  using assms by (simp_all add: chain_ok_def)

lemma chain_ok_none_above: "chain_ok get (Some b) \<Longrightarrow> Theight b < h \<Longrightarrow> get h = None"
  using chain_okD(4) [of get b] by (metis atLeastAtMost_iff domIff linorder_not_le)

lemma chain_ok_negative:
  assumes "chain_ok get hd0" "h < 0"
  shows "get h = None"
proof (cases hd0)
  case None
  with assms show ?thesis by (simp add: chain_ok_def)
next
  case (Some b)
  with assms have "h \<notin> dom get" by (simp add: chain_okD(4))
  then show ?thesis by (simp add: domIff)
qed

lemma chain_ok_height:
  assumes "chain_ok get hd0" "get h = Some c"
  shows "Theight c = h"
proof (cases hd0)
  case None
  with assms show ?thesis by (simp add: chain_ok_def)
next
  case (Some b)
  then have ok: "chain_ok get (Some b)" using assms(1) by simp
  from assms(2) have "h \<in> dom get" by (rule domI)
  then have "0 \<le> h" "h \<le> Theight b" using chain_okD(4) [OF ok] by simp_all
  then show ?thesis using linked_height [OF chain_okD(3) [OF ok]] assms(2) by blast
qed

lemma chain_ok_Some:
  "chain_ok get (Some b) \<Longrightarrow> 0 \<le> h \<Longrightarrow> h \<le> Theight b \<Longrightarrow> \<exists>c. get h = Some c \<and> Theight c = h"
  by (meson chain_okD(3) linked_get)

lemma chain_ok_insert:
  assumes ok: "chain_ok get hd0" and ext: "extends hd0 b"
  shows "chain_ok (get(Theight b \<mapsto> b)) (Some b)"
proof (cases hd0)
  case None
  with ok ext have "get = Map.empty" "Theight b = 0"
    by (simp_all add: chain_ok_def extends_def)
  then show ?thesis
    by (simp add: chain_ok_def linked_single)
next
  case (Some c)
  note c = chain_okD [OF ok [unfolded Some]]
  from ext Some have b: "Theight b = Theight c + 1" "TpreHash b = Thash c"
    by (simp_all add: extends_def)
  have "linked (get(Theight c + 1 \<mapsto> b)) 0 (Theight c + 1)"
    using c b by (intro linked_extend) auto
  moreover have "dom (get(Theight b \<mapsto> b)) = {0..Theight b}"
    using c(1,4) b(1) atLeastAtMost_insert_hi [of 0 "Theight c"] by simp
  ultimately show ?thesis
    using c(1) b(1) by (simp add: chain_ok_def)
qed

lemma chain_ok_remove:
  assumes ok: "chain_ok get (Some b)"
  shows "chain_ok (get(Theight b := None)) (get (Theight b - 1))"
proof (cases "Theight b = 0")
  case True
  with ok have "dom get = {0}" "get (- 1) = None"
    using chain_okD(4) [OF ok] chain_ok_negative [OF ok, of "- 1"] by simp_all
  with True show ?thesis
    by (auto simp: chain_ok_def fun_eq_iff domIff)
next
  case False
  note b = chain_okD [OF ok]
  then have lo: "0 \<le> Theight b - 1" using False by simp
  obtain c where c: "get (Theight b - 1) = Some c" "Theight c = Theight b - 1"
    using chain_ok_Some [OF ok lo] by auto
  have "linked (get(Theight b := None)) 0 (Theight b - 1)"
    using b(3) by (intro linked_transfer [OF linked_sub [OF b(3)]]) auto
  moreover have "dom (get(Theight b := None)) = {0..Theight b - 1}"
    using b(4) by (auto simp: dom_map_upd_del)
  ultimately show ?thesis
    using c lo by (simp add: chain_ok_def)
qed

lemma chain_ok_head_inj:
  "chain_ok get (Some b) \<Longrightarrow> get h = Some b \<Longrightarrow> h = Theight b"
  using chain_ok_height by fastforce

section \<open>The contract of a chain that grows and shrinks at its head\<close>

text \<open>
  \<open>append_chain\<close>: an insertion that does not panic files the block and makes it the head.
  \<open>removable_chain\<close> adds that removing the head block gives back the chain below it; \<open>inv\<close>
  is whatever else the implementation maintains and \<open>fresh\<close> the condition under which an
  insertion maintains it.
\<close>

locale append_chain =
  fixes blocks :: "'s \<Rightarrow> 'a height_index"
    and head :: "'s \<Rightarrow> 'a Tblock_scheme option"
    and insert :: "'a Tblock_scheme \<Rightarrow> 's \<Rightarrow> 's option"
    and wf :: "'s \<Rightarrow> bool"
  assumes blocks_insert: "wf s \<Longrightarrow> insert b s = Some s' \<Longrightarrow> blocks s' = (blocks s)(Theight b \<mapsto> b)"
    and head_insert: "wf s \<Longrightarrow> insert b s = Some s' \<Longrightarrow> head s' = Some b"
    and wf_insert: "wf s \<Longrightarrow> insert b s = Some s' \<Longrightarrow> wf s'"
begin

lemma insert_chain_ok:
  assumes "wf s" "chain_ok (blocks s) (head s)" "extends (head s) b" "insert b s = Some s'"
  shows "chain_ok (blocks s') (head s')"
  using assms by (simp add: blocks_insert head_insert chain_ok_insert)

text \<open>Inserting a run of blocks, each extending the one before.\<close>

fun insert_all :: "'a Tblock_scheme list \<Rightarrow> 's \<Rightarrow> 's option" where
  "insert_all [] s = Some s"
| "insert_all (b # bs) s = Option.bind (insert b s) (insert_all bs)"

fun extends_all :: "'a Tblock_scheme option \<Rightarrow> 'a Tblock_scheme list \<Rightarrow> bool" where
  "extends_all hd0 [] = True"
| "extends_all hd0 (b # bs) = (extends hd0 b \<and> extends_all (Some b) bs)"

lemma insert_all_chain_ok:
  "wf s \<Longrightarrow> chain_ok (blocks s) (head s) \<Longrightarrow> extends_all (head s) bs \<Longrightarrow> insert_all bs s = Some s' \<Longrightarrow>
   chain_ok (blocks s') (head s')"
proof (induction bs arbitrary: s)
  case Nil
  then show ?case by simp
next
  case (Cons b bs)
  then obtain s1 where s1: "insert b s = Some s1" "insert_all bs s1 = Some s'"
    by (auto split: Option.bind_splits)
  from Cons.prems s1(1) have "wf s1" "head s1 = Some b" "chain_ok (blocks s1) (head s1)"
    using insert_chain_ok [of s b s1] by (auto simp: wf_insert head_insert)
  with Cons.prems(3) s1(2) show ?case by (intro Cons.IH [of s1]) auto
qed

end

locale removable_chain = append_chain blocks head insert wf
  for blocks :: "'s \<Rightarrow> 'a height_index"
    and head :: "'s \<Rightarrow> 'a Tblock_scheme option"
    and insert :: "'a Tblock_scheme \<Rightarrow> 's \<Rightarrow> 's option"
    and wf :: "'s \<Rightarrow> bool" +
  fixes remove :: "'a Tblock_scheme \<Rightarrow> 's \<Rightarrow> 's"
    and inv :: "'s \<Rightarrow> bool"
    and fresh :: "'s \<Rightarrow> 'a Tblock_scheme \<Rightarrow> bool"
  assumes inv_wf: "inv s \<Longrightarrow> wf s"
    and inv_chain: "inv s \<Longrightarrow> chain_ok (blocks s) (head s)"
    and inv_insert: "inv s \<Longrightarrow> extends (head s) b \<Longrightarrow> fresh s b \<Longrightarrow> insert b s = Some s' \<Longrightarrow> inv s'"
    and blocks_remove: "inv s \<Longrightarrow> head s = Some b \<Longrightarrow> 0 < Theight b \<Longrightarrow>
      blocks (remove b s) = (blocks s)(Theight b := None)"
    and head_remove: "inv s \<Longrightarrow> head s = Some b \<Longrightarrow> 0 < Theight b \<Longrightarrow>
      head (remove b s) = blocks s (Theight b - 1)"
    and inv_remove: "inv s \<Longrightarrow> head s = Some b \<Longrightarrow> 0 < Theight b \<Longrightarrow> inv (remove b s)"
begin

lemma insert_remove:
  assumes "inv s" "head s = Some c" "extends (head s) b" "fresh s b" "insert b s = Some s'"
  shows "head (remove b s') = Some c" "blocks (remove b s') = blocks s"
proof -
  have b: "Theight b = Theight c + 1" using assms(2,3) by (simp add: extends_def)
  have ok: "chain_ok (blocks s) (Some c)" using inv_chain [OF assms(1)] assms(2) by simp
  have pos: "0 < Theight b" using b chain_okD(1) [OF ok] by simp
  have inv': "inv s'" and hd0': "head s' = Some b"
    using assms inv_insert head_insert inv_wf by blast+
  have "head (remove b s') = blocks s' (Theight c)"
    using head_remove [OF inv' hd0' pos] b by simp
  also have "\<dots> = Some c"
    using blocks_insert [OF inv_wf [OF assms(1)] assms(5)] b chain_okD(2) [OF ok] by simp
  finally show "head (remove b s') = Some c" .
  have "blocks s (Theight b) = None"
    using chain_ok_none_above [OF ok] b by simp
  then show "blocks (remove b s') = blocks s"
    using blocks_remove [OF inv' hd0' pos] blocks_insert [OF inv_wf [OF assms(1)] assms(5)] by (auto simp: fun_eq_iff)
qed

text \<open>Removing \<open>n\<close> heads in a row leaves the chain cut \<open>n\<close> blocks lower.\<close>

fun remove_n :: "nat \<Rightarrow> 's \<Rightarrow> 's" where
  "remove_n 0 s = s"
| "remove_n (Suc n) s = (case head s of None \<Rightarrow> s | Some b \<Rightarrow> remove_n n (remove b s))"

lemma remove_n:
  assumes "inv s" "head s = Some b" "int n \<le> Theight b"
  shows "inv (remove_n n s) \<and> head (remove_n n s) = blocks s (Theight b - int n) \<and>
    (\<forall>h. h \<le> Theight b - int n \<longrightarrow> blocks (remove_n n s) h = blocks s h)"
  using assms
proof (induction n arbitrary: s b)
  case 0
  then show ?case using chain_okD(2) inv_chain by fastforce
next
  case (Suc n)
  have ok: "chain_ok (blocks s) (Some b)" using inv_chain [OF Suc.prems(1)] Suc.prems(2) by simp
  have pos: "0 < Theight b" using Suc.prems(3) by simp
  obtain c where c: "blocks s (Theight b - 1) = Some c" "Theight c = Theight b - 1"
    using chain_ok_Some [OF ok, of "Theight b - 1"] pos by auto
  have "inv (remove b s)" "head (remove b s) = Some c"
    using Suc.prems pos inv_remove head_remove c by auto
  moreover have "int n \<le> Theight c" using Suc.prems(3) c(2) by simp
  ultimately have IH: "inv (remove_n n (remove b s)) \<and>
      head (remove_n n (remove b s)) = blocks (remove b s) (Theight c - int n) \<and>
      (\<forall>h. h \<le> Theight c - int n \<longrightarrow> blocks (remove_n n (remove b s)) h = blocks (remove b s) h)"
    by (rule Suc.IH)
  then show ?case
    using Suc.prems pos c(2) blocks_remove [OF Suc.prems(1,2) pos] by (simp add: algebra_simps)
qed

end

end
