(* ===== verification/Sha256.thy ===== *)
theory Sha256
  imports Go_Prelude
begin

text \<open>
  The part of Go's \<open>crypto/sha256\<close> and \<open>encoding/hex\<close> that \<open>tools/hashcal.go\<close> calls: the
  SHA-256 digest of a byte string (FIPS 180-4) and its lower-case hexadecimal form. The
  definitions compute: the genesis hashes written as literals in the source are evaluated
  by the kernel in theory \<open>Genesis\<close>. A 32-bit word is an \<open>int\<close> between 0 and \<open>2 ^ 32 - 1\<close>,
  with the wrap-around of additions written out (\<open>low32\<close>), because the
  simplifier evaluates bit operations on \<open>int\<close> numerals directly.
\<close>

unbundle bit_operations_syntax

type_synonym u32 = int
type_synonym sha_state = "u32 \<times> u32 \<times> u32 \<times> u32 \<times> u32 \<times> u32 \<times> u32 \<times> u32"

section \<open>Constants\<close>

definition sha_init :: sha_state where
  "sha_init = (0x6a09e667, 0xbb67ae85, 0x3c6ef372, 0xa54ff53a,
               0x510e527f, 0x9b05688c, 0x1f83d9ab, 0x5be0cd19)"

text \<open>The 64 round constants in sixteen groups of four.\<close>

definition sha_k :: "nat \<Rightarrow> u32 list" where
  "sha_k g =
     (if g = 0 then [0x428a2f98, 0x71374491, 0xb5c0fbcf, 0xe9b5dba5]
      else if g = 1 then [0x3956c25b, 0x59f111f1, 0x923f82a4, 0xab1c5ed5]
      else if g = 2 then [0xd807aa98, 0x12835b01, 0x243185be, 0x550c7dc3]
      else if g = 3 then [0x72be5d74, 0x80deb1fe, 0x9bdc06a7, 0xc19bf174]
      else if g = 4 then [0xe49b69c1, 0xefbe4786, 0x0fc19dc6, 0x240ca1cc]
      else if g = 5 then [0x2de92c6f, 0x4a7484aa, 0x5cb0a9dc, 0x76f988da]
      else if g = 6 then [0x983e5152, 0xa831c66d, 0xb00327c8, 0xbf597fc7]
      else if g = 7 then [0xc6e00bf3, 0xd5a79147, 0x06ca6351, 0x14292967]
      else if g = 8 then [0x27b70a85, 0x2e1b2138, 0x4d2c6dfc, 0x53380d13]
      else if g = 9 then [0x650a7354, 0x766a0abb, 0x81c2c92e, 0x92722c85]
      else if g = 10 then [0xa2bfe8a1, 0xa81a664b, 0xc24b8b70, 0xc76c51a3]
      else if g = 11 then [0xd192e819, 0xd6990624, 0xf40e3585, 0x106aa070]
      else if g = 12 then [0x19a4c116, 0x1e376c08, 0x2748774c, 0x34b0bcb5]
      else if g = 13 then [0x391c0cb3, 0x4ed8aa4a, 0x5b9cca4f, 0x682e6ff3]
      else if g = 14 then [0x748f82ee, 0x78a5636f, 0x84c87814, 0x8cc70208]
      else [0x90befffa, 0xa4506ceb, 0xbef9a3f7, 0xc67178f2])"

section \<open>Compression\<close>

definition low32 :: "int \<Rightarrow> u32" where
  "low32 x = x AND 0xffffffff"

definition rotr :: "nat \<Rightarrow> u32 \<Rightarrow> u32" where
  "rotr n x = drop_bit n x OR push_bit (32 - n) (take_bit n x)"

definition big_sigma0 :: "u32 \<Rightarrow> u32" where
  "big_sigma0 x = rotr 2 x XOR rotr 13 x XOR rotr 22 x"

definition big_sigma1 :: "u32 \<Rightarrow> u32" where
  "big_sigma1 x = rotr 6 x XOR rotr 11 x XOR rotr 25 x"

definition small_sigma0 :: "u32 \<Rightarrow> u32" where
  "small_sigma0 x = rotr 7 x XOR rotr 18 x XOR drop_bit 3 x"

definition small_sigma1 :: "u32 \<Rightarrow> u32" where
  "small_sigma1 x = rotr 17 x XOR rotr 19 x XOR drop_bit 10 x"

definition sha_ch :: "u32 \<Rightarrow> u32 \<Rightarrow> u32 \<Rightarrow> u32" where
  "sha_ch x y z = (x AND y) XOR (NOT x AND z)"

definition sha_maj :: "u32 \<Rightarrow> u32 \<Rightarrow> u32 \<Rightarrow> u32" where
  "sha_maj x y z = (x AND y) XOR (x AND z) XOR (y AND z)"

fun sha_mix :: "u32 \<Rightarrow> u32 \<Rightarrow> sha_state \<Rightarrow> sha_state" where
  "sha_mix t1 t2 (a, b, c, d, e, f, g, h) = (low32 (t1 + t2), a, b, c, low32 (d + t1), e, f, g)"

text \<open>
  One round consumes the first word of the sixteen-word window of the message schedule and
  appends the word that enters it.
\<close>

fun sha_round :: "sha_state \<times> u32 list \<Rightarrow> u32 \<Rightarrow> sha_state \<times> u32 list" where
  "sha_round ((a, b, c, d, e, f, g, h), []) k = ((a, b, c, d, e, f, g, h), [])"
| "sha_round ((a, b, c, d, e, f, g, h), w # ws) k =
     (sha_mix (h + big_sigma1 e + sha_ch e f g + k + w) (big_sigma0 a + sha_maj a b c)
        (a, b, c, d, e, f, g, h),
      ws @ [low32 (small_sigma1 (ws ! 13) + ws ! 8 + small_sigma0 (ws ! 0) + w)])"

definition sha_rounds :: "sha_state \<times> u32 list \<Rightarrow> sha_state \<times> u32 list" where
  "sha_rounds sw =
     foldl (\<lambda>s g. foldl sha_round s (sha_k g)) sw
       [0, 1, 2, 3, 4, 5, 6, 7, 8, 9, 10, 11, 12, 13, 14, 15]"

fun sha_add :: "sha_state \<Rightarrow> sha_state \<Rightarrow> sha_state" where
  "sha_add (a, b, c, d, e, f, g, h) (a', b', c', d', e', f', g', h') =
     (low32 (a + a'), low32 (b + b'), low32 (c + c'), low32 (d + d'),
      low32 (e + e'), low32 (f + f'), low32 (g + g'), low32 (h + h'))"

section \<open>Padding and digest\<close>

fun sha_words :: "int list \<Rightarrow> u32 list" where
  "sha_words (a # b # c # d # bs) = (a * 16777216 + b * 65536 + c * 256 + d) # sha_words bs"
| "sha_words _ = []"

definition sha_pad :: "int list \<Rightarrow> int list" where
  "sha_pad bs = bs @ 128 # replicate (nat ((55 - int (length bs)) mod 64)) 0 @
     map (\<lambda>p. (8 * int (length bs)) div p mod 256)
       [72057594037927936, 281474976710656, 1099511627776, 4294967296, 16777216, 65536, 256, 1]"

definition sha_block :: "sha_state \<Rightarrow> u32 list \<Rightarrow> sha_state" where
  "sha_block s ws = sha_add s (fst (sha_rounds (s, ws)))"

function sha_blocks :: "sha_state \<Rightarrow> u32 list \<Rightarrow> sha_state" where
  "sha_blocks s ws =
     (if length ws < 16 then s else sha_blocks (sha_block s (take 16 ws)) (drop 16 ws))"
  by pat_completeness auto
termination
  by (relation "measure (\<lambda>(s, ws). length ws)") auto

declare sha_blocks.simps [simp del]

lemma sha_blocks_Nil [simp]: "sha_blocks s [] = s"
  by (simp add: sha_blocks.simps)

lemma sha_blocks_append: "length ws = 16 \<Longrightarrow> sha_blocks s (ws @ vs) = sha_blocks (sha_block s ws) vs"
  by (subst sha_blocks.simps) simp

definition hex_digit :: "int \<Rightarrow> char" where
  "hex_digit d = ''0123456789abcdef'' ! nat d"

definition hex_u32 :: "u32 \<Rightarrow> string" where
  "hex_u32 w = map (\<lambda>p. hex_digit (drop_bit p w AND 15)) [28, 24, 20, 16, 12, 8, 4, 0]"

fun hex_state :: "sha_state \<Rightarrow> string" where
  "hex_state (a, b, c, d, e, f, g, h) =
     hex_u32 a @ hex_u32 b @ hex_u32 c @ hex_u32 d @ hex_u32 e @ hex_u32 f @ hex_u32 g @ hex_u32 h"

definition sha256_hex :: "string \<Rightarrow> string" where
  "sha256_hex s = hex_state (sha_blocks sha_init (sha_words (sha_pad (map of_char s))))"

lemma replicate_numeral_unfold: "replicate (numeral k) x = x # replicate (pred_numeral k) x"
  by (simp add: numeral_eq_Suc)

text \<open>What the kernel needs to evaluate a digest.\<close>

lemmas sha_eval = sha256_hex_def sha_pad_def sha_block_def sha_blocks.simps sha_init_def sha_k_def sha_rounds_def
  low32_def rotr_def big_sigma0_def big_sigma1_def small_sigma0_def small_sigma1_def
  sha_ch_def sha_maj_def hex_u32_def hex_digit_def replicate_numeral_unfold

lemma low32_mod: "low32 x = x mod 2 ^ 32"
  using take_bit_eq_mask [of 32 x] by (simp add: low32_def mask_eq_exp_minus_1 take_bit_eq_mod)

lemma hex_u32_length: "length (hex_u32 w) = 8"
  by (simp add: hex_u32_def)

lemma sha256_hex_length: "length (sha256_hex s) = 64"
proof -
  obtain a b c d e f g h where
    "sha_blocks sha_init (sha_words (sha_pad (map of_char s))) = (a, b, c, d, e, f, g, h)"
    by (metis surj_pair)
  then show ?thesis by (simp add: sha256_hex_def hex_u32_length)
qed

lemma sha256_hex_nonempty: "sha256_hex s \<noteq> []"
  using sha256_hex_length [of s] by auto

lemma hex_digit_range: "hex_digit (x AND 15) \<in> set ''0123456789abcdef''"
proof -
  have "x AND 15 = x mod 16" using take_bit_eq_mask [of 4 x] by (simp add: mask_eq_exp_minus_1 take_bit_eq_mod)
  then have "nat (x AND 15) < length ''0123456789abcdef''" by (simp add: nat_less_iff)
  then show ?thesis unfolding hex_digit_def by (rule nth_mem)
qed

lemma hex_u32_digits: "set (hex_u32 w) \<subseteq> set ''0123456789abcdef''"
  unfolding hex_u32_def set_map using hex_digit_range by blast

lemma sha256_hex_digits: "set (sha256_hex s) \<subseteq> set ''0123456789abcdef''"
proof -
  obtain a b c d e f g h where
    "sha_blocks sha_init (sha_words (sha_pad (map of_char s))) = (a, b, c, d, e, f, g, h)"
    by (metis surj_pair)
  then show ?thesis unfolding sha256_hex_def using hex_u32_digits by (simp only: hex_state.simps set_append Un_subset_iff simp_thms)
qed

end
