(* ===== verification/Hashcal.thy ===== *)
theory Hashcal
  imports Common_Types Sha256
begin

text \<open>
  Block hashing, \<open>tools/hashcal.go\<close>: the text of a block that is hashed, and the hash of
  account and snapshot blocks.
\<close>

definition calculateHash :: "string \<Rightarrow> string" where
  "calculateHash s = sha256_hex s"

definition blockStr :: "'a Tblock_scheme \<Rightarrow> string" where
  "blockStr b = itoa (Ttimestamp b) @ Tsigner b @ TpreHash b @ itoa (Theight b)"

definition CalculateAccountHash :: "AccountStateBlock \<Rightarrow> string" where
  "CalculateAccountHash b =
     calculateHash (blockStr b @ itoa (Amount b) @ itoa (ModifiedAmount b) @
       itoa (SnapshotHeight b) @ SnapshotHash b @ BlockType_String (BlockTypeOf b) @
       From b @ To b @ SourceHash b @ itoa (SourceHeight b))"

fun accStr :: "AccountHashH list \<Rightarrow> string" where
  "accStr [] = ''''"
| "accStr (a # as) = itoa (Height a) @ Hash a @ Addr a @ accStr as"

definition CalculateSnapshotHash :: "SnapshotBlock \<Rightarrow> string" where
  "CalculateSnapshotHash b = calculateHash (blockStr b @ accStr (Accounts b))"

text \<open>The hash field of a block does not enter its hash, so setting it is idempotent.\<close>

lemma CalculateAccountHash_SetHash [simp]:
  "CalculateAccountHash (SetHash h b) = CalculateAccountHash b"
  by (simp add: CalculateAccountHash_def blockStr_def SetHash_def)

lemma CalculateSnapshotHash_SetHash [simp]:
  "CalculateSnapshotHash (SetHash h b) = CalculateSnapshotHash b"
  by (simp add: CalculateSnapshotHash_def blockStr_def SetHash_def)

lemma calculateHash_length: "length (calculateHash s) = 64"
  by (simp add: calculateHash_def sha256_hex_length)

lemma CalculateAccountHash_nonempty [simp]: "CalculateAccountHash b \<noteq> []"
  using sha256_hex_nonempty by (auto simp: CalculateAccountHash_def calculateHash_def)

lemma CalculateSnapshotHash_nonempty [simp]: "CalculateSnapshotHash b \<noteq> []"
  using sha256_hex_nonempty by (auto simp: CalculateSnapshotHash_def calculateHash_def)

text \<open>
  The text that is hashed is not a unique encoding of the block: its fields are
  concatenated without separators. Two different account blocks with the same text have the
  same hash whatever the hash function is; here the digit 1 moves from the height to the
  balance.
\<close>

definition ambiguous_block1 :: AccountStateBlock where
  "ambiguous_block1 = NewAccountBlock 11 '''' ''p'' ''a'' 0 2 3 0 ''s'' SEND ''a'' ''b'' '''' (-1)"

definition ambiguous_block2 :: AccountStateBlock where
  "ambiguous_block2 = NewAccountBlock 1 '''' ''p'' ''a'' 0 12 3 0 ''s'' SEND ''a'' ''b'' '''' (-1)"

lemma ambiguous_blocks: "CalculateAccountHash ambiguous_block1 = CalculateAccountHash ambiguous_block2"
  by (simp add: CalculateAccountHash_def blockStr_def ambiguous_block1_def ambiguous_block2_def
      NewAccountBlock_def itoa_def utoa.simps)

text \<open>Whatever a block contains, its hash is a text of 64 lower-case hexadecimal digits: in particular it
  is never the empty text that stands for no hash, and has no underscore, the separator of keys.\<close>

theorem hash_format:
  "length (CalculateAccountHash a) = 64 \<and> set (CalculateAccountHash a) \<subseteq> set ''0123456789abcdef'' \<and>
   length (CalculateSnapshotHash b) = 64 \<and> set (CalculateSnapshotHash b) \<subseteq> set ''0123456789abcdef''"
  unfolding CalculateAccountHash_def CalculateSnapshotHash_def
  using calculateHash_length sha256_hex_digits by (simp only: calculateHash_def simp_thms)

end
