(* ===== verification/Block_Store.thy ===== *)
theory Block_Store
  imports Hashcal
begin

text \<open>
  The in-memory block store, \<open>store/block_store.go\<close>: two indexes for snapshot blocks (by
  height, by hash), two for account blocks (by the key \<open>address_height\<close>, by hash), the
  index from a send block to the block that received it, and the table of chain heads.

  Locale \<open>block_index\<close> is the contract of one index (what a lookup returns after a store
  or a delete); it is interpreted for the five indexes below, and the chain theories rest on
  its facts.
\<close>

section \<open>State\<close>

record blockMemoryStore =
  snapshotHeight :: "int \<rightharpoonup> SnapshotBlock"
  snapshotHash :: "string \<rightharpoonup> SnapshotBlock"
  accountHeight :: "string \<rightharpoonup> AccountStateBlock"
  accountHash :: "string \<rightharpoonup> AccountStateBlock"
  sourceHash :: "string \<rightharpoonup> AccountStateBlock"
  heads :: "string \<rightharpoonup> HashHeight"

definition emptyStore :: blockMemoryStore where
  "emptyStore = \<lparr>snapshotHeight = Map.empty, snapshotHash = Map.empty,
     accountHeight = Map.empty, accountHash = Map.empty, sourceHash = Map.empty,
     heads = Map.empty\<rparr>"

definition snapshotHeadKey :: string where
  "snapshotHeadKey = ''s_head_key''"

definition genKey :: "string \<Rightarrow> int \<Rightarrow> string" where
  "genKey address height = address @ ''_'' @ itoa height"

section \<open>Operations\<close>

definition GetSnapshotHead :: "blockMemoryStore \<Rightarrow> HashHeight option" where
  [go_defs]: "GetSnapshotHead s = heads s snapshotHeadKey"

definition GetAccountHead :: "blockMemoryStore \<Rightarrow> string \<Rightarrow> HashHeight option" where
  [go_defs]: "GetAccountHead s address = heads s address"

definition SetSnapshotHead :: "HashHeight option \<Rightarrow> blockMemoryStore \<Rightarrow> blockMemoryStore" where
  [go_defs]: "SetSnapshotHead hashH s =
     (case hashH of
        None \<Rightarrow> s\<lparr>heads := (heads s)(snapshotHeadKey := None)\<rparr>
      | Some hh \<Rightarrow> s\<lparr>heads := (heads s)(snapshotHeadKey \<mapsto> hh)\<rparr>)"

definition SetAccountHead ::
  "string \<Rightarrow> HashHeight option \<Rightarrow> blockMemoryStore \<Rightarrow> blockMemoryStore" where
  [go_defs]: "SetAccountHead address hashH s =
     (case hashH of
        None \<Rightarrow> s\<lparr>heads := (heads s)(address := None)\<rparr>
      | Some hh \<Rightarrow> s\<lparr>heads := (heads s)(address \<mapsto> hh)\<rparr>)"

definition DeleteSnapshot :: "HashHeight \<Rightarrow> blockMemoryStore \<Rightarrow> blockMemoryStore" where
  [go_defs]: "DeleteSnapshot hashH s =
     s\<lparr>snapshotHeight := (snapshotHeight s)(Height hashH := None),
       snapshotHash := (snapshotHash s)(Hash hashH := None)\<rparr>"

definition DeleteAccount :: "string \<Rightarrow> HashHeight \<Rightarrow> blockMemoryStore \<Rightarrow> blockMemoryStore" where
  [go_defs]: "DeleteAccount address hashH s =
     s\<lparr>accountHash := (accountHash s)(Hash hashH := None),
       accountHeight := (accountHeight s)(genKey address (Height hashH) := None)\<rparr>"

definition PutSnapshot :: "SnapshotBlock \<Rightarrow> blockMemoryStore \<Rightarrow> blockMemoryStore" where
  [go_defs]: "PutSnapshot block s =
     s\<lparr>snapshotHash := (snapshotHash s)(Thash block \<mapsto> block),
       snapshotHeight := (snapshotHeight s)(Theight block \<mapsto> block)\<rparr>"

definition PutAccount :: "string \<Rightarrow> AccountStateBlock \<Rightarrow> blockMemoryStore \<Rightarrow> blockMemoryStore" where
  [go_defs]: "PutAccount address block s =
     s\<lparr>accountHash := (accountHash s)(Thash block \<mapsto> block),
       accountHeight := (accountHeight s)(genKey address (Theight block) \<mapsto> block)\<rparr>"

definition GetSnapshotByHash :: "blockMemoryStore \<Rightarrow> string \<Rightarrow> SnapshotBlock option" where
  [go_defs]: "GetSnapshotByHash s hash = snapshotHash s hash"

definition GetSnapshotByHeight :: "blockMemoryStore \<Rightarrow> int \<Rightarrow> SnapshotBlock option" where
  [go_defs]: "GetSnapshotByHeight s height = snapshotHeight s height"

definition GetAccountByHash :: "blockMemoryStore \<Rightarrow> string \<Rightarrow> AccountStateBlock option" where
  [go_defs]: "GetAccountByHash s hash = accountHash s hash"

definition GetAccountBySourceHash :: "blockMemoryStore \<Rightarrow> string \<Rightarrow> AccountStateBlock option" where
  [go_defs]: "GetAccountBySourceHash s hash = sourceHash s hash"

definition PutSourceHash :: "string \<Rightarrow> AccountStateBlock \<Rightarrow> blockMemoryStore \<Rightarrow> blockMemoryStore" where
  [go_defs]: "PutSourceHash hash block s = s\<lparr>sourceHash := (sourceHash s)(hash \<mapsto> block)\<rparr>"

definition DeleteSourceHash :: "string \<Rightarrow> blockMemoryStore \<Rightarrow> blockMemoryStore" where
  [go_defs]: "DeleteSourceHash hash s = s\<lparr>sourceHash := (sourceHash s)(hash := None)\<rparr>"

definition GetAccountByHeight :: "blockMemoryStore \<Rightarrow> string \<Rightarrow> int \<Rightarrow> AccountStateBlock option" where
  [go_defs]: "GetAccountByHeight s address height = accountHeight s (genKey address height)"

section \<open>The initial store\<close>

definition storeGenesisAccounts :: "string list" where
  "storeGenesisAccounts = [''viteshan'', ''jie'']"

definition genesisAccountBlock :: "string \<Rightarrow> AccountStateBlock" where
  "genesisAccountBlock a =
     (let genesis = NewAccountBlock 0 '''' '''' a 0 200 0 0 '''' GENESIS a a '''' (-1)
      in SetHash (CalculateAccountHash genesis) genesis)"

definition putGenesisAccount :: "string \<Rightarrow> blockMemoryStore \<Rightarrow> blockMemoryStore" where
  "putGenesisAccount a s =
     (let genesis = genesisAccountBlock a
      in SetAccountHead a (Some \<lparr>Hash = Thash genesis, Height = Theight genesis\<rparr>)
           (PutAccount a genesis s))"

definition NewMemoryStore :: "SnapshotBlock \<Rightarrow> blockMemoryStore" where
  "NewMemoryStore snapshotGenesis = fold putGenesisAccount storeGenesisAccounts emptyStore"

section \<open>Keys\<close>

text \<open>
  The key \<open>address_height\<close> determines both parts, for any address: the decimal height
  contains no underscore.
\<close>

lemma genKey_inject [simp]: "genKey a h = genKey a' h' \<longleftrightarrow> a = a' \<and> h = h'"
proof
  assume "genKey a h = genKey a' h'"
  then have "a @ CHR ''_'' # itoa h = a' @ CHR ''_'' # itoa h'"
    by (simp add: genKey_def)
  then have "a = a' \<and> itoa h = itoa h'"
    by (intro append_sep_inject [of "CHR ''_''"]) (simp_all add: itoa_no_underscore)
  then show "a = a' \<and> h = h'" by simp
qed simp

section \<open>The contract of an index\<close>

text \<open>
  \<open>put b\<close> files a block under \<open>key b\<close>, \<open>del d\<close> removes the entry for \<open>dkey d\<close>, and
  \<open>get\<close> looks a key up. The client facts: a run of blocks with distinct keys can all be
  read back, storing and deleting a new key leaves the index as it was, and what is stored
  last wins.
\<close>

locale block_index =
  fixes put :: "'b \<Rightarrow> 's \<Rightarrow> 's"
    and del :: "'d \<Rightarrow> 's \<Rightarrow> 's"
    and get :: "'s \<Rightarrow> 'k \<Rightarrow> 'b option"
    and key :: "'b \<Rightarrow> 'k"
    and dkey :: "'d \<Rightarrow> 'k"
  assumes get_put: "get (put b s) k = (if k = key b then Some b else get s k)"
    and get_del: "get (del d s) k = (if k = dkey d then None else get s k)"
begin

lemma get_put_same [simp]: "get (put b s) (key b) = Some b"
  by (simp add: get_put)

lemma get_put_other: "k \<noteq> key b \<Longrightarrow> get (put b s) k = get s k"
  by (simp add: get_put)

lemma get_put_fun: "get (put b s) = (get s)(key b \<mapsto> b)"
  by (rule ext) (simp add: get_put)

lemma get_del_fun: "get (del d s) = (get s)(dkey d := None)"
  by (rule ext) (simp add: get_del)

lemma del_put_roundtrip:
  assumes "get s (key b) = None" "dkey d = key b"
  shows "get (del d (put b s)) = get s"
  using assms by (auto simp: get_put_fun get_del_fun)

lemma get_fold_put_other: "k \<notin> key ` set bs \<Longrightarrow> get (fold put bs s) k = get s k"
  by (induction bs arbitrary: s) (simp_all add: get_put)

lemma get_fold_put:
  "distinct (map key bs) \<Longrightarrow> b \<in> set bs \<Longrightarrow> get (fold put bs s) (key b) = Some b"
proof (induction bs arbitrary: s)
  case Nil
  then show ?case by simp
next
  case (Cons c bs)
  then show ?case
    by (cases "b = c") (use get_fold_put_other in \<open>auto simp: get_put\<close>)
qed

end

interpretation snapshot_height: block_index PutSnapshot DeleteSnapshot GetSnapshotByHeight Theight Height
  by unfold_locales (simp_all add: go_defs)

interpretation snapshot_hash: block_index PutSnapshot DeleteSnapshot GetSnapshotByHash Thash Hash
  by unfold_locales (simp_all add: go_defs)

interpretation account_hash: block_index "PutAccount a" "DeleteAccount a" GetAccountByHash Thash Hash
  for a
  by unfold_locales (simp_all add: go_defs)

interpretation account_height: block_index
  "PutAccount a" "DeleteAccount a" "\<lambda>s. GetAccountByHeight s a" Theight Height
  for a
  by unfold_locales (simp_all add: go_defs)

interpretation source_hash: block_index
  "\<lambda>b. PutSourceHash (SourceHash b) b" DeleteSourceHash GetAccountBySourceHash SourceHash "\<lambda>h. h"
  by unfold_locales (simp_all add: go_defs)

section \<open>Frame: what each operation leaves alone\<close>

text \<open>Account blocks of one address are invisible to every other address.\<close>

lemma GetAccountByHeight_PutAccount:
  "GetAccountByHeight (PutAccount a b s) a' h =
     (if a' = a \<and> h = Theight b then Some b else GetAccountByHeight s a' h)"
  by (simp add: go_defs)

lemma GetAccountByHeight_DeleteAccount:
  "GetAccountByHeight (DeleteAccount a hh s) a' h =
     (if a' = a \<and> h = Height hh then None else GetAccountByHeight s a' h)"
  by (simp add: go_defs)

lemma store_frames [simp]:
  "GetAccountByHeight (SetAccountHead a hh s) a' h = GetAccountByHeight s a' h"
  "GetAccountByHeight (SetSnapshotHead hh s) a' h = GetAccountByHeight s a' h"
  "GetAccountByHeight (PutSourceHash sh b s) a' h = GetAccountByHeight s a' h"
  "GetAccountByHeight (DeleteSourceHash sh s) a' h = GetAccountByHeight s a' h"
  "GetAccountByHeight (PutSnapshot sb s) a' h = GetAccountByHeight s a' h"
  "GetAccountByHeight (DeleteSnapshot hhs s) a' h = GetAccountByHeight s a' h"
  "GetAccountByHash (SetAccountHead a hh s) x = GetAccountByHash s x"
  "GetAccountByHash (SetSnapshotHead hh s) x = GetAccountByHash s x"
  "GetAccountByHash (PutSourceHash sh b s) x = GetAccountByHash s x"
  "GetAccountByHash (DeleteSourceHash sh s) x = GetAccountByHash s x"
  "GetAccountByHash (PutSnapshot sb s) x = GetAccountByHash s x"
  "GetAccountByHash (DeleteSnapshot hhs s) x = GetAccountByHash s x"
  "GetSnapshotByHeight (SetAccountHead a hh s) h = GetSnapshotByHeight s h"
  "GetSnapshotByHeight (SetSnapshotHead hh s) h = GetSnapshotByHeight s h"
  "GetSnapshotByHeight (PutAccount a b s) h = GetSnapshotByHeight s h"
  "GetSnapshotByHeight (DeleteAccount a hhs s) h = GetSnapshotByHeight s h"
  "GetSnapshotByHeight (PutSourceHash sh b s) h = GetSnapshotByHeight s h"
  "GetSnapshotByHeight (DeleteSourceHash sh s) h = GetSnapshotByHeight s h"
  "GetSnapshotByHash (SetAccountHead a hh s) x = GetSnapshotByHash s x"
  "GetSnapshotByHash (SetSnapshotHead hh s) x = GetSnapshotByHash s x"
  "GetSnapshotByHash (PutAccount a b s) x = GetSnapshotByHash s x"
  "GetSnapshotByHash (PutSourceHash sh b s) x = GetSnapshotByHash s x"
  "GetAccountBySourceHash (SetAccountHead a hh s) x = GetAccountBySourceHash s x"
  "GetAccountBySourceHash (SetSnapshotHead hh s) x = GetAccountBySourceHash s x"
  "GetAccountBySourceHash (PutAccount a b s) x = GetAccountBySourceHash s x"
  "GetAccountBySourceHash (PutSnapshot sb s) x = GetAccountBySourceHash s x"
  by (cases hh; simp add: go_defs)+

lemma GetAccountHead_frames [simp]:
  "GetAccountHead (PutAccount a b s) x = GetAccountHead s x"
  "GetAccountHead (DeleteAccount a hhs s) x = GetAccountHead s x"
  "GetAccountHead (PutSourceHash sh b s) x = GetAccountHead s x"
  "GetAccountHead (DeleteSourceHash sh s) x = GetAccountHead s x"
  "GetAccountHead (PutSnapshot sb s) x = GetAccountHead s x"
  "GetAccountHead (DeleteSnapshot hhs s) x = GetAccountHead s x"
  by (simp_all add: go_defs)

lemma GetAccountHead_SetAccountHead [simp]:
  "GetAccountHead (SetAccountHead a hh s) x = (if x = a then hh else GetAccountHead s x)"
  by (cases hh) (simp_all add: go_defs)

lemma GetAccountHead_SetSnapshotHead [simp]:
  "GetAccountHead (SetSnapshotHead hh s) x = (if x = snapshotHeadKey then hh else GetAccountHead s x)"
  by (cases hh) (simp_all add: go_defs)

lemma GetSnapshotHead_eq: "GetSnapshotHead s = GetAccountHead s snapshotHeadKey"
  by (simp add: go_defs)

end
