(* ===== verification/Req_Pool.thy ===== *)
theory Req_Pool
  imports Common_Types
begin

text \<open>
  The pool of unreceived transactions, \<open>ledger/req_pool.go\<close>, which listens to the insertion
  and removal of account blocks. A request is filed under the receiving account and the hash
  of the send block; its state is 0 (dirty: the send block was rolled back), 1 (confirmed:
  received) or 2 (unconfirmed: waiting). \<^const>\<open>None\<close> is the nil dereference that happens when
  a request is not in the pool.
\<close>

record Req =
  ReqHash :: string
  reqAcc :: "AccountHashH option"
  reqState :: int
  reqAmount :: int
  reqFrom :: string

type_synonym reqAccountPool = "string \<rightharpoonup> Req"

type_synonym reqPool = "string \<rightharpoonup> reqAccountPool"

definition newReqPool :: reqPool where
  "newReqPool = Map.empty"

definition getReq :: "reqPool \<Rightarrow> string \<Rightarrow> string \<Rightarrow> Req option" where
  "getReq p address srcHash =
     (case p address of None \<Rightarrow> None | Some reqs \<Rightarrow> reqs srcHash)"

text \<open>Requests are shared pointers in Go; updating one in place is storing it back.\<close>

definition setReq :: "reqPool \<Rightarrow> string \<Rightarrow> string \<Rightarrow> Req \<Rightarrow> reqPool" where
  "setReq p address srcHash req =
     p(address \<mapsto> (case p address of None \<Rightarrow> Map.empty | Some reqs \<Rightarrow> reqs)(srcHash \<mapsto> req))"

definition blockInsert :: "AccountStateBlock \<Rightarrow> reqPool \<Rightarrow> reqPool option" where
  "blockInsert block p =
     (if BlockTypeOf block = SEND then
        Some (setReq p (To block) (Thash block)
          \<lparr>ReqHash = Thash block, reqAcc = None, reqState = 2,
           reqAmount = ModifiedAmount block, reqFrom = From block\<rparr>)
      else if BlockTypeOf block = RECEIVED then
        do {
          req \<leftarrow> getReq p (To block) (SourceHash block);
          Some (setReq p (To block) (SourceHash block)
            (req\<lparr>reqState := 1,
                 reqAcc := Some (NewAccountHashH (To block) (Thash block) (Theight block))\<rparr>))
        }
      else Some p)"

definition blockRollback :: "AccountStateBlock \<Rightarrow> reqPool \<Rightarrow> reqPool option" where
  "blockRollback block p =
     (if BlockTypeOf block = SEND then
        do {
          req \<leftarrow> getReq p (To block) (Thash block);
          Some (setReq p (To block) (Thash block) (req\<lparr>reqState := 0\<rparr>))
        }
      else if BlockTypeOf block = RECEIVED then
        do {
          req \<leftarrow> getReq p (To block) (SourceHash block);
          Some (setReq p (To block) (SourceHash block) (req\<lparr>reqState := 2\<rparr>))
        }
      else Some p)"

text \<open>\<open>order\<close> is the order in which the loop visits the requests of the account.\<close>

definition getReqs :: "reqPool \<Rightarrow> string \<Rightarrow> string list \<Rightarrow> Req list" where
  "getReqs p address order =
     (case p address of
        None \<Rightarrow> []
      | Some reqs \<Rightarrow> filter (\<lambda>r. reqState r \<noteq> 1) (List.map_filter reqs order))"

definition confirmed :: "reqPool \<Rightarrow> string \<Rightarrow> string \<Rightarrow> AccountHashH option" where
  "confirmed p address srcHash =
     (case p address of
        None \<Rightarrow> None
      | Some reqs \<Rightarrow>
          (case reqs srcHash of
             None \<Rightarrow> None
           | Some req \<Rightarrow> if reqState req = 1 then reqAcc req else None))"

section \<open>Lookup after an update\<close>

lemma getReq_newReqPool [simp]: "getReq newReqPool a h = None"
  by (simp add: getReq_def newReqPool_def)

lemma getReq_setReq [simp]:
  "getReq (setReq p a h r) a' h' = (if a' = a \<and> h' = h then Some r else getReq p a' h')"
  by (simp add: getReq_def setReq_def split: option.splits)

lemma confirmed_getReq:
  "confirmed p a h = (case getReq p a h of None \<Rightarrow> None | Some r \<Rightarrow> if reqState r = 1 then reqAcc r else None)"
  by (simp add: confirmed_def getReq_def split: option.splits)

section \<open>Life of a request\<close>

lemma blockInsert_send:
  assumes "BlockTypeOf b = SEND"
  shows "blockInsert b p = Some (setReq p (To b) (Thash b)
           \<lparr>ReqHash = Thash b, reqAcc = None, reqState = 2, reqAmount = ModifiedAmount b,
            reqFrom = From b\<rparr>)"
  using assms by (simp add: blockInsert_def)

lemma blockInsert_received_iff:
  assumes "BlockTypeOf b = RECEIVED"
  shows "blockInsert b p = None \<longleftrightarrow> getReq p (To b) (SourceHash b) = None"
  using assms by (simp add: blockInsert_def split: Option.bind_split)

lemma blockInsert_received_confirms:
  assumes "BlockTypeOf b = RECEIVED" "blockInsert b p = Some p'"
  shows "confirmed p' (To b) (SourceHash b) = Some (NewAccountHashH (To b) (Thash b) (Theight b))"
  using assms by (auto simp: blockInsert_def confirmed_getReq split: Option.bind_splits)

text \<open>
  Rolling a receive block back makes its request wait again, with the amount and sender it
  had before.
\<close>

lemma blockRollback_insert_received:
  assumes "BlockTypeOf b = RECEIVED" "getReq p (To b) (SourceHash b) = Some r" "reqState r = 2"
  shows "\<exists>p' p''. blockInsert b p = Some p' \<and> blockRollback b p' = Some p'' \<and>
           (\<exists>r''. getReq p'' (To b) (SourceHash b) = Some r'' \<and> reqState r'' = 2 \<and>
              reqAmount r'' = reqAmount r \<and> reqFrom r'' = reqFrom r)"
  using assms by (simp add: blockInsert_def blockRollback_def)

lemma mem_map_filter: "x \<in> set (List.map_filter f xs) \<longleftrightarrow> (\<exists>k\<in>set xs. f k = Some x)"
  by (induction xs) (auto simp: List.map_filter_simps split: option.split)

text \<open>The pending list of an account holds exactly its requests that are not confirmed.\<close>

lemma set_getReqs:
  assumes "\<And>reqs. p a = Some reqs \<Longrightarrow> set order = dom reqs"
  shows "set (getReqs p a order) = {r. \<exists>h. getReq p a h = Some r \<and> reqState r \<noteq> 1}"
proof (cases "p a")
  case None
  then show ?thesis by (simp add: getReqs_def getReq_def)
next
  case (Some reqs)
  with assms have "set order = dom reqs" by simp
  with Some show ?thesis
    by (auto simp: getReqs_def getReq_def mem_map_filter dom_def)
qed

end
