(* ===== verification/Chain.thy ===== *)
theory Chain
  imports Block_Store Req_Pool Linked_Chain
begin

text \<open>
  The persistent chains, package \<open>chain\<close>: one account chain per address
  (\<open>chain/account_chain.go\<close>), the snapshot chain (\<open>chain/snapshot_chain.go\<close>) and the block
  chain that owns them and the shared store (\<open>chain/chain.go\<close>).

  Methods of an account chain also change the store and, through the listener, the request
  pool: they take and return these three together. An account chain is created on first use
  (\<open>selfAc\<close>), so even a read of the block chain returns a new block chain.
\<close>

section \<open>Account chain\<close>

datatype ChainListener = defaultChainListener | reqPoolListener

fun AccountInsertCallback :: "ChainListener \<Rightarrow> AccountStateBlock \<Rightarrow> reqPool \<Rightarrow> reqPool option" where
  "AccountInsertCallback defaultChainListener block p = Some p"
| "AccountInsertCallback reqPoolListener block p = blockInsert block p"

fun AccountRemoveCallback :: "ChainListener \<Rightarrow> AccountStateBlock \<Rightarrow> reqPool \<Rightarrow> reqPool option" where
  "AccountRemoveCallback defaultChainListener block p = Some p"
| "AccountRemoveCallback reqPoolListener block p = blockRollback block p"

record accountChain =
  address :: string
  acHead :: "AccountStateBlock option"
  acListener :: ChainListener
  snapshotPoint :: "SnapshotPoint list"

definition newAccountChain :: "string \<Rightarrow> ChainListener \<Rightarrow> blockMemoryStore \<Rightarrow> accountChain" where
  "newAccountChain addr listener s =
     \<lparr>address = addr,
      acHead = (case GetAccountHead s addr of
                  None \<Rightarrow> None
                | Some hh \<Rightarrow> GetAccountByHeight s addr (Height hh)),
      acListener = listener, snapshotPoint = []\<rparr>"

definition GetBlockByHeight_ac :: "accountChain \<Rightarrow> blockMemoryStore \<Rightarrow> int \<Rightarrow> AccountStateBlock option" where
  "GetBlockByHeight_ac c s height =
     (if height < 0 then None else GetAccountByHeight s (address c) height)"

definition GetBlockByHashH_ac ::
  "accountChain \<Rightarrow> blockMemoryStore \<Rightarrow> HashHeight \<Rightarrow> AccountStateBlock option" where
  "GetBlockByHashH_ac c s hashH =
     (if Height hashH < 0 then None
      else (case GetAccountByHeight s (address c) (Height hashH) of
              None \<Rightarrow> None
            | Some block \<Rightarrow> if Thash block = Hash hashH then Some block else None))"

definition GetBlockByHash_ac :: "accountChain \<Rightarrow> blockMemoryStore \<Rightarrow> string \<Rightarrow> AccountStateBlock option" where
  "GetBlockByHash_ac c s hash = GetAccountByHash s hash"

definition insertChain_ac ::
  "AccountStateBlock \<Rightarrow> accountChain \<Rightarrow> blockMemoryStore \<Rightarrow> reqPool \<Rightarrow>
   (accountChain \<times> blockMemoryStore \<times> reqPool) option" where
  "insertChain_ac block c s p =
     do {
       let s1 = PutAccount (address c) block s;
       let c1 = c\<lparr>acHead := Some block\<rparr>;
       p1 \<leftarrow> AccountInsertCallback (acListener c1) block p;
       let s2 = SetAccountHead (address c) (Some \<lparr>Hash = Thash block, Height = Theight block\<rparr>) s1;
       let s3 = (if BlockTypeOf block = RECEIVED then PutSourceHash (SourceHash block) block s2 else s2);
       Some (c1, s3, p1)
     }"

definition peek :: "accountChain \<Rightarrow> SnapshotPoint option" where
  "peek c = (case snapshotPoint c of [] \<Rightarrow> None | p # ps \<Rightarrow> Some p)"

definition hasSnapshotPoint :: "accountChain \<Rightarrow> int \<Rightarrow> string \<Rightarrow> bool" where
  "hasSnapshotPoint c accHeight accHash =
     (case peek c of None \<Rightarrow> False | Some point \<Rightarrow> accHeight \<le> spAccountHeight point)"

definition removeChain_ac ::
  "AccountStateBlock \<Rightarrow> accountChain \<Rightarrow> blockMemoryStore \<Rightarrow> reqPool \<Rightarrow>
   (err \<times> accountChain \<times> blockMemoryStore \<times> reqPool) option" where
  "removeChain_ac block c s p =
     (if hasSnapshotPoint c (Theight block) (Thash block) then Some (Some HasSnapshot, c, s, p)
      else do {
        let head = GetAccountByHash s (Thash block);
        let s1 = DeleteAccount (address c) \<lparr>Hash = Thash block, Height = Theight block\<rparr> s;
        p1 \<leftarrow> AccountRemoveCallback (acListener c) block p;
        let c1 = c\<lparr>acHead := head\<rparr>;
        let s2 = (case head of
                    None \<Rightarrow> SetAccountHead (address c) None s1
                  | Some h \<Rightarrow> SetAccountHead (address c) (Some \<lparr>Hash = Thash h, Height = Theight h\<rparr>) s1);
        let s3 = (if BlockTypeOf block = RECEIVED then DeleteSourceHash (SourceHash block) s2 else s2);
        Some (None, c1, s3, p1)
      })"

text \<open>The two loops that walk down the heights of an account chain.\<close>

fun findAboveLoop ::
  "(int \<Rightarrow> AccountStateBlock option) \<Rightarrow> int \<Rightarrow> int list \<Rightarrow> AccountStateBlock option option" where
  "findAboveLoop get sHeight [] = Some None"
| "findAboveLoop get sHeight (i # is) =
     do {
       block \<leftarrow> get i;
       if SnapshotHeight block \<le> sHeight then Some (Some block) else findAboveLoop get sHeight is
     }"

definition findAccountAboveSnapshotHeight ::
  "accountChain \<Rightarrow> blockMemoryStore \<Rightarrow> int \<Rightarrow> AccountStateBlock option option" where
  "findAccountAboveSnapshotHeight c s sHeight =
     (case acHead c of
        None \<Rightarrow> Some None
      | Some head \<Rightarrow> findAboveLoop (GetAccountByHeight s (address c)) sHeight (rev [0..Theight head]))"

fun getBySourceLoop ::
  "(int \<Rightarrow> AccountStateBlock option) \<Rightarrow> string \<Rightarrow> int list \<Rightarrow> AccountStateBlock option option" where
  "getBySourceLoop get srcHash [] = Some None"
| "getBySourceLoop get srcHash (i # is) =
     do {
       v \<leftarrow> get i;
       if BlockTypeOf v = RECEIVED \<and> SourceHash v = srcHash then Some (Some v)
       else getBySourceLoop get srcHash is
     }"

definition getBySourceBlock ::
  "accountChain \<Rightarrow> blockMemoryStore \<Rightarrow> string \<Rightarrow> AccountStateBlock option option" where
  "getBySourceBlock c s srcHash =
     (case acHead c of
        None \<Rightarrow> Some None
      | Some head \<Rightarrow> getBySourceLoop (GetAccountByHeight s (address c)) srcHash (rev [1..Theight head]))"

definition NextSnapshotPoint :: "accountChain \<Rightarrow> (int \<times> string) option" where
  "NextSnapshotPoint c =
     (case peek c of
        None \<Rightarrow>
          (case acHead c of
             Some head \<Rightarrow> Some (Theight head, Thash head)
           | None \<Rightarrow> Some (-1, ''''))
      | Some lastPoint \<Rightarrow>
          do {
            head \<leftarrow> acHead c;
            if spAccountHeight lastPoint < Theight head then Some (Theight head, Thash head)
            else Some (-1, '''')
          })"

definition SnapshotPoint_ac ::
  "int \<Rightarrow> string \<Rightarrow> AccountHashH \<Rightarrow> accountChain \<Rightarrow> blockMemoryStore \<Rightarrow> (err \<times> accountChain) option" where
  "SnapshotPoint_ac sHeight sHash h c s =
     (case acHead c of
        None \<Rightarrow> Some (Some (AccountNotExist (address c)), c)
      | Some _ \<Rightarrow>
          if (case peek c of
                None \<Rightarrow> False
              | Some lastPoint \<Rightarrow>
                  sHeight \<le> spSnapshotHeight lastPoint \<or> Height h < spAccountHeight lastPoint)
          then Some (Some SnapshotPointCheckFail, c)
          else do {
            point \<leftarrow> GetBlockByHeight_ac c s (Height h);
            if Hash h = Thash point \<and> Height h = Theight point then
              Some (None, c\<lparr>snapshotPoint :=
                \<lparr>spSnapshotHeight = sHeight, spSnapshotHash = sHash,
                 spAccountHeight = Height h, spAccountHash = Hash h\<rparr> # snapshotPoint c\<rparr>)
            else Some (Some AccountStateError, c)
          })"

fun rollbackSnapshotLoop :: "int \<Rightarrow> SnapshotPoint list \<Rightarrow> err \<times> SnapshotPoint list" where
  "rollbackSnapshotLoop endHeight [] = (Some NotExistSnapshotPoint, [])"
| "rollbackSnapshotLoop endHeight (point # ps) =
     (if spAccountHeight point \<le> endHeight
      then if spAccountHeight point = endHeight then (None, ps)
           else rollbackSnapshotLoop endHeight ps
      else (None, point # ps))"

definition RollbackSnapshotPoint_ac ::
  "SnapshotPoint option \<Rightarrow> SnapshotPoint option \<Rightarrow> accountChain \<Rightarrow> (err \<times> accountChain) option" where
  "RollbackSnapshotPoint_ac start end c =
     (case peek c of
        None \<Rightarrow> Some (Some NotExistSnapshotPoint, c)
      | Some point \<Rightarrow>
          if \<not> SnapshotPoint_Equals point start then Some (Some NotEqualsForStart, c)
          else do {
            e \<leftarrow> end;
            let (r, ps) = rollbackSnapshotLoop (spAccountHeight e) (snapshotPoint c);
            Some (r, c\<lparr>snapshotPoint := ps\<rparr>)
          })"

section \<open>Snapshot chain\<close>

record snapshotChain =
  scHead :: "SnapshotBlock option"

definition genesisAccounts :: "AccountHashH list" where
  "genesisAccounts =
     [\<lparr>Hash = ''71cef9aa8a67df1055a0801e2fc251fe14a298b8fc1098a54e27db31f7a75e20'', Height = 0,
       Addr = ''viteshan''\<rparr>,
      \<lparr>Hash = ''c3e7ab31e4834cf18df6705b96c655c845db44f4ee315c6fba5232b4f965fcf0'', Height = 0,
       Addr = ''jie''\<rparr>]"

definition genesisSnapshot :: SnapshotBlock where
  "genesisSnapshot = NewSnapshotBlock 0
     ''b5a3ee58d163c283e5c8c0f65ff5b26a5cd64cb9dce8119ac4581ebcb54626fd'' '''' ''viteshan''
     1533550878 genesisAccounts"

definition newSnapshotChain :: "blockMemoryStore \<Rightarrow> (snapshotChain \<times> blockMemoryStore) option" where
  "newSnapshotChain s =
     (case GetSnapshotHead s of
        Some head \<Rightarrow>
          do {
            storeGenesis \<leftarrow> GetSnapshotByHeight s (Theight genesisSnapshot);
            if Thash storeGenesis \<noteq> Thash genesisSnapshot then None
            else Some (\<lparr>scHead = GetSnapshotByHeight s (Height head)\<rparr>, s)
          }
      | None \<Rightarrow>
          Some (\<lparr>scHead = Some genesisSnapshot\<rparr>,
                SetSnapshotHead
                  (Some \<lparr>Hash = Thash genesisSnapshot, Height = Theight genesisSnapshot\<rparr>)
                  (PutSnapshot genesisSnapshot s)))"

definition GetBlockHeight_sc :: "blockMemoryStore \<Rightarrow> int \<Rightarrow> SnapshotBlock option option" where
  "GetBlockHeight_sc s height = (if height < 0 then None else Some (GetSnapshotByHeight s height))"

definition GetBlockByHashH_sc :: "blockMemoryStore \<Rightarrow> HashHeight \<Rightarrow> SnapshotBlock option" where
  "GetBlockByHashH_sc s hashH =
     (if Height hashH < 0 then None
      else (case GetSnapshotByHeight s (Height hashH) of
              None \<Rightarrow> None
            | Some block \<Rightarrow> if Hash hashH = Thash block then Some block else None))"

definition insertChain_sc ::
  "SnapshotBlock \<Rightarrow> blockMemoryStore \<Rightarrow> snapshotChain \<times> blockMemoryStore" where
  "insertChain_sc block s =
     (\<lparr>scHead = Some block\<rparr>,
      SetSnapshotHead (Some \<lparr>Hash = Thash block, Height = Theight block\<rparr>) (PutSnapshot block s))"

definition removeChain_sc ::
  "SnapshotBlock \<Rightarrow> blockMemoryStore \<Rightarrow> snapshotChain \<times> blockMemoryStore" where
  "removeChain_sc block s =
     (let head = GetSnapshotByHash s (TpreHash block);
          s1 = DeleteSnapshot \<lparr>Hash = Thash block, Height = Theight block\<rparr> s
      in (\<lparr>scHead = head\<rparr>,
          (case head of
             None \<Rightarrow> SetSnapshotHead None s1
           | Some h \<Rightarrow> SetSnapshotHead (Some \<lparr>Hash = Thash h, Height = Theight h\<rparr>) s1)))"

section \<open>Block chain\<close>

record blockchain =
  ac :: "string \<rightharpoonup> accountChain"
  sc :: snapshotChain
  store :: blockMemoryStore
  listener :: ChainListener
  reqs :: reqPool

definition NewChain :: "blockchain option" where
  "NewChain =
     do {
       (c, s) \<leftarrow> newSnapshotChain (NewMemoryStore genesisSnapshot);
       Some \<lparr>ac = Map.empty, sc = c, store = s, listener = defaultChainListener, reqs = newReqPool\<rparr>
     }"

definition selfAc :: "blockchain \<Rightarrow> string \<Rightarrow> accountChain \<times> blockchain" where
  "selfAc bc addr =
     (case ac bc addr of
        Some c \<Rightarrow> (c, bc)
      | None \<Rightarrow>
          let c = newAccountChain addr (listener bc) (store bc)
          in (c, bc\<lparr>ac := (ac bc)(addr \<mapsto> c)\<rparr>))"

text \<open>What \<open>selfAc\<close> returns, and the block chain it leaves.\<close>

definition acOf :: "blockchain \<Rightarrow> string \<Rightarrow> accountChain" where
  "acOf bc addr = fst (selfAc bc addr)"

definition touch :: "blockchain \<Rightarrow> string \<Rightarrow> blockchain" where
  "touch bc addr = snd (selfAc bc addr)"

definition SetChainListener :: "ChainListener option \<Rightarrow> blockchain \<Rightarrow> blockchain" where
  "SetChainListener l bc = (case l of None \<Rightarrow> bc | Some l' \<Rightarrow> bc\<lparr>listener := l'\<rparr>)"

definition HeadSnapshot :: "blockchain \<Rightarrow> SnapshotBlock option" where
  [go_defs]: "HeadSnapshot bc = scHead (sc bc)"

definition GetSnapshotByHashH :: "blockchain \<Rightarrow> HashHeight \<Rightarrow> SnapshotBlock option" where
  [go_defs]: "GetSnapshotByHashH bc hashH = GetBlockByHashH_sc (store bc) hashH"

definition GetSnapshotByHash_bc :: "blockchain \<Rightarrow> string \<Rightarrow> SnapshotBlock option" where
  [go_defs]: "GetSnapshotByHash_bc bc hash = GetSnapshotByHash (store bc) hash"

definition GetSnapshotByHeight_bc :: "blockchain \<Rightarrow> int \<Rightarrow> SnapshotBlock option option" where
  [go_defs]: "GetSnapshotByHeight_bc bc height = GetBlockHeight_sc (store bc) height"

definition HeadAccount :: "blockchain \<Rightarrow> string \<Rightarrow> AccountStateBlock option \<times> blockchain" where
  [go_defs]: "HeadAccount bc addr = (acHead (acOf bc addr), touch bc addr)"

definition GetAccountByHashH ::
  "blockchain \<Rightarrow> string \<Rightarrow> HashHeight \<Rightarrow> AccountStateBlock option \<times> blockchain" where
  [go_defs]: "GetAccountByHashH bc addr hashH =
     (GetBlockByHashH_ac (acOf bc addr) (store bc) hashH, touch bc addr)"

definition GetAccountByHash_bc :: "blockchain \<Rightarrow> string \<Rightarrow> string \<Rightarrow> AccountStateBlock option \<times> blockchain" where
  [go_defs]: "GetAccountByHash_bc bc addr hash =
     (GetBlockByHash_ac (acOf bc addr) (store bc) hash, touch bc addr)"

definition GetAccountByHeight_bc :: "blockchain \<Rightarrow> string \<Rightarrow> int \<Rightarrow> AccountStateBlock option \<times> blockchain" where
  [go_defs]: "GetAccountByHeight_bc bc addr height =
     (GetBlockByHeight_ac (acOf bc addr) (store bc) height, touch bc addr)"

definition GetAccountBySourceHash_bc ::
  "blockchain \<Rightarrow> string \<Rightarrow> string \<Rightarrow> (AccountStateBlock option \<times> blockchain) option" where
  "GetAccountBySourceHash_bc bc addr source =
     do {
       let b = GetAccountBySourceHash (store bc) source;
       b2 \<leftarrow> getBySourceBlock (acOf bc addr) (store bc) source;
       Some (if b = None \<and> b2 = None then None else b2, touch bc addr)
     }"

definition FindAccountAboveSnapshotHeight ::
  "blockchain \<Rightarrow> string \<Rightarrow> int \<Rightarrow> (AccountStateBlock option \<times> blockchain) option" where
  "FindAccountAboveSnapshotHeight bc addr sHeight =
     do {
       r \<leftarrow> findAccountAboveSnapshotHeight (acOf bc addr) (store bc) sHeight;
       Some (r, touch bc addr)
     }"

text \<open>\<open>order\<close> is the order in which \<open>Range\<close> visits the account chains.\<close>

fun nextAccounts :: "(string \<rightharpoonup> accountChain) \<Rightarrow> string list \<Rightarrow> AccountHashH list option" where
  "nextAccounts m [] = Some []"
| "nextAccounts m (k # ks) =
     do {
       c \<leftarrow> m k;
       (i, s) \<leftarrow> NextSnapshotPoint c;
       rest \<leftarrow> nextAccounts m ks;
       Some (if i < 0 then rest else NewAccountHashH k s i # rest)
     }"

definition NextAccountSnapshot ::
  "blockchain \<Rightarrow> string list \<Rightarrow> (HashHeight \<times> AccountHashH list) option" where
  "NextAccountSnapshot bc order =
     do {
       head \<leftarrow> scHead (sc bc);
       accounts \<leftarrow> nextAccounts (ac bc) order;
       Some (\<lparr>Hash = Thash head, Height = Theight head\<rparr>, accounts)
     }"

fun insertSnapshotPoints :: "SnapshotBlock \<Rightarrow> AccountHashH list \<Rightarrow> blockchain \<Rightarrow> (err \<times> blockchain) option" where
  "insertSnapshotPoints block [] bc = Some (None, bc)"
| "insertSnapshotPoints block (account # as) bc =
     do {
       (e, c) \<leftarrow> SnapshotPoint_ac (Theight block) (Thash block) account
                   (acOf bc (Addr account)) (store bc);
       let bc1 = (touch bc (Addr account))\<lparr>ac := (ac bc)(Addr account \<mapsto> c)\<rparr>;
       if e \<noteq> None then Some (e, bc1) else insertSnapshotPoints block as bc1
     }"

definition InsertSnapshotBlock :: "SnapshotBlock \<Rightarrow> blockchain \<Rightarrow> (err \<times> blockchain) option" where
  "InsertSnapshotBlock block bc =
     (let (c, s) = insertChain_sc block (store bc)
      in insertSnapshotPoints block (Accounts block) (bc\<lparr>sc := c, store := s\<rparr>))"

definition RemoveSnapshotHead :: "SnapshotBlock \<Rightarrow> blockchain \<Rightarrow> blockchain" where
  "RemoveSnapshotHead block bc =
     (let (c, s) = removeChain_sc block (store bc) in bc\<lparr>sc := c, store := s\<rparr>)"

definition InsertAccountBlock :: "string \<Rightarrow> AccountStateBlock \<Rightarrow> blockchain \<Rightarrow> (err \<times> blockchain) option" where
  "InsertAccountBlock addr block bc =
     do {
       (c, s, p) \<leftarrow> insertChain_ac block (acOf bc addr) (store bc) (reqs bc);
       Some (None, bc\<lparr>ac := (ac bc)(addr \<mapsto> c), store := s, reqs := p\<rparr>)
     }"

definition RemoveAccountHead :: "string \<Rightarrow> AccountStateBlock \<Rightarrow> blockchain \<Rightarrow> (err \<times> blockchain) option" where
  "RemoveAccountHead addr block bc =
     do {
       (e, c, s, p) \<leftarrow> removeChain_ac block (acOf bc addr) (store bc) (reqs bc);
       Some (e, bc\<lparr>ac := (ac bc)(addr \<mapsto> c), store := s, reqs := p\<rparr>)
     }"

definition RollbackSnapshotPoint ::
  "string \<Rightarrow> SnapshotPoint option \<Rightarrow> SnapshotPoint option \<Rightarrow> blockchain \<Rightarrow> (err \<times> blockchain) option" where
  "RollbackSnapshotPoint addr start end bc =
     do {
       (e, c) \<leftarrow> RollbackSnapshotPoint_ac start end (acOf bc addr);
       Some (e, bc\<lparr>ac := (ac bc)(addr \<mapsto> c)\<rparr>)
     }"

end
