(* ===== verification/Chain_Props.thy ===== *)
theory Chain_Props
  imports Chain
begin

text \<open>
  Correctness of the chain package: reads that create an account chain are invisible to
  every other read; account chains and the snapshot chain keep the linked-chain contract of
  \<open>Linked_Chain\<close> (interpretations \<open>account_chain\<close> and \<open>snapshot_chain\<close>); snapshot points
  are ordered; and the loops over heights find what they should.
\<close>

section \<open>Creating an account chain on first use\<close>

lemma selfAc_eq: "selfAc bc a = (acOf bc a, touch bc a)"
  by (simp add: acOf_def touch_def)

lemma ac_touch: "ac (touch bc a) = (ac bc)(a \<mapsto> acOf bc a)"
  by (auto simp: touch_def acOf_def selfAc_def Let_def split: option.splits)

lemma touch_frames [simp]:
  "store (touch bc a) = store bc" "sc (touch bc a) = sc bc" "reqs (touch bc a) = reqs bc"
  "listener (touch bc a) = listener bc"
  by (simp_all add: touch_def selfAc_def Let_def split: option.splits)

lemma acOf_Some [simp]: "ac bc a = Some c \<Longrightarrow> acOf bc a = c"
  by (simp add: acOf_def selfAc_def)

lemma acOf_None: "ac bc a = None \<Longrightarrow> acOf bc a = newAccountChain a (listener bc) (store bc)"
  by (simp add: acOf_def selfAc_def Let_def)

lemma acOf_touch [simp]: "acOf (touch bc a) b = acOf bc b"
  by (cases "b = a"; cases "ac bc b") (simp_all add: ac_touch acOf_None)

lemma touch_touch [simp]: "touch (touch bc a) a = touch bc a"
  by (simp add: touch_def selfAc_def Let_def split: option.splits)

lemma newAccountChain_simps [simp]:
  "address (newAccountChain a l s) = a" "snapshotPoint (newAccountChain a l s) = []"
  "acListener (newAccountChain a l s) = l"
  by (simp_all add: newAccountChain_def)

definition ac_wf :: "blockchain \<Rightarrow> bool" where
  "ac_wf bc \<longleftrightarrow> (\<forall>a c. ac bc a = Some c \<longrightarrow> address c = a)"

lemma ac_wf_address: "ac_wf bc \<Longrightarrow> address (acOf bc a) = a"
  by (cases "ac bc a") (simp_all add: ac_wf_def acOf_None)

lemma ac_wf_touch [simp, wf_intros]: "ac_wf bc \<Longrightarrow> ac_wf (touch bc a)"
  using ac_wf_address [of bc a] by (auto simp: ac_wf_def ac_touch)

section \<open>Account chains\<close>

lemma insertChain_ac_Some:
  assumes "insertChain_ac b c s p = Some (c', s', p')"
  shows "c' = c\<lparr>acHead := Some b\<rparr>" "AccountInsertCallback (acListener c) b p = Some p'"
    "GetAccountByHeight s' a h =
       (if a = address c \<and> h = Theight b then Some b else GetAccountByHeight s a h)"
    "GetSnapshotByHeight s' = GetSnapshotByHeight s" "GetSnapshotByHash s' = GetSnapshotByHash s"
    "GetAccountHead s' x =
       (if x = address c then Some \<lparr>Hash = Thash b, Height = Theight b\<rparr> else GetAccountHead s x)"
    "GetAccountByHash s' y = (if y = Thash b then Some b else GetAccountByHash s y)"
  using assms
  by (auto simp: insertChain_ac_def Let_def GetAccountByHeight_PutAccount account_hash.get_put
      fun_eq_iff split: Option.bind_splits if_splits)

text \<open>The request pool is told of the block when it is the listener; that is the only panic.\<close>

lemma insertChain_ac_panics_iff:
  "insertChain_ac b c s p = None \<longleftrightarrow> AccountInsertCallback (acListener c) b p = None"
  by (simp add: insertChain_ac_def Let_def split: Option.bind_splits)

lemma InsertAccountBlock_Some:
  assumes "InsertAccountBlock a b bc = Some (e, bc')"
  shows "e = None" "ac bc' = (ac bc)(a \<mapsto> (acOf bc a)\<lparr>acHead := Some b\<rparr>)"
    "sc bc' = sc bc" "listener bc' = listener bc"
    "\<exists>c'. insertChain_ac b (acOf bc a) (store bc) (reqs bc) = Some (c', store bc', reqs bc')"
  using assms
  by (auto simp: InsertAccountBlock_def dest: insertChain_ac_Some(1) split: Option.bind_splits)

lemma InsertAccountBlock_GetAccountByHeight:
  assumes "InsertAccountBlock a b bc = Some (e, bc')" "ac_wf bc"
  shows "GetAccountByHeight (store bc') x h =
    (if x = a \<and> h = Theight b then Some b else GetAccountByHeight (store bc) x h)"
  using InsertAccountBlock_Some(5) [OF assms(1)] insertChain_ac_Some(3) ac_wf_address [OF assms(2)]
  by fastforce

lemma InsertAccountBlock_ac_wf [wf_intros]:
  "InsertAccountBlock a b bc = Some (e, bc') \<Longrightarrow> ac_wf bc \<Longrightarrow> ac_wf bc'"
  using ac_wf_address [of bc a] by (auto simp: ac_wf_def InsertAccountBlock_Some(2))

lemma InsertAccountBlock_head:
  assumes "InsertAccountBlock a b bc = Some (e, bc')"
  shows "acHead (acOf bc' a) = Some b"
  using InsertAccountBlock_Some(2) [OF assms] by simp

text \<open>
  Other accounts keep their heads: an account chain that exists is not touched, and one
  that does not is created from indexes the insertion did not change.
\<close>

lemma InsertAccountBlock_other_head:
  assumes "InsertAccountBlock a b bc = Some (e, bc')" "ac_wf bc" "x \<noteq> a"
  shows "acHead (acOf bc' x) = acHead (acOf bc x)"
proof (cases "ac bc x")
  case (Some c)
  then show ?thesis using assms(3) InsertAccountBlock_Some(2) [OF assms(1)] by simp
next
  case None
  then have "ac bc' x = None" using assms(3) InsertAccountBlock_Some(2) [OF assms(1)] by simp
  moreover obtain c' where
    ins: "insertChain_ac b (acOf bc a) (store bc) (reqs bc) = Some (c', store bc', reqs bc')"
    using InsertAccountBlock_Some(5) [OF assms(1)] by blast
  have "GetAccountHead (store bc') x = GetAccountHead (store bc) x"
    using insertChain_ac_Some(6) [OF ins] ac_wf_address [OF assms(2)] assms(3) by simp
  ultimately show ?thesis
    using None assms(3)
    by (simp add: acOf_None newAccountChain_def
        InsertAccountBlock_GetAccountByHeight [OF assms(1,2)] split: option.splits)
qed

interpretation account_chain: append_chain
  "\<lambda>bc. GetAccountByHeight (store bc) a" "\<lambda>bc. acHead (acOf bc a)"
  "\<lambda>b bc. map_option snd (InsertAccountBlock a b bc)" ac_wf
  for a
  by unfold_locales
    (auto simp: fun_eq_iff InsertAccountBlock_GetAccountByHeight InsertAccountBlock_head
      intro: InsertAccountBlock_ac_wf)

definition account_ok :: "blockchain \<Rightarrow> string \<Rightarrow> bool" where
  "account_ok bc a \<longleftrightarrow> chain_ok (GetAccountByHeight (store bc) a) (acHead (acOf bc a))"

lemma account_ok_touch [simp]: "account_ok (touch bc x) a = account_ok bc a"
  by (simp add: account_ok_def)

lemma InsertAccountBlock_account_ok:
  assumes "ac_wf bc" "account_ok bc a" "extends (acHead (acOf bc a)) b"
    "InsertAccountBlock a b bc = Some (e, bc')"
  shows "account_ok bc' a"
  using account_chain.insert_chain_ok [of bc a b bc'] assms by (simp add: account_ok_def)

lemma InsertAccountBlock_other_ok:
  assumes "ac_wf bc" "account_ok bc x" "x \<noteq> a" "InsertAccountBlock a b bc = Some (e, bc')"
  shows "account_ok bc' x"
proof -
  have "GetAccountByHeight (store bc') x = GetAccountByHeight (store bc) x"
    using assms by (simp add: fun_eq_iff InsertAccountBlock_GetAccountByHeight)
  then show ?thesis
    using assms InsertAccountBlock_other_head [OF assms(4,1,3)] by (simp add: account_ok_def)
qed

section \<open>Snapshot points\<close>

text \<open>
  The snapshot points of an account, latest first, go down strictly in snapshot height and
  weakly in account height, and each names a block of the account chain; the latest one
  belongs to a snapshot not above \<open>lim\<close>.
\<close>

definition points_ok :: "(int \<Rightarrow> AccountStateBlock option) \<Rightarrow> int \<Rightarrow> SnapshotPoint list \<Rightarrow> bool" where
  "points_ok get lim ps \<longleftrightarrow>
     sorted_wrt (\<lambda>p q. spSnapshotHeight q < spSnapshotHeight p \<and> spAccountHeight q \<le> spAccountHeight p) ps \<and>
     (\<forall>p\<in>set ps. spSnapshotHeight p \<le> lim \<and> 0 \<le> spAccountHeight p \<and>
        (\<exists>b. get (spAccountHeight p) = Some b \<and> Thash b = spAccountHash p))"

lemma points_ok_Nil [simp]: "points_ok get lim []"
  by (simp add: points_ok_def)

lemma points_ok_mono: "points_ok get lim ps \<Longrightarrow> lim \<le> lim' \<Longrightarrow> points_ok get lim' ps"
  by (force simp: points_ok_def)

lemma points_ok_transfer:
  assumes "points_ok get lim ps" "\<And>h b. get h = Some b \<Longrightarrow> get' h = Some b"
  shows "points_ok get' lim ps"
  using assms by (fastforce simp: points_ok_def)

lemma SnapshotPoint_ac_cases:
  assumes "SnapshotPoint_ac sh sH h c s = Some (e, c')"
  shows "(e \<noteq> None \<and> c' = c) \<or>
    (e = None \<and> acHead c \<noteq> None \<and>
     (\<forall>q. peek c = Some q \<longrightarrow> spSnapshotHeight q < sh \<and> spAccountHeight q \<le> Height h) \<and>
     (\<exists>b. GetBlockByHeight_ac c s (Height h) = Some b \<and> Thash b = Hash h \<and> Theight b = Height h) \<and>
     c' = c\<lparr>snapshotPoint := \<lparr>spSnapshotHeight = sh, spSnapshotHash = sH,
             spAccountHeight = Height h, spAccountHash = Hash h\<rparr> # snapshotPoint c\<rparr>)"
  using assms
  by (simp add: SnapshotPoint_ac_def split: option.splits if_splits Option.bind_splits) force+

lemma peek_Cons [simp]: "peek c = Some p \<longleftrightarrow> (\<exists>ps. snapshotPoint c = p # ps)"
  by (simp add: peek_def split: list.splits)

lemma peek_None [simp]: "peek c = None \<longleftrightarrow> snapshotPoint c = []"
  by (simp add: peek_def split: list.splits)

lemma SnapshotPoint_ac_points_ok:
  assumes "SnapshotPoint_ac sh sH h c s = Some (e, c')"
    and "points_ok (GetAccountByHeight s (address c)) lim (snapshotPoint c)" "lim \<le> sh"
  shows "points_ok (GetAccountByHeight s (address c)) sh (snapshotPoint c')"
proof (cases "e = None")
  case False
  then show ?thesis
    using SnapshotPoint_ac_cases [OF assms(1)] points_ok_mono [OF assms(2,3)] by auto
next
  case True
  then obtain b where
    q: "\<And>q. peek c = Some q \<Longrightarrow> spSnapshotHeight q < sh \<and> spAccountHeight q \<le> Height h" and
    b: "GetBlockByHeight_ac c s (Height h) = Some b" "Thash b = Hash h" and
    c': "snapshotPoint c' = \<lparr>spSnapshotHeight = sh, spSnapshotHash = sH,
             spAccountHeight = Height h, spAccountHash = Hash h\<rparr> # snapshotPoint c"
    using SnapshotPoint_ac_cases [OF assms(1)] by auto
  have below: "spSnapshotHeight p < sh \<and> spAccountHeight p \<le> Height h" if "p \<in> set (snapshotPoint c)" for p
  proof (cases "snapshotPoint c")
    case (Cons q qs)
    then have "spSnapshotHeight q < sh \<and> spAccountHeight q \<le> Height h"
      using q by simp
    then show ?thesis using that Cons assms(2) by (fastforce simp: points_ok_def)
  qed (use that in simp)
  have "0 \<le> Height h" "GetAccountByHeight s (address c) (Height h) = Some b"
    using b(1) by (simp_all add: GetBlockByHeight_ac_def split: if_splits)
  then show ?thesis
    using below b(2) c' points_ok_mono [OF assms(2,3)] by (auto simp: points_ok_def)
qed

section \<open>Inserting a snapshot block\<close>

lemma acOf_update:
  assumes "store bc' = store bc" "listener bc' = listener bc" "ac bc' = (ac bc)(a \<mapsto> c)"
  shows "acOf bc' x = (if x = a then c else acOf bc x)"
  using assms by (cases "ac bc x") (auto simp: acOf_None)

text \<open>Recording snapshot points changes nothing but the stacks of points.\<close>

lemma insertSnapshotPoints_frame:
  assumes "insertSnapshotPoints blk as bc = Some (e, bc')"
  shows "store bc' = store bc \<and> sc bc' = sc bc \<and> listener bc' = listener bc \<and> reqs bc' = reqs bc \<and>
    (\<forall>x. acHead (acOf bc' x) = acHead (acOf bc x) \<and> address (acOf bc' x) = address (acOf bc x))"
  using assms
proof (induction as arbitrary: bc)
  case Nil
  then show ?case by simp
next
  case (Cons a as)
  let ?a = "Addr a"
  obtain e1 c where c: "SnapshotPoint_ac (Theight blk) (Thash blk) a (acOf bc ?a) (store bc) = Some (e1, c)"
    using Cons.prems by (auto split: Option.bind_splits)
  let ?bc1 = "(touch bc ?a)\<lparr>ac := (ac bc)(?a \<mapsto> c)\<rparr>"
  have head: "acHead c = acHead (acOf bc ?a)" "address c = address (acOf bc ?a)"
    using SnapshotPoint_ac_cases [OF c] by auto
  have upd: "acOf ?bc1 x = (if x = ?a then c else acOf bc x)" for x
    by (rule acOf_update) simp_all
  show ?case
  proof (cases "e1 = None")
    case True
    then have "insertSnapshotPoints blk as ?bc1 = Some (e, bc')"
      using Cons.prems c by (simp add: Let_def)
    from Cons.IH [OF this] head show ?thesis by (simp add: upd)
  next
    case False
    then have "bc' = ?bc1" using Cons.prems c by (simp add: Let_def)
    with head show ?thesis by (simp add: upd)
  qed
qed

lemma InsertSnapshotBlock_Some:
  assumes "InsertSnapshotBlock b bc = Some (e, bc')"
  shows "scHead (sc bc') = Some b"
    "store bc' = SetSnapshotHead (Some \<lparr>Hash = Thash b, Height = Theight b\<rparr>) (PutSnapshot b (store bc))"
    "reqs bc' = reqs bc"
  using assms insertSnapshotPoints_frame
  by (fastforce simp: InsertSnapshotBlock_def insertChain_sc_def)+

text \<open>
  The snapshot chain keeps, beside the linked chain, that the hash index finds every block
  of the height index; \<open>removeChain\<close> relies on it to find the new head.
\<close>

definition snapshot_ok :: "blockchain \<Rightarrow> bool" where
  "snapshot_ok bc \<longleftrightarrow>
     chain_ok (GetSnapshotByHeight (store bc)) (HeadSnapshot bc) \<and>
     (\<forall>h b. GetSnapshotByHeight (store bc) h = Some b \<longrightarrow> GetSnapshotByHash (store bc) (Thash b) = Some b)"

definition snapshot_fresh :: "blockchain \<Rightarrow> SnapshotBlock \<Rightarrow> bool" where
  "snapshot_fresh bc b \<longleftrightarrow> GetSnapshotByHash (store bc) (Thash b) = None"

lemma InsertSnapshotBlock_snapshot_ok:
  assumes "snapshot_ok bc" "extends (HeadSnapshot bc) b" "snapshot_fresh bc b"
    "InsertSnapshotBlock b bc = Some (e, bc')"
  shows "snapshot_ok bc'"
proof -
  note new = InsertSnapshotBlock_Some [OF assms(4)]
  have get: "GetSnapshotByHeight (store bc') = (GetSnapshotByHeight (store bc))(Theight b \<mapsto> b)"
    by (simp add: new fun_eq_iff snapshot_height.get_put)
  have hash: "GetSnapshotByHash (store bc') = (GetSnapshotByHash (store bc))(Thash b \<mapsto> b)"
    by (simp add: new fun_eq_iff snapshot_hash.get_put)
  have "chain_ok (GetSnapshotByHeight (store bc')) (HeadSnapshot bc')"
    using assms(1,2) chain_ok_insert by (simp add: get HeadSnapshot_def new(1) snapshot_ok_def) blast
  moreover have "GetSnapshotByHash (store bc') (Thash c) = Some c"
    if "GetSnapshotByHeight (store bc') h = Some c" for h c
  proof (cases "h = Theight b")
    case True
    then show ?thesis using that by (simp add: get hash)
  next
    case False
    then have "GetSnapshotByHeight (store bc) h = Some c" using that by (simp add: get)
    then have old: "GetSnapshotByHash (store bc) (Thash c) = Some c"
      using assms(1) unfolding snapshot_ok_def by blast
    then have "Thash c \<noteq> Thash b" using assms(3) by (auto simp: snapshot_fresh_def)
    with old show ?thesis by (simp add: hash)
  qed
  ultimately show ?thesis by (simp add: snapshot_ok_def)
qed

lemma RemoveSnapshotHead_simps:
  "GetSnapshotByHeight (store (RemoveSnapshotHead b bc)) = (GetSnapshotByHeight (store bc))(Theight b := None)"
  "GetSnapshotByHash (store (RemoveSnapshotHead b bc)) = (GetSnapshotByHash (store bc))(Thash b := None)"
  "HeadSnapshot (RemoveSnapshotHead b bc) = GetSnapshotByHash (store bc) (TpreHash b)"
  by (auto simp: RemoveSnapshotHead_def removeChain_sc_def Let_def HeadSnapshot_def fun_eq_iff
      snapshot_height.get_del snapshot_hash.get_del split: option.splits)

lemma snapshot_ok_prev:
  assumes "snapshot_ok bc" "HeadSnapshot bc = Some b" "0 < Theight b"
  shows "GetSnapshotByHash (store bc) (TpreHash b) = GetSnapshotByHeight (store bc) (Theight b - 1)"
proof -
  have ok: "chain_ok (GetSnapshotByHeight (store bc)) (Some b)"
    using assms by (simp add: snapshot_ok_def)
  then obtain c where c: "GetSnapshotByHeight (store bc) (Theight b - 1) = Some c"
    using chain_ok_Some [OF ok, of "Theight b - 1"] assms(3) by auto
  moreover have "TpreHash b = Thash c"
    using linked_preHash [OF chain_okD(3) [OF ok], of "Theight b - 1" c b] chain_okD(2) [OF ok] c assms(3)
    by simp
  ultimately show ?thesis using assms(1) by (simp add: snapshot_ok_def)
qed

lemma RemoveSnapshotHead_snapshot_ok:
  assumes "snapshot_ok bc" "HeadSnapshot bc = Some b" "0 < Theight b"
  shows "snapshot_ok (RemoveSnapshotHead b bc)"
proof -
  have ok: "chain_ok (GetSnapshotByHeight (store bc)) (Some b)"
    and hash: "\<And>h c. GetSnapshotByHeight (store bc) h = Some c \<Longrightarrow> GetSnapshotByHash (store bc) (Thash c) = Some c"
    using assms by (simp_all add: snapshot_ok_def)
  have neq: "Thash c \<noteq> Thash b" if "GetSnapshotByHeight (store bc) h = Some c" "h \<noteq> Theight b" for h c
  proof
    assume "Thash c = Thash b"
    then have "c = b" using hash [OF that(1)] hash [OF chain_okD(2) [OF ok]] by (metis option.inject)
    then show False using chain_ok_head_inj [OF ok, of h] that by blast
  qed
  have "((GetSnapshotByHash (store bc))(Thash b := None)) (Thash c) = Some c"
    if "((GetSnapshotByHeight (store bc))(Theight b := None)) h = Some c" for h c
  proof -
    from that have get: "GetSnapshotByHeight (store bc) h = Some c" and "h \<noteq> Theight b"
      by (simp_all split: if_splits)
    with neq hash [OF get] show ?thesis by simp
  qed
  then show ?thesis
    using chain_ok_remove [OF ok]
    unfolding snapshot_ok_def RemoveSnapshotHead_simps snapshot_ok_prev [OF assms] by blast
qed

interpretation snapshot_chain: removable_chain
  "\<lambda>bc. GetSnapshotByHeight (store bc)" HeadSnapshot
  "\<lambda>b bc. map_option snd (InsertSnapshotBlock b bc)" "\<lambda>bc. True"
  RemoveSnapshotHead snapshot_ok snapshot_fresh
proof unfold_locales
  fix b bc bc'
  assume "map_option snd (InsertSnapshotBlock b bc) = Some bc'"
  then obtain e where ins: "InsertSnapshotBlock b bc = Some (e, bc')" by auto
  show "GetSnapshotByHeight (store bc') = (GetSnapshotByHeight (store bc))(Theight b \<mapsto> b)"
    by (simp add: InsertSnapshotBlock_Some [OF ins] fun_eq_iff snapshot_height.get_put)
  show "HeadSnapshot bc' = Some b"
    by (simp add: InsertSnapshotBlock_Some [OF ins] HeadSnapshot_def)
qed (auto simp: snapshot_ok_def [THEN iffD1] RemoveSnapshotHead_simps snapshot_ok_prev
      intro: InsertSnapshotBlock_snapshot_ok RemoveSnapshotHead_snapshot_ok)

end
