(* ===== verification/Verifier.thy ===== *)
theory Verifier
  imports Chain_Props
begin

text \<open>
  Block verification, package \<open>verifier\<close>: the three-valued result, the tasks that a pending
  verification waits for (\<open>verifier/verifier.go\<close>), the account verifier
  (\<open>verifier/account_verifier.go\<close>) and the snapshot verifier
  (\<open>verifier/snapshot_verifier.go\<close>).

  The verifiers read the block chain, which may create account chains on the way, so they
  return it. A time is a number of nanoseconds here; the current time and the current fork
  version are arguments. \<^const>\<open>None\<close> is the panic of a read that meets a hole in an account
  chain.
\<close>

section \<open>Results and tasks\<close>

datatype VerifyResult = PENDING | FAIL | SUCCESS

definition VerifyResult_Done :: "VerifyResult \<Rightarrow> bool" where
  "VerifyResult_Done r = (if r = FAIL \<or> r = SUCCESS then True else False)"

definition second :: int where
  "second = 1000000000"

datatype pendingTask =
    accountPendingTask bool FetchRequest
  | snapshotPendingTask bool FetchRequest

record verifyTask =
  tasks :: "pendingTask list"
  taskVersion :: int
  taskFail :: bool
  taskTime :: int

datatype Task = successTask | failTask int | VTask verifyTask

definition NewFailTask :: "int \<Rightarrow> Task" where
  "NewFailTask now = failTask now"

definition NewSuccessTask :: Task where
  "NewSuccessTask = successTask"

fun pendingRequests :: "pendingTask \<Rightarrow> FetchRequest list" where
  "pendingRequests (accountPendingTask r req) = [req]"
| "pendingRequests (snapshotPendingTask r req) = [req]"

fun Requests :: "Task \<Rightarrow> FetchRequest list" where
  "Requests successTask = []"
| "Requests (failTask t) = []"
| "Requests (VTask vt) = concat (map pendingRequests (tasks vt))"

fun pendingDone :: "pendingTask \<Rightarrow> blockchain \<Rightarrow> bool \<times> pendingTask \<times> blockchain" where
  "pendingDone (accountPendingTask r req) bc =
     (if r then (True, accountPendingTask r req, bc)
      else (let (block, bc1) = HeadAccount bc (frChain req)
            in (case block of
                  Some b \<Rightarrow> if Theight b \<ge> frHeight req then (True, accountPendingTask True req, bc1)
                            else (False, accountPendingTask r req, bc1)
                | None \<Rightarrow> (False, accountPendingTask r req, bc1))))"
| "pendingDone (snapshotPendingTask r req) bc =
     (if r then (True, snapshotPendingTask r req, bc)
      else (case HeadSnapshot bc of
              Some b \<Rightarrow> if Theight b \<ge> frHeight req then (True, snapshotPendingTask True req, bc)
                        else (False, snapshotPendingTask r req, bc)
            | None \<Rightarrow> (False, snapshotPendingTask r req, bc)))"

text \<open>The loop over the pending tasks stops at the first that is not done.\<close>

fun allPendingDone :: "pendingTask list \<Rightarrow> blockchain \<Rightarrow> bool \<times> pendingTask list \<times> blockchain" where
  "allPendingDone [] bc = (True, [], bc)"
| "allPendingDone (t # ts) bc =
     (let (d, t1, bc1) = pendingDone t bc
      in if \<not> d then (False, t1 # ts, bc1)
         else (let (ds, ts1, bc2) = allPendingDone ts bc1 in (ds, t1 # ts1, bc2)))"

fun Task_Done :: "int \<Rightarrow> int \<Rightarrow> Task \<Rightarrow> blockchain \<Rightarrow> bool \<times> Task \<times> blockchain" where
  "Task_Done ver now successTask bc = (True, successTask, bc)"
| "Task_Done ver now (failTask t) bc = (now > t + 3 * second, failTask t, bc)"
| "Task_Done ver now (VTask vt) bc =
     (if ver \<noteq> taskVersion vt then (True, VTask vt, bc)
      else if now > taskTime vt + 5 * second then (True, VTask vt, bc)
      else if taskFail vt then (False, VTask vt, bc)
      else (let (d, ts, bc1) = allPendingDone (tasks vt) bc in (d, VTask (vt\<lparr>tasks := ts\<rparr>), bc1)))"

definition pendingSnapshot :: "string \<Rightarrow> int \<Rightarrow> verifyTask \<Rightarrow> verifyTask" where
  "pendingSnapshot hash height vt =
     vt\<lparr>tasks := tasks vt @ [snapshotPendingTask False
          \<lparr>frChain = '''', frHeight = height, frHash = hash, frPrevCnt = 1\<rparr>]\<rparr>"

definition pendingAccount :: "string \<Rightarrow> int \<Rightarrow> string \<Rightarrow> int \<Rightarrow> verifyTask \<Rightarrow> verifyTask" where
  "pendingAccount addr height hash prevCnt vt =
     vt\<lparr>tasks := tasks vt @ [accountPendingTask False
          \<lparr>frChain = addr, frHeight = height, frHash = hash, frPrevCnt = prevCnt\<rparr>]\<rparr>"

section \<open>Account verifier\<close>

record AccountBlockVerifyStat =
  referredSnapshotResult :: VerifyResult
  referredSelfResult :: VerifyResult
  referredFromResult :: VerifyResult
  errMsg :: string
  vtask :: verifyTask

definition VerifyResult_ac :: "AccountBlockVerifyStat \<Rightarrow> VerifyResult" where
  "VerifyResult_ac stat =
     (if referredSelfResult stat = FAIL \<or> referredFromResult stat = FAIL \<or>
         referredSnapshotResult stat = FAIL then FAIL
      else if referredSelfResult stat = SUCCESS \<and> referredFromResult stat = SUCCESS \<and>
         referredSnapshotResult stat = SUCCESS then SUCCESS
      else PENDING)"

definition newVerifyStat_ac :: "int \<Rightarrow> int \<Rightarrow> AccountBlockVerifyStat" where
  "newVerifyStat_ac ver now =
     \<lparr>referredSnapshotResult = PENDING, referredSelfResult = PENDING, referredFromResult = PENDING,
      errMsg = '''', vtask = \<lparr>tasks = [], taskVersion = ver, taskFail = False, taskTime = now\<rparr>\<rparr>"

text \<open>The three formatted parts most messages start with: signer, height and hash.\<close>

definition blockTag :: "'a Tblock_scheme \<Rightarrow> string" where
  "blockTag b = ''['' @ Tsigner b @ ''][''  @ itoa (Theight b) @ ''][''  @ Thash b @ '']''"

definition verifyGenesis :: "AccountStateBlock \<Rightarrow> AccountBlockVerifyStat \<Rightarrow> bool \<times> AccountBlockVerifyStat" where
  "verifyGenesis block stat =
     (if list_ex (\<lambda>a. Hash a = Thash block \<and> Height a = Theight block) (Accounts genesisSnapshot)
      then (True, stat\<lparr>referredFromResult := SUCCESS, referredSelfResult := SUCCESS,
                       referredSnapshotResult := SUCCESS\<rparr>)
      else (True, stat\<lparr>referredSelfResult := FAIL\<rparr>))"

definition checkSelfAmount ::
  "AccountStateBlock \<Rightarrow> AccountBlockVerifyStat \<Rightarrow> blockchain \<Rightarrow>
   VerifyResult \<times> AccountBlockVerifyStat \<times> blockchain" where
  "checkSelfAmount block stat bc =
     (let (last, bc1) = HeadAccount bc (Tsigner block)
      in case last of
           None \<Rightarrow>
             (FAIL, stat\<lparr>errMsg := ''block'' @ blockTag block @ '' error, last block is nil.''\<rparr>, bc1)
         | Some l \<Rightarrow>
             if Thash l \<noteq> TpreHash block then
               (FAIL, stat\<lparr>errMsg := ''block'' @ blockTag block @ '' preHash['' @ TpreHash block @
                  ''] error, last block hash is '' @ Thash l @ ''.''\<rparr>, bc1)
             else if SnapshotHeight l > SnapshotHeight block then
               (FAIL, stat\<lparr>errMsg := ''block'' @ blockTag block @ '' snapshot height['' @
                  itoa (SnapshotHeight block) @ ''] error, last block snapshot height is '' @
                  itoa (SnapshotHeight l) @ ''.''\<rparr>, bc1)
             else if BlockTypeOf block = SEND \<and> ModifiedAmount block > 0 then
               (FAIL, stat\<lparr>errMsg := ''send block'' @ blockTag block @ '' modifiedAmount['' @
                  itoa (ModifiedAmount block) @ ''] error.''\<rparr>, bc1)
             else if BlockTypeOf block = RECEIVED \<and> ModifiedAmount block < 0 then
               (FAIL, stat\<lparr>errMsg := ''RECEIVED block'' @ blockTag block @ '' modifiedAmount['' @
                  itoa (ModifiedAmount block) @ ''] error.''\<rparr>, bc1)
             else if wrap64 (Amount l + ModifiedAmount block) = Amount block \<and> Amount block > 0 then
               (SUCCESS, stat, bc1)
             else
               (FAIL, stat\<lparr>errMsg := ''block amount'' @ blockTag block @
                  '' cal error. modifiedAmount:'' @ itoa (ModifiedAmount block) @ '', Amount:'' @
                  itoa (Amount block) @ '', lastAmount:'' @ itoa (Amount l)\<rparr>, bc1))"

definition checkGenesis :: "AccountStateBlock \<Rightarrow> blockchain \<Rightarrow> VerifyResult \<times> blockchain" where
  "checkGenesis block bc =
     (let (head, bc1) = HeadAccount bc (Tsigner block)
      in if head \<noteq> None then (FAIL, bc1)
         else if TpreHash block \<noteq> '''' \<or> ModifiedAmount block \<noteq> Amount block then (FAIL, bc1)
         else (SUCCESS, bc1))"

definition checkFromAmount ::
  "AccountStateBlock \<Rightarrow> AccountBlockVerifyStat \<Rightarrow> blockchain \<Rightarrow>
   VerifyResult \<times> AccountBlockVerifyStat \<times> blockchain" where
  "checkFromAmount block stat bc =
     (let (source, bc1) = GetAccountByHeight_bc bc (From block) (SourceHeight block);
          (source2, bc2) = GetAccountByHash_bc bc1 (From block) (SourceHash block)
      in if (case (source, source2) of (Some a, Some b) \<Rightarrow> Thash b \<noteq> Thash a | _ \<Rightarrow> False)
         then (FAIL, stat, bc2)
         else case source of
           None \<Rightarrow>
             (PENDING, stat\<lparr>vtask := pendingAccount (From block) (SourceHeight block)
                (SourceHash block) 1 (vtask stat)\<rparr>, bc2)
         | Some src \<Rightarrow>
             if Thash src \<noteq> SourceHash block then
               (FAIL, stat\<lparr>errMsg := ''block'' @ blockTag block @ '' error, source hash['' @
                  SourceHash block @ ''][''  @ Thash src @ ''] error.''\<rparr>, bc2)
             else if SnapshotHeight block < SnapshotHeight src then
               (FAIL, stat\<lparr>errMsg := ''block'' @ blockTag block @
                  '' error, [received snapshot height]'' @ itoa (SnapshotHeight block) @
                  '' must be greater or equal to [send snapshot height]'' @
                  itoa (SnapshotHeight src) @ ''.''\<rparr>, bc2)
             else if wrap64 (ModifiedAmount src + ModifiedAmount block) = 0 then
               (SUCCESS, stat, bc2)
             else
               (FAIL, stat\<lparr>errMsg := ''block'' @ blockTag block @ '' error, modifiedAmount['' @
                  itoa (ModifiedAmount src) @ ''][''  @ itoa (ModifiedAmount block) @ ''] cal fail.''\<rparr>, bc2))"

definition verifySelf ::
  "AccountStateBlock \<Rightarrow> AccountBlockVerifyStat \<Rightarrow> blockchain \<Rightarrow>
   (bool \<times> AccountBlockVerifyStat \<times> blockchain) option" where
  "verifySelf block stat bc =
     (if BlockTypeOf block = RECEIVED \<and> Theight block = 0 then
        (let (genesisCheck, bc1) = checkGenesis block bc;
             stat1 = stat\<lparr>referredSelfResult := genesisCheck\<rparr>
         in if genesisCheck = FAIL
            then Some (True, stat1\<lparr>errMsg := ''block'' @ blockTag block @
                   '' error, genesis check fail.''\<rparr>, bc1)
            else Some (False, stat1, bc1))
      else do {
        (same, bc1) \<leftarrow> (if BlockTypeOf block = RECEIVED
                       then GetAccountBySourceHash_bc bc (To block) (SourceHash block)
                       else Some (None, bc));
        if same \<noteq> None then
          Some (True, stat\<lparr>errMsg := ''block'' @ blockTag block @
             '' error, send block has received.'', referredSelfResult := FAIL\<rparr>, bc1)
        else do {
          let (selfAmount, stat1, bc2) = checkSelfAmount block stat bc1;
          Some (selfAmount = FAIL, stat1\<lparr>referredSelfResult := selfAmount\<rparr>, bc2)
        }
      })"

definition verifyFrom ::
  "AccountStateBlock \<Rightarrow> AccountBlockVerifyStat \<Rightarrow> blockchain \<Rightarrow>
   bool \<times> AccountBlockVerifyStat \<times> blockchain" where
  "verifyFrom block stat bc =
     (if BlockTypeOf block = RECEIVED then
        (let (fromAmount, stat1, bc1) = checkFromAmount block stat bc
         in (fromAmount = FAIL, stat1\<lparr>referredFromResult := fromAmount\<rparr>, bc1))
      else (False, stat\<lparr>referredFromResult := SUCCESS\<rparr>, bc))"

definition verifySnapshot ::
  "AccountStateBlock \<Rightarrow> AccountBlockVerifyStat \<Rightarrow> blockchain \<Rightarrow> bool \<times> AccountBlockVerifyStat" where
  "verifySnapshot block stat bc =
     (case GetSnapshotByHashH bc \<lparr>Hash = SnapshotHash block, Height = SnapshotHeight block\<rparr> of
        Some _ \<Rightarrow> (False, stat\<lparr>referredSnapshotResult := SUCCESS\<rparr>)
      | None \<Rightarrow> (False, stat\<lparr>referredSnapshotResult := PENDING,
                  vtask := pendingSnapshot (SnapshotHash block) (SnapshotHeight block) (vtask stat)\<rparr>))"

definition VerifyReferred_ac ::
  "int \<Rightarrow> int \<Rightarrow> AccountStateBlock \<Rightarrow> blockchain \<Rightarrow> (AccountBlockVerifyStat \<times> blockchain) option" where
  "VerifyReferred_ac ver now block bc =
     (let stat = newVerifyStat_ac ver now in
      if BlockTypeOf block = GENESIS \<and> fst (verifyGenesis block stat)
      then Some (snd (verifyGenesis block stat), bc)
      else (let (stop, stat1) = verifySnapshot block stat bc in
        if stop then Some (stat1, bc)
        else do {
          (stop2, stat2, bc2) \<leftarrow> verifySelf block stat1 bc;
          if stop2 then Some (stat2, bc2)
          else (let (stop3, stat3, bc3) = verifyFrom block stat2 bc2 in Some (stat3, bc3))
        }))"

section \<open>Snapshot verifier\<close>

record SnapshotBlockVerifyStat =
  result :: VerifyResult
  accounts :: "AccountHashH list"
  results :: "string \<rightharpoonup> VerifyResult"
  errMsg_sn :: string
  task_sn :: "verifyTask option"

definition newVerifyStat_sn :: "SnapshotBlock \<Rightarrow> SnapshotBlockVerifyStat" where
  "newVerifyStat_sn block =
     \<lparr>result = PENDING, accounts = Accounts block, results = Map.empty, errMsg_sn = '''', task_sn = None\<rparr>"

text \<open>
  The loop over the accounts of the block: the flag says that it stopped at a mismatch, the
  number counts the accounts that matched.
\<close>

fun verifyAccountsLoop ::
  "AccountHashH list \<Rightarrow> nat \<Rightarrow> verifyTask \<Rightarrow> SnapshotBlockVerifyStat \<Rightarrow> blockchain \<Rightarrow>
   bool \<times> nat \<times> verifyTask \<times> SnapshotBlockVerifyStat \<times> blockchain" where
  "verifyAccountsLoop [] i task stat bc = (False, i, task, stat, bc)"
| "verifyAccountsLoop (v # vs) i task stat bc =
     (let (block, bc1) = GetAccountByHeight_bc bc (Addr v) (Height v)
      in case block of
           None \<Rightarrow>
             verifyAccountsLoop vs i (pendingAccount (Addr v) (Height v) (Hash v) 1 task)
               (stat\<lparr>results := (results stat)(Addr v \<mapsto> PENDING)\<rparr>) bc1
         | Some b \<Rightarrow>
             if Thash b = Hash v then
               verifyAccountsLoop vs (Suc i) task
                 (stat\<lparr>results := (results stat)(Addr v \<mapsto> SUCCESS)\<rparr>) bc1
             else
               (True, i, task,
                stat\<lparr>errMsg_sn := ''account block['' @ Addr v @ '']['' @ itoa (Height v) @ '']['' @
                       Hash v @ ''] error.'',
                     results := (results stat)(Addr v \<mapsto> FAIL), result := FAIL\<rparr>, bc1))"

definition VerifyReferred_sn ::
  "int \<Rightarrow> int \<Rightarrow> SnapshotBlock \<Rightarrow> blockchain \<Rightarrow> SnapshotBlockVerifyStat \<times> blockchain" where
  "VerifyReferred_sn ver now block bc =
     (let (failed, i, task, stat, bc1) =
        verifyAccountsLoop (Accounts block) 0
          \<lparr>tasks = [], taskVersion = ver, taskFail = False, taskTime = now\<rparr>
          (newVerifyStat_sn block) bc
      in if failed then (stat, bc1)
         else if i = length (Accounts block) then (stat\<lparr>result := SUCCESS\<rparr>, bc1)
         else (stat\<lparr>task_sn := Some task\<rparr>, bc1))"

end
