(* ===== verification/Pool_Chains.thy ===== *)
theory Pool_Chains
  imports Linked_Chain Verifier
begin

text \<open>
  The data of the block pool, \<open>pool/bc_pool.go\<close>: pool blocks, snippet chains (runs of
  blocks whose predecessor is not known yet), forked chains (runs of blocks that hang on
  another chain) and the chain pool that owns them.

  Forked chains are shared pointers in Go: the current chain, the table of chains and the
  reference of one chain to another point to the same objects. The model keeps them in the
  table \<open>chains\<close>, indexed by chain id, and a pointer is an id; the disk chain is the
  constructor \<open>Disk\<close> of a reference. The pool is written against \<open>common.Block\<close>, so
  everything here is polymorphic in the block type.
\<close>

section \<open>Pool blocks\<close>

record 'b PoolBlock =
  block :: 'b
  forkVersion :: int

type_synonym 'a pblock = "'a Tblock_scheme PoolBlock"

section \<open>Chains held in memory\<close>

datatype chainRef = Disk | Fork string

record 'b chain =
  heightBlocks :: "int \<rightharpoonup> 'b PoolBlock"
  headHeight :: int
  tailHeight :: int
  chainId :: string

record 'b snippetChain = "'b chain" +
  tailHash :: string
  headHash :: string

record 'b forkedChain = "'b chain" +
  fcHeadHash :: string
  fcTailHash :: string
  referChain :: chainRef

type_synonym 'a snippet = "'a Tblock_scheme snippetChain"
type_synonym 'a forked = "'a Tblock_scheme forkedChain"

definition size_chain :: "('b, 'c) chain_scheme \<Rightarrow> int" where
  "size_chain c = headHeight c - tailHeight c"

section \<open>Snippet chains\<close>

definition init_sn :: "string \<Rightarrow> 'a pblock \<Rightarrow> 'a snippet" where
  "init_sn cid w =
     \<lparr>heightBlocks = Map.empty(Theight (block w) \<mapsto> w), headHeight = Theight (block w),
      tailHeight = Theight (block w) - 1, chainId = cid,
      tailHash = TpreHash (block w), headHash = Thash (block w)\<rparr>"

definition addTail_sn :: "'a pblock \<Rightarrow> 'a snippet \<Rightarrow> 'a snippet" where
  "addTail_sn w c =
     c\<lparr>tailHash := TpreHash (block w), tailHeight := Theight (block w) - 1,
       heightBlocks := (heightBlocks c)(Theight (block w) \<mapsto> w)\<rparr>"

definition deleteTail :: "'a pblock \<Rightarrow> 'a snippet \<Rightarrow> 'a snippet" where
  "deleteTail newtail c =
     c\<lparr>tailHash := Thash (block newtail), tailHeight := Theight (block newtail),
       heightBlocks := (heightBlocks c)(Theight (block newtail) := None)\<rparr>"

definition remTail :: "'a snippet \<Rightarrow> 'a pblock option \<times> 'a snippet" where
  "remTail c =
     (case heightBlocks c (tailHeight c + 1) of
        None \<Rightarrow> (None, c)
      | Some newTail \<Rightarrow> (Some newTail, deleteTail newTail c))"

definition merge_sn :: "'a snippet \<Rightarrow> 'a snippet \<Rightarrow> 'a snippet" where
  "merge_sn snip c =
     c\<lparr>tailHeight := tailHeight snip, tailHash := tailHash snip,
       heightBlocks := heightBlocks c ++ heightBlocks snip\<rparr>"

text \<open>A loop that only stops at a height or when the next block is missing.\<close>

partial_function (option) cutSnippet :: "int \<Rightarrow> 'a snippet \<Rightarrow> 'a snippet option" where
  "cutSnippet height c =
     (case remTail c of
        (None, c1) \<Rightarrow> Some c1
      | (Some tail, c1) \<Rightarrow>
          if Theight (block tail) \<ge> height then Some c1 else cutSnippet height c1)"

section \<open>Forked chains\<close>

definition init_fc :: "string \<Rightarrow> chainRef \<Rightarrow> 'a Tblock_scheme \<Rightarrow> 'a forked" where
  "init_fc cid ref initBlock =
     \<lparr>heightBlocks = Map.empty, headHeight = Theight initBlock, tailHeight = Theight initBlock,
      chainId = cid, fcHeadHash = Thash initBlock, fcTailHash = Thash initBlock,
      referChain = ref\<rparr>"

definition addHead :: "'a pblock \<Rightarrow> 'a forked \<Rightarrow> 'a forked" where
  "addHead w c =
     c\<lparr>fcHeadHash := Thash (block w), headHeight := Theight (block w),
       heightBlocks := (heightBlocks c)(Theight (block w) \<mapsto> w)\<rparr>"

definition removeTail :: "'a pblock \<Rightarrow> 'a forked \<Rightarrow> 'a forked" where
  "removeTail w c =
     c\<lparr>fcTailHash := Thash (block w), tailHeight := Theight (block w),
       heightBlocks := (heightBlocks c)(Theight (block w) := None)\<rparr>"

definition addTail :: "'a pblock \<Rightarrow> 'a forked \<Rightarrow> 'a forked" where
  "addTail w c =
     c\<lparr>fcTailHash := TpreHash (block w), tailHeight := Theight (block w) - 1,
       heightBlocks := (heightBlocks c)(Theight (block w) \<mapsto> w)\<rparr>"

definition contains_fc :: "'a forked \<Rightarrow> int \<Rightarrow> bool" where
  "contains_fc c height \<longleftrightarrow> height > tailHeight c \<and> headHeight c \<le> height"

definition insert_fc :: "'a pblock \<Rightarrow> 'a forked \<Rightarrow> err \<times> 'a forked" where
  "insert_fc wrapper c =
     (if Theight (block wrapper) = headHeight c + 1 then
        if fcHeadHash c = TpreHash (block wrapper) then (None, addHead wrapper c)
        else (Some ForkChainError, c)
      else (Some ForkChainError, c))"

section \<open>The chain pool\<close>

record 'b chainPool =
  poolId :: string
  lastestChainIdx :: int
  current :: string
  snippetChains :: "string \<rightharpoonup> 'b snippetChain"
  chains :: "string \<rightharpoonup> 'b forkedChain"

type_synonym 'a cpool = "'a Tblock_scheme chainPool"

definition genChainId :: "'b chainPool \<Rightarrow> string \<times> 'b chainPool" where
  "genChainId cp =
     (let idx = wrap32 (lastestChainIdx cp + 1)
      in (poolId cp @ ''-'' @ itoa idx, cp\<lparr>lastestChainIdx := idx\<rparr>))"

text \<open>
  \<open>getBlock\<close> of a forked chain: its own blocks first, then, with \<open>refer\<close>, the chain it hangs
  on. The recursion follows pointers, so a cycle of references would not return.
\<close>

partial_function (option) getBlockRefer ::
  "(string \<rightharpoonup> 'a forked) \<Rightarrow> (int \<Rightarrow> 'a pblock option) \<Rightarrow> string \<Rightarrow> int \<Rightarrow> 'a pblock option option" where
  "getBlockRefer cs disk cid height =
     (case cs cid of
        None \<Rightarrow> None
      | Some c \<Rightarrow>
          (case heightBlocks c height of
             Some b \<Rightarrow> Some (Some b)
           | None \<Rightarrow>
               (case referChain c of
                  Disk \<Rightarrow> Some (disk height)
                | Fork cid' \<Rightarrow> getBlockRefer cs disk cid' height)))"

definition getBlock ::
  "(string \<rightharpoonup> 'a forked) \<Rightarrow> (int \<Rightarrow> 'a pblock option) \<Rightarrow> string \<Rightarrow> int \<Rightarrow> bool \<Rightarrow> 'a pblock option option" where
  "getBlock cs disk cid height refer =
     (if refer then getBlockRefer cs disk cid height
      else do { c \<leftarrow> cs cid; Some (heightBlocks c height) })"

definition GetBlock ::
  "(string \<rightharpoonup> 'a forked) \<Rightarrow> (int \<Rightarrow> 'a pblock option) \<Rightarrow> string \<Rightarrow> int \<Rightarrow> 'a Tblock_scheme option option" where
  "GetBlock cs disk cid height =
     do { w \<leftarrow> getBlock cs disk cid height True; Some (map_option block w) }"

definition Head_fc ::
  "(string \<rightharpoonup> 'a forked) \<Rightarrow> (int \<Rightarrow> 'a pblock option) \<Rightarrow> string \<Rightarrow> 'a Tblock_scheme option option" where
  "Head_fc cs disk cid = do { c \<leftarrow> cs cid; GetBlock cs disk cid (headHeight c) }"

definition forkChain :: "string \<Rightarrow> 'a snippet \<Rightarrow> 'a cpool \<Rightarrow> string \<times> 'a cpool" where
  "forkChain forked snip cp =
     (let (cid, cp1) = genChainId cp
      in (cid, cp1\<lparr>chains := (chains cp1)(cid \<mapsto>
            \<lparr>heightBlocks = heightBlocks snip, headHeight = headHeight snip,
             tailHeight = tailHeight snip, chainId = cid,
             fcHeadHash = headHash snip, fcTailHash = '''', referChain = Fork forked\<rparr>)\<rparr>))"

definition currentModify_cp :: "'a Tblock_scheme \<Rightarrow> 'a cpool \<Rightarrow> 'a cpool" where
  "currentModify_cp initBlock cp =
     (let (cid, cp1) = genChainId cp
      in cp1\<lparr>current := cid, chains := (chains cp1)(cid \<mapsto> init_fc cid Disk initBlock)\<rparr>)"

section \<open>Placing a snippet\<close>

definition sameChain ::
  "(string \<rightharpoonup> 'a forked) \<Rightarrow> (int \<Rightarrow> 'a pblock option) \<Rightarrow> 'a snippet \<Rightarrow> string \<Rightarrow> bool option" where
  "sameChain cs disk snip cid =
     do {
       h \<leftarrow> Head_fc cs disk cid;
       head \<leftarrow> h;
       Some (case heightBlocks snip (Theight head) of
               None \<Rightarrow> False
             | Some b \<Rightarrow> Thash (block b) = Thash head)
     }"

text \<open>
  The loop of \<open>findForkPoint\<close>: it trims the snippet as long as it agrees with the chain and
  returns the last common block when they part.
\<close>

fun forkPointLoop ::
  "(int \<Rightarrow> 'a pblock option option) \<Rightarrow> int list \<Rightarrow> 'a pblock \<Rightarrow> 'a snippet \<Rightarrow>
   ('a pblock option \<times> 'a snippet) option" where
  "forkPointLoop get [] forkpoint snip = Some (None, snip)"
| "forkPointLoop get (i # is) forkpoint snip =
     do {
       u \<leftarrow> get i;
       case u of
         None \<Rightarrow> Some (None, snip)
       | Some uncle \<Rightarrow>
           do {
             point \<leftarrow> heightBlocks snip i;
             if Thash (block point) \<noteq> Thash (block uncle) then Some (Some forkpoint, snip)
             else forkPointLoop get is point (deleteTail point snip)
           }
     }"

definition findForkPoint ::
  "(int \<Rightarrow> 'a pblock option option) \<Rightarrow> 'a snippet \<Rightarrow> ('a pblock option \<times> 'a snippet) option" where
  "findForkPoint get snip =
     do {
       f \<leftarrow> get (tailHeight snip);
       case f of
         None \<Rightarrow> Some (None, snip)
       | Some forkpoint \<Rightarrow>
           if Thash (block forkpoint) \<noteq> tailHash snip then Some (None, snip)
           else forkPointLoop get [tailHeight snip + 1..headHeight snip] forkpoint snip
     }"

text \<open>
  What \<open>forky\<close> decides for a snippet: fork off a chain, be appended to a chain, be dropped
  (the snippet is empty and leaves the table), or wait.
\<close>

datatype placement = Forky string | Insertable string | Dropped | Waiting

fun forkyLoop ::
  "(string \<rightharpoonup> 'a forked) \<Rightarrow> (int \<Rightarrow> 'a pblock option) \<Rightarrow> string list \<Rightarrow> 'a snippet \<Rightarrow>
   (placement \<times> 'a snippet) option" where
  "forkyLoop cs disk [] snip = Some (Waiting, snip)"
| "forkyLoop cs disk (cid # cids) snip =
     do {
       c \<leftarrow> cs cid;
       if tailHeight snip = headHeight c \<and> tailHash snip = fcHeadHash c then Some (Insertable cid, snip)
       else if tailHeight snip > headHeight c then forkyLoop cs disk cids snip
       else if headHeight snip \<le> headHeight c then forkyLoop cs disk cids snip
       else do {
         same \<leftarrow> sameChain cs disk snip cid;
         if same then do {
           snip1 \<leftarrow> cutSnippet (headHeight c) snip;
           Some (if headHeight snip1 = tailHeight snip1 then Dropped else Insertable cid, snip1)
         }
         else do {
           (point, snip1) \<leftarrow> findForkPoint (\<lambda>h. getBlock cs disk cid h False) snip;
           if point \<noteq> None then Some (Forky cid, snip1)
           else if headHeight snip1 = tailHeight snip1 then Some (Dropped, snip1)
           else forkyLoop cs disk cids snip1
         }
       }
     }"

definition forky ::
  "'a cpool \<Rightarrow> (int \<Rightarrow> 'a pblock option) \<Rightarrow> int \<Rightarrow> string list \<Rightarrow> 'a snippet \<Rightarrow>
   (placement \<times> 'a snippet) option" where
  "forky cp disk diskHeadHeight order snip =
     do {
       (p, snip1) \<leftarrow> forkyLoop (chains cp) disk order snip;
       if p \<noteq> Waiting then Some (p, snip1)
       else do {
         (point, snip2) \<leftarrow>
           (if tailHeight snip1 \<le> diskHeadHeight
            then findForkPoint (\<lambda>h. getBlock (chains cp) disk (current cp) h True) snip1
            else Some (None, snip1));
         if point \<noteq> None then Some (Forky (current cp), snip2)
         else if headHeight snip2 = tailHeight snip2 then Some (Dropped, snip2)
         else Some (Waiting, snip2)
       }
     }"

text \<open>
  \<open>insertSnippet\<close> appends the blocks of a snippet to a chain, one by one, until one does not
  fit; a snippet that was used up leaves the table.
\<close>

fun insertSnippetLoop ::
  "int list \<Rightarrow> 'a forked \<Rightarrow> 'a snippet \<Rightarrow> (err \<times> 'a forked \<times> 'a snippet) option" where
  "insertSnippetLoop [] c snip = Some (None, c, snip)"
| "insertSnippetLoop (i # is) c snip =
     do {
       w \<leftarrow> heightBlocks snip i;
       let (e, c1) = insert_fc w c;
       if e \<noteq> None then Some (e, c1, snip)
       else insertSnippetLoop is c1
              (snip\<lparr>heightBlocks := (heightBlocks snip)(i := None),
                    tailHeight := Theight (block w), tailHash := Thash (block w)\<rparr>)
     }"

definition insertSnippet :: "string \<Rightarrow> 'a snippet \<Rightarrow> 'a cpool \<Rightarrow> (err \<times> 'a cpool) option" where
  "insertSnippet cid snip cp =
     do {
       c \<leftarrow> chains cp cid;
       (e, c1, snip1) \<leftarrow> insertSnippetLoop [tailHeight snip + 1..headHeight snip] c snip;
       let cp1 = cp\<lparr>chains := (chains cp)(cid \<mapsto> c1),
                    snippetChains := (snippetChains cp)(chainId snip \<mapsto> snip1)\<rparr>;
       if e \<noteq> None then Some (e, cp1)
       else if tailHeight snip1 = headHeight snip1
       then Some (None, cp1\<lparr>snippetChains := (snippetChains cp1)(chainId snip := None)\<rparr>)
       else Some (None, cp1)
     }"

section \<open>Changing references\<close>

text \<open>
  The loop of \<open>modifyRefer\<close> compares with the tail height of the chain it is shortening,
  which changes on every round.
\<close>

partial_function (option) modifyLoop ::
  "string \<Rightarrow> string \<Rightarrow> int \<Rightarrow> (string \<rightharpoonup> 'a forked) \<Rightarrow> (string \<rightharpoonup> 'a forked) option" where
  "modifyLoop from to i cs =
     do {
       f \<leftarrow> cs from;
       if i > tailHeight f then
         do {
           w \<leftarrow> heightBlocks f i;
           let cs1 = cs(from \<mapsto> removeTail w f);
           t \<leftarrow> cs1 to;
           modifyLoop from to (i - 1) (cs1(to \<mapsto> addTail w t))
         }
       else Some cs
     }"

definition modifyRefer :: "string \<Rightarrow> string \<Rightarrow> (string \<rightharpoonup> 'a forked) \<Rightarrow> (string \<rightharpoonup> 'a forked) option" where
  "modifyRefer from to cs =
     do {
       t \<leftarrow> cs to;
       cs1 \<leftarrow> modifyLoop from to (tailHeight t) cs;
       f1 \<leftarrow> cs1 from;
       t1 \<leftarrow> cs1 to;
       let cs2 = cs1(to \<mapsto> t1\<lparr>referChain := referChain f1\<rparr>);
       f2 \<leftarrow> cs2 from;
       Some (cs2(from \<mapsto> f2\<lparr>referChain := Fork to\<rparr>))
     }"

end
