(* ===== verification/Pool_Disk.thy ===== *)
theory Pool_Disk
  imports Pool_Chains
begin

text \<open>
  Where the pool meets the persistent chain: the interface \<open>chainRw\<close> with its two
  implementations (\<open>pool/chain.go\<close>), the disk chain, and the operations of the chain pool
  that move blocks between memory and disk (\<open>pool/bc_pool.go\<close>).

  An interface value is a record of its methods. The account implementation reads the
  account chain of its own address, which the pool creates when it is initialised; from then
  on these reads change nothing, so the methods \<open>head\<close> and \<open>getBlock\<close> are plain reads.
\<close>

section \<open>chainRw\<close>

record ('s, 'b) chainRw =
  rwInsert :: "'b \<Rightarrow> int \<Rightarrow> 's \<Rightarrow> (err \<times> 's) option"
  rwRemove :: "'b \<Rightarrow> 's \<Rightarrow> (err \<times> 's) option"
  rwHead :: "'s \<Rightarrow> 'b option"
  rwGetBlock :: "'s \<Rightarrow> int \<Rightarrow> 'b option option"

type_synonym ('s, 'a) crw = "('s, 'a Tblock_scheme) chainRw"

text \<open>The block that stands for the missing head of an empty account chain.\<close>

definition emptyAccountHead :: AccountStateBlock where
  "emptyAccountHead = NewAccountBlock (-1) '''' '''' '''' 0 0 0 0 '''' SEND '''' '''' '''' (-1)"

definition accountCh :: "string \<Rightarrow> int \<Rightarrow> (blockchain, AccountStateBlock) chainRw" where
  "accountCh addr ver =
     \<lparr>rwInsert = (\<lambda>b forkVer bc.
        if forkVer \<noteq> ver then Some (Some (ErrorForkVersion ver forkVer), bc)
        else InsertAccountBlock addr b bc),
      rwRemove = RemoveAccountHead addr,
      rwHead = (\<lambda>bc. acHead (acOf bc addr)),
      rwGetBlock = (\<lambda>bc height.
        if height = -1 then Some (Some emptyAccountHead)
        else Some (fst (GetAccountByHeight_bc bc addr height)))\<rparr>"

definition snapshotCh :: "(blockchain, SnapshotBlock) chainRw" where
  "snapshotCh =
     \<lparr>rwInsert = (\<lambda>b forkVer. InsertSnapshotBlock b),
      rwRemove = (\<lambda>b bc. Some (None, RemoveSnapshotHead b bc)),
      rwHead = HeadSnapshot,
      rwGetBlock = GetSnapshotByHeight_bc\<rparr>"

section \<open>The disk chain\<close>

definition getBlock_disk :: "('s, 'a) crw \<Rightarrow> int \<Rightarrow> 's \<Rightarrow> int \<Rightarrow> 'a pblock option" where
  "getBlock_disk rw ver s height =
     (if height < 0 then None
      else (case rwGetBlock rw s height of
              Some (Some b) \<Rightarrow> Some \<lparr>block = b, forkVersion = ver\<rparr>
            | _ \<Rightarrow> None))"

definition Head_disk :: "('s, 'a) crw \<Rightarrow> 's \<Rightarrow> 'a Tblock_scheme option" where
  "Head_disk rw s =
     (case rwHead rw s of
        Some head \<Rightarrow> Some head
      | None \<Rightarrow> do { b \<leftarrow> rwGetBlock rw s (-1); b })"

section \<open>The chain pool on its disk chain\<close>

definition init_cp :: "('s, 'a) crw \<Rightarrow> string \<Rightarrow> 's \<Rightarrow> 'a cpool option" where
  "init_cp rw pid s =
     do {
       initBlock \<leftarrow> Head_disk rw s;
       let cp = \<lparr>poolId = pid, lastestChainIdx = 0, current = '''', snippetChains = Map.empty,
                 chains = Map.empty\<rparr>;
       let (cid, cp1) = genChainId cp;
       Some (cp1\<lparr>current := cid, chains := Map.empty(cid \<mapsto> init_fc cid Disk initBlock)\<rparr>)
     }"

partial_function (option) referLoop ::
  "string \<Rightarrow> (string \<rightharpoonup> 'a forked) \<Rightarrow> (string \<rightharpoonup> 'a forked) option" where
  "referLoop cid cs =
     do {
       c \<leftarrow> cs cid;
       case referChain c of
         Disk \<Rightarrow> Some cs
       | Fork from \<Rightarrow> do { cs1 \<leftarrow> modifyRefer from cid cs; referLoop cid cs1 }
     }"

definition currentModifyToChain ::
  "('s, 'a) crw \<Rightarrow> int \<Rightarrow> string \<Rightarrow> 's \<Rightarrow> 'a cpool \<Rightarrow> (err \<times> 'a cpool) option" where
  "currentModifyToChain rw ver cid s cp =
     do {
       head \<leftarrow> Head_disk rw s;
       w \<leftarrow> getBlock (chains cp) (getBlock_disk rw ver s) cid (Theight head) True;
       if (case w of None \<Rightarrow> True | Some b \<Rightarrow> Thash (block b) \<noteq> Thash head)
       then Some (Some CurrentModifyError, cp)
       else do {
         cs \<leftarrow> referLoop cid (chains cp);
         Some (None, cp\<lparr>chains := cs, current := cid\<rparr>)
       }
     }"

text \<open>
  \<open>rollback\<close> removes blocks from the disk chain, from the tail of the current chain down to
  the new height, and puts each back at the tail of the current chain.
\<close>

fun rollbackLoop ::
  "('s, 'a) crw \<Rightarrow> int \<Rightarrow> int list \<Rightarrow> 's \<Rightarrow> 'a forked \<Rightarrow> (err \<times> 's \<times> 'a forked) option" where
  "rollbackLoop rw forkVer [] s c = Some (None, s, c)"
| "rollbackLoop rw forkVer (i # is) s c =
     do {
       b \<leftarrow> getBlock_disk rw forkVer s i;
       (e, s1) \<leftarrow> rwRemove rw (block b) s;
       if e \<noteq> None then Some (e, s1, c)
       else rollbackLoop rw forkVer is s1 (addTail b c)
     }"

definition rollback_cp ::
  "('s, 'a) crw \<Rightarrow> int \<Rightarrow> int \<Rightarrow> 's \<Rightarrow> 'a cpool \<Rightarrow> (err \<times> 's \<times> 'a cpool) option" where
  "rollback_cp rw newHeight forkVer s cp =
     do {
       c \<leftarrow> chains cp (current cp);
       (e, s1, c1) \<leftarrow> rollbackLoop rw forkVer (rev [newHeight + 1..tailHeight c]) s c;
       let cp1 = cp\<lparr>chains := (chains cp)(current cp \<mapsto> c1)\<rparr>;
       if e \<noteq> None then Some (e, s1, cp1)
       else do {
         head \<leftarrow> Head_disk rw s1;
         Some (if tailHeight c1 \<noteq> Theight head \<or> fcTailHash c1 \<noteq> Thash head
               then Some RollbackFail else None, s1, cp1)
       }
     }"

definition insertNotify :: "'a Tblock_scheme \<Rightarrow> 'a cpool \<Rightarrow> 'a cpool option" where
  "insertNotify head cp =
     do {
       c \<leftarrow> chains cp (current cp);
       if headHeight c = tailHeight c \<and> fcTailHash c = TpreHash head \<and> fcHeadHash c = TpreHash head
       then Some (cp\<lparr>chains := (chains cp)(current cp \<mapsto>
              c\<lparr>fcHeadHash := Thash head, fcTailHash := Thash head,
                tailHeight := Theight head, headHeight := Theight head\<rparr>)\<rparr>)
       else Some (currentModify_cp head cp)
     }"

definition writeToChain ::
  "('s, 'a) crw \<Rightarrow> 'a pblock \<Rightarrow> 's \<Rightarrow> 'a forked \<Rightarrow> (err \<times> 's \<times> 'a forked) option" where
  "writeToChain rw wrapper s c =
     do {
       (e, s1) \<leftarrow> rwInsert rw (block wrapper) (forkVersion wrapper) s;
       Some (if e = None then (None, s1, removeTail wrapper c) else (e, s1, c))
     }"

end
