(* ===== verification/BC_Pool.thy ===== *)
theory BC_Pool
  imports Pool_Disk
begin

text \<open>
  The block pool of one chain, \<open>BCPool\<close> of \<open>pool/bc_pool.go\<close>: blocks that arrive are free
  until they are compounded into snippets; snippets are joined, appended to chains or forked
  off them; missing predecessors are fetched; and the chain to follow is chosen.

  Where the code ranges over a map, the visiting order is an argument. A call of the
  network fetcher is a fetch request in the result.
\<close>

section \<open>Arriving blocks\<close>

record 'b blockPool =
  freeBlocks :: "string \<rightharpoonup> 'b PoolBlock"
  compoundBlocks :: "string \<rightharpoonup> 'b PoolBlock"

record 'b BCPool =
  Id :: string
  blockpool :: "'b blockPool"
  chainpool :: "'b chainPool"

type_synonym 'a bcpool = "'a Tblock_scheme BCPool"

definition init_bcp :: "('s, 'a) crw \<Rightarrow> string \<Rightarrow> 's \<Rightarrow> 'a bcpool option" where
  "init_bcp rw name s =
     do {
       cp \<leftarrow> init_cp rw name s;
       Some \<lparr>Id = name, blockpool = \<lparr>freeBlocks = Map.empty, compoundBlocks = Map.empty\<rparr>,
             chainpool = cp\<rparr>
     }"

definition contains_bp :: "'b blockPool \<Rightarrow> string \<Rightarrow> int \<Rightarrow> bool" where
  "contains_bp bp hash height \<longleftrightarrow> freeBlocks bp hash \<noteq> None \<or> compoundBlocks bp hash \<noteq> None"

definition putBlock :: "string \<Rightarrow> 'b PoolBlock \<Rightarrow> 'b blockPool \<Rightarrow> 'b blockPool" where
  "putBlock hash w bp = bp\<lparr>freeBlocks := (freeBlocks bp)(hash \<mapsto> w)\<rparr>"

definition compound :: "'a pblock \<Rightarrow> 'a Tblock_scheme blockPool \<Rightarrow> 'a Tblock_scheme blockPool" where
  "compound w bp =
     bp\<lparr>compoundBlocks := (compoundBlocks bp)(Thash (block w) \<mapsto> w),
        freeBlocks := (freeBlocks bp)(Thash (block w) := None)\<rparr>"

definition AddBlock :: "int \<Rightarrow> 'a Tblock_scheme \<Rightarrow> 'a bcpool \<Rightarrow> 'a bcpool" where
  "AddBlock ver b p =
     (let wrapper = \<lparr>block = b, forkVersion = ver\<rparr>
      in if \<not> contains_bp (blockpool p) (Thash b) (Theight b)
         then p\<lparr>blockpool := putBlock (Thash b) wrapper (blockpool p)\<rparr>
         else p)"

section \<open>Building snippets\<close>

fun tryInsert :: "'a pblock \<Rightarrow> 'a snippet list \<Rightarrow> bool \<times> 'a snippet list" where
  "tryInsert w [] = (False, [])"
| "tryInsert w (c # cs) =
     (if tailHash c = Thash (block w) then (True, addTail_sn w c # cs)
      else if headHeight c > Theight (block w) \<and> Theight (block w) > tailHeight c then (True, c # cs)
      else (let (r, cs1) = tryInsert w cs in (r, c # cs1)))"

text \<open>The loop over the free blocks; the list is in the order in which the map yields them.\<close>

fun genSnippets ::
  "'a pblock list \<Rightarrow> 'a snippet list \<Rightarrow> 'a bcpool \<Rightarrow> 'a snippet list \<times> 'a bcpool" where
  "genSnippets [] cs p = (cs, p)"
| "genSnippets (v # vs) cs p =
     (let (r, cs1) = tryInsert v cs;
          (cs2, p1) = (if r then (cs1, p)
                       else (let (cid, cp) = genChainId (chainpool p)
                             in (cs1 @ [init_sn cid v], p\<lparr>chainpool := cp\<rparr>)))
      in genSnippets vs cs2 (p1\<lparr>blockpool := compound v (blockpool p1)\<rparr>))"

definition splitToMap :: "'a snippet list \<Rightarrow> (string \<rightharpoonup> string)" where
  "splitToMap cs = foldl (\<lambda>m c. m(headHash c \<mapsto> chainId c)) Map.empty cs"

text \<open>
  Joining snippets. The snippets are a small heap indexed by chain id; \<open>headMap\<close> finds the
  snippet that ends with a given hash. The inner loop absorbs the snippet that ends where
  this one starts, and removes it from \<open>headMap\<close>.
\<close>

partial_function (option) mergeLoop ::
  "string \<Rightarrow> (string \<rightharpoonup> string) \<Rightarrow> (string \<rightharpoonup> 'a snippet) \<Rightarrow>
   ((string \<rightharpoonup> string) \<times> (string \<rightharpoonup> 'a snippet)) option" where
  "mergeLoop cid headMap heap =
     do {
       c \<leftarrow> heap cid;
       case headMap (tailHash c) of
         None \<Rightarrow> Some (headMap, heap)
       | Some ocid \<Rightarrow>
           if ocid = cid then Some (headMap, heap)
           else do {
             oc \<leftarrow> heap ocid;
             mergeLoop cid (headMap(tailHash c := None)) (heap(cid \<mapsto> merge_sn oc c))
           }
     }"

fun mergeAll ::
  "string list \<Rightarrow> (string \<rightharpoonup> string) \<Rightarrow> (string \<rightharpoonup> 'a snippet) \<Rightarrow>
   ((string \<rightharpoonup> string) \<times> (string \<rightharpoonup> 'a snippet)) option" where
  "mergeAll [] headMap heap = Some (headMap, heap)"
| "mergeAll (cid # cids) headMap heap =
     do {
       (headMap1, heap1) \<leftarrow> mergeLoop cid headMap heap;
       mergeAll cids headMap1 heap1
     }"

definition heapOf :: "'a snippet list \<Rightarrow> (string \<rightharpoonup> 'a snippet)" where
  "heapOf cs = map_of (rev (map (\<lambda>c. (chainId c, c)) cs))"

definition loopGenSnippetChains ::
  "'a pblock list \<Rightarrow> 'a snippet list \<Rightarrow> 'a bcpool \<Rightarrow> (int \<times> 'a bcpool) option" where
  "loopGenSnippetChains pending snips p =
     do {
       let (cs, p1) = genSnippets pending snips p;
       (headMap, heap) \<leftarrow> mergeAll (map chainId cs) (splitToMap cs) (heapOf cs);
       let final = (\<lambda>cid. if cid \<in> set (map chainId cs) \<and> (\<exists>c\<in>set cs. headMap (headHash c) = Some cid)
                          then heap cid else None);
       Some (int (length pending), p1\<lparr>chainpool := (chainpool p1)\<lparr>snippetChains := final\<rparr>\<rparr>)
     }"

section \<open>Placing snippets\<close>

fun appendLoop ::
  "(int \<Rightarrow> 'a pblock option) \<Rightarrow> int \<Rightarrow> string list \<Rightarrow> string list \<Rightarrow> 'a cpool \<Rightarrow> (int \<times> 'a cpool) option" where
  "appendLoop disk diskHead [] tmpChains cp = Some (0, cp)"
| "appendLoop disk diskHead (w # ws) tmpChains cp =
     do {
       snip \<leftarrow> snippetChains cp w;
       (p, snip1) \<leftarrow> forky cp disk diskHead tmpChains snip;
       case p of
         Forky c \<Rightarrow>
           do {
             let (cid, cp1) = forkChain c snip1 cp;
             (i, cp2) \<leftarrow> appendLoop disk diskHead ws (tmpChains @ [cid])
                           (cp1\<lparr>snippetChains := (snippetChains cp1)(w := None)\<rparr>);
             Some (i + 1, cp2)
           }
       | Insertable c \<Rightarrow>
           do {
             (e, cp1) \<leftarrow> insertSnippet c snip1 cp;
             (i, cp2) \<leftarrow> appendLoop disk diskHead ws tmpChains cp1;
             Some (i + 1, cp2)
           }
       | Dropped \<Rightarrow>
           appendLoop disk diskHead ws tmpChains
             (cp\<lparr>snippetChains := (snippetChains cp)(w := None)\<rparr>)
       | Waiting \<Rightarrow>
           appendLoop disk diskHead ws tmpChains
             (cp\<lparr>snippetChains := (snippetChains cp)(w \<mapsto> snip1)\<rparr>)
     }"

definition sortSnippets :: "'a cpool \<Rightarrow> string list \<Rightarrow> string list" where
  "sortSnippets cp order =
     sort_key (\<lambda>w. case snippetChains cp w of Some c \<Rightarrow> tailHeight c | None \<Rightarrow> 0) order"

definition loopAppendChains ::
  "('s, 'a) crw \<Rightarrow> int \<Rightarrow> 's \<Rightarrow> string list \<Rightarrow> string list \<Rightarrow> 'a bcpool \<Rightarrow> (int \<times> 'a bcpool) option" where
  "loopAppendChains rw ver s snipOrder chainOrder p =
     (if snipOrder = [] then Some (0, p)
      else do {
        head \<leftarrow> Head_disk rw s;
        (i, cp) \<leftarrow> appendLoop (getBlock_disk rw ver s) (Theight head)
                     (sortSnippets (chainpool p) snipOrder) chainOrder (chainpool p);
        Some (i, p\<lparr>chainpool := cp\<rparr>)
      })"

section \<open>Fetching predecessors of snippets\<close>

definition fetchDiff :: "int \<Rightarrow> int \<Rightarrow> int \<Rightarrow> int" where
  "fetchDiff head prev tail =
     (let diff = (if prev > 0 then tail - prev else tail - head);
          diff1 = (if diff \<le> 0 then tail - head else diff);
          diff2 = (if diff1 \<le> 0 then 20 else diff1)
      in diff2)"

fun fetchLoop :: "string \<Rightarrow> int \<Rightarrow> int \<Rightarrow> 'a snippet list \<Rightarrow> FetchRequest list" where
  "fetchLoop addr head prev [] = []"
| "fetchLoop addr head prev (w # ws) =
     (let diff = fetchDiff head prev (tailHeight w)
      in (if diff > 0
          then [\<lparr>frChain = addr, frHeight = tailHeight w, frHash = tailHash w, frPrevCnt = diff\<rparr>]
          else []) @
         fetchLoop addr head (headHeight w) ws)"

definition loopFetchForSnippets ::
  "string \<Rightarrow> 'a snippet list \<Rightarrow> 'a bcpool \<Rightarrow> (int \<times> FetchRequest list) option" where
  "loopFetchForSnippets addr snips p =
     (if snips = [] then Some (0, [])
      else do {
        c \<leftarrow> chains (chainpool p) (current (chainpool p));
        let reqs = fetchLoop addr (headHeight c) (-1) (sort_key tailHeight snips);
        Some (int (length reqs), reqs)
      })"

section \<open>Direct insertion\<close>

text \<open>\<open>verify\<close> is the verifier of the pool: its result, its message and the chain after its reads.\<close>

definition AddDirectBlock ::
  "('s, 'a) crw \<Rightarrow> ('a Tblock_scheme \<Rightarrow> 's \<Rightarrow> (VerifyResult \<times> string \<times> 's) option) \<Rightarrow> int \<Rightarrow>
   'a Tblock_scheme \<Rightarrow> 's \<Rightarrow> 'a cpool \<Rightarrow> (err \<times> 's \<times> 'a cpool) option" where
  "AddDirectBlock rw verify ver b s cp =
     do {
       (res, msg, s1) \<leftarrow> verify b s;
       case res of
         PENDING \<Rightarrow> Some (Some PendingForSomething, s1, cp)
       | FAIL \<Rightarrow> Some (Some (VerifyFail msg), s1, cp)
       | SUCCESS \<Rightarrow>
           do {
             (e, s2) \<leftarrow> rwInsert rw b ver s1;
             if e \<noteq> None then Some (e, s2, cp)
             else do {
               head \<leftarrow> Head_disk rw s2;
               cp1 \<leftarrow> insertNotify head cp;
               Some (None, s2, cp1)
             }
           }
     }"

section \<open>Choosing and comparing chains\<close>

definition LongestChain :: "'a cpool \<Rightarrow> string list \<Rightarrow> string option" where
  "LongestChain cp order =
     do {
       cur \<leftarrow> chains cp (current cp);
       let longest = foldl (\<lambda>l cid. case chains cp cid of
                                None \<Rightarrow> l
                              | Some r \<Rightarrow> if headHeight r > headHeight l then r else l) cur order;
       Some (if headHeight longest - 4 > headHeight cur then chainId longest else chainId cur)
     }"

text \<open>
  \<open>getForkPoint\<close> walks down both chains from the head of the second until the hashes agree.
  The result is the key point (the first block of the longer chain after the fork) and the
  fork point.
\<close>

partial_function (option) forkPointDown ::
  "(int \<Rightarrow> 'a Tblock_scheme option option) \<Rightarrow> (int \<Rightarrow> 'a Tblock_scheme option option) \<Rightarrow> int \<Rightarrow>
   (error + ('a Tblock_scheme option \<times> 'a Tblock_scheme)) option" where
  "forkPointDown longest cur i =
     do {
       b \<leftarrow> longest i;
       c \<leftarrow> cur i;
       case b of
         None \<Rightarrow> Some (Inl LongestChainError)
       | Some blk \<Rightarrow>
           (case c of
              None \<Rightarrow> Some (Inl CurrentChainError)
            | Some curBlk \<Rightarrow>
                if Thash blk = Thash curBlk
                then do { keyPoint \<leftarrow> longest (i + 1); Some (Inr (keyPoint, blk)) }
                else forkPointDown longest cur (i - 1))
     }"

definition getForkPoint ::
  "(string \<rightharpoonup> 'a forked) \<Rightarrow> (int \<Rightarrow> 'a pblock option) \<Rightarrow> string \<Rightarrow> string \<Rightarrow>
   (error + ('a Tblock_scheme option \<times> 'a Tblock_scheme)) option" where
  "getForkPoint cs disk longest cur =
     do {
       c \<leftarrow> cs cur;
       forkPointDown (GetBlock cs disk longest) (GetBlock cs disk cur) (headHeight c)
     }"

definition getForkPointByChains ::
  "(string \<rightharpoonup> 'a forked) \<Rightarrow> (int \<Rightarrow> 'a pblock option) \<Rightarrow> string \<Rightarrow> string \<Rightarrow>
   (error + ('a Tblock_scheme option \<times> 'a Tblock_scheme)) option" where
  "getForkPointByChains cs disk chain1 chain2 =
     do {
       h1 \<leftarrow> Head_fc cs disk chain1;
       b1 \<leftarrow> h1;
       h2 \<leftarrow> Head_fc cs disk chain2;
       b2 \<leftarrow> h2;
       if Theight b1 > Theight b2 then getForkPoint cs disk chain1 chain2
       else getForkPoint cs disk chain2 chain1
     }"

definition ExistInCurrent :: "'a cpool \<Rightarrow> FetchRequest \<Rightarrow> bool option" where
  "ExistInCurrent cp request =
     do { c \<leftarrow> chains cp (current cp); Some (heightBlocks c (frHeight request) \<noteq> None) }"

definition whichChain ::
  "('s, 'a) crw \<Rightarrow> int \<Rightarrow> string \<Rightarrow> string list \<Rightarrow> int \<Rightarrow> string \<Rightarrow> 's \<Rightarrow> 'a cpool \<Rightarrow>
   (string option \<times> FetchRequest list) option" where
  "whichChain rw ver addr order height hash s cp =
     (case find (\<lambda>cid. case chains cp cid of
                   None \<Rightarrow> False
                 | Some c \<Rightarrow> (case heightBlocks c height of
                               None \<Rightarrow> False | Some b \<Rightarrow> Thash (block b) = hash)) order of
        Some cid \<Rightarrow> Some (Some cid, [])
      | None \<Rightarrow>
          do {
            b \<leftarrow> getBlock (chains cp) (getBlock_disk rw ver s) (current cp) height True;
            if (case b of None \<Rightarrow> False | Some w \<Rightarrow> Thash (block w) = hash)
            then Some (Some (current cp), [])
            else do {
              head \<leftarrow> Head_disk rw s;
              Some (None, [\<lparr>frChain = addr, frHeight = height, frHash = hash,
                            frPrevCnt = height - Theight head\<rparr>])
            }
          })"

text \<open>\<open>BCPool.currentModify\<close>: switch to a chain that holds the given height.\<close>

definition currentModify_bcp ::
  "('s, 'a) crw \<Rightarrow> int \<Rightarrow> string \<Rightarrow> string list \<Rightarrow> int \<Rightarrow> string \<Rightarrow> 's \<Rightarrow> 'a cpool \<Rightarrow>
   (err \<times> 's \<times> 'a cpool \<times> FetchRequest list) option" where
  "currentModify_bcp rw ver addr order forkHeight forkHash s cp =
     (case find (\<lambda>cid. case chains cp cid of
                   None \<Rightarrow> False | Some c \<Rightarrow> heightBlocks c forkHeight \<noteq> None) order of
        None \<Rightarrow>
          do {
            head \<leftarrow> Head_disk rw s;
            Some (None, s, cp, [\<lparr>frChain = addr, frHeight = forkHeight, frHash = forkHash,
                                 frPrevCnt = forkHeight - Theight head\<rparr>])
          }
      | Some cid \<Rightarrow>
          if cid = current cp then Some (None, s, cp, [])
          else do {
            r \<leftarrow> getForkPointByChains (chains cp) (getBlock_disk rw ver s) cid (current cp);
            case r of
              Inl e \<Rightarrow> Some (Some CantFindForkPoint, s, cp, [])
            | Inr (key, forkBlock) \<Rightarrow>
                do {
                  (e, s1, cp1) \<leftarrow> rollback_cp rw (Theight forkBlock) ver s cp;
                  if e \<noteq> None then Some (Some RollbackFail, s1, cp1, [])
                  else do {
                    (e2, cp2) \<leftarrow> currentModifyToChain rw ver cid s1 cp1;
                    Some (e2, s1, cp2, [])
                  }
                }
          })"

section \<open>The rest of the pool's interface\<close>

definition contains_disk :: "('s, 'a) crw \<Rightarrow> 's \<Rightarrow> int \<Rightarrow> bool option" where
  "contains_disk rw s height = do { head \<leftarrow> rwHead rw s; Some (height \<le> Theight head) }"

definition RollbackAll :: "('s, 'a) crw \<Rightarrow> int \<Rightarrow> 's \<Rightarrow> 'a bcpool \<Rightarrow> (err \<times> 's \<times> 'a bcpool) option" where
  "RollbackAll rw ver s p =
     do {
       (e, s1, cp) \<leftarrow> rollback_cp rw (-1) ver s (chainpool p);
       Some (e, s1, p\<lparr>chainpool := cp\<rparr>)
     }"

definition CurrentModifyToChain :: "('s, 'a) crw \<Rightarrow> int \<Rightarrow> string \<Rightarrow> 's \<Rightarrow> 'a bcpool \<Rightarrow> (err \<times> 'a bcpool) option" where
  "CurrentModifyToChain rw ver target s p =
     do {
       (e, cp) \<leftarrow> currentModifyToChain rw ver target s (chainpool p);
       Some (e, p\<lparr>chainpool := cp\<rparr>)
     }"

text \<open>The printed form of the chains; a height without block dereferences nil.\<close>

definition String_fc :: "'b forkedChain \<Rightarrow> string" where
  "String_fc c =
     ''chainId:'' @ [CHR 0x09] @ chainId c @ [CHR 0x0A] @
     ''headHeight:'' @ [CHR 0x09] @ itoa (headHeight c) @ [CHR 0x0A] @
     ''headHash:'' @ [CHR 0x09] @ ''['' @ fcHeadHash c @ '']'' @ [CHR 0x09] @ [CHR 0x0A] @
     ''tailHeight:'' @ [CHR 0x09] @ itoa (tailHeight c)"

fun printHashes :: "(int \<Rightarrow> 'a pblock option option) \<Rightarrow> int list \<Rightarrow> string \<Rightarrow> string option" where
  "printHashes get [] hashs = Some hashs"
| "printHashes get (i # is) hashs =
     do {
       w \<leftarrow> get i;
       b \<leftarrow> w;
       printHashes get is (Thash (block b) @ [CHR 0x0A] @ hashs)
     }"

fun printChainsLoop :: "(int \<Rightarrow> 'a pblock option) \<Rightarrow> 'a cpool \<Rightarrow> string list \<Rightarrow> string \<Rightarrow> string option" where
  "printChainsLoop disk cp [] out = Some out"
| "printChainsLoop disk cp (cid # cids) out =
     do {
       c \<leftarrow> chains cp cid;
       hashs \<leftarrow> printHashes (\<lambda>i. getBlock (chains cp) disk cid i True) (rev [0..headHeight c]) '''';
       printChainsLoop disk cp cids
         (out @ ''hashes:'' @ [CHR 0x0A] @ hashs @ [CHR 0x0A] @
          (if chainId c = current cp then String_fc c @ '' [current]'' @ [CHR 0x0A] else String_fc c @ [CHR 0x0A]) @
          ''++++++++++++++++++++++++++++++++++++++++'' @ [CHR 0x0A])
     }"

definition printChains :: "(int \<Rightarrow> 'a pblock option) \<Rightarrow> 'a cpool \<Rightarrow> string list \<Rightarrow> string option" where
  "printChains disk cp order =
     do {
       out \<leftarrow> printChainsLoop disk cp order
         ([CHR 0x0A] @ ''---------------'' @ poolId cp @ ''--start-----------------'' @ [CHR 0x0A]);
       Some (out @ ''---------------'' @ poolId cp @ ''--end-----------------'' @ [CHR 0x0A])
     }"

text \<open>
  The hashes are printed from height 0 to the head, provided each height has a block; this is the
  view of the chain that the invariants of the pool are about.
\<close>

lemma printHashes_spec:
  assumes "\<forall>i\<in>set is. \<exists>b. get i = Some (Some b) \<and> Thash (block b) = h i"
  shows "printHashes get is hashs = Some (concat (map (\<lambda>i. h i @ [CHR 0x0A]) (rev is)) @ hashs)"
  using assms by (induction "is" arbitrary: hashs) fastforce+

end
