(* ===== verification/Pool_Runs.thy ===== *)
theory Pool_Runs
  imports Pool_Chains
begin

text \<open>
  The invariant of the chains held in memory, and that every operation on them keeps it. A
  snippet and a forked chain are both a run of linked blocks above a tail: \<open>run_ok\<close> says
  that exactly the heights between tail and head are present, linked by hash, and that the
  recorded tail and head hashes are the right ones.
\<close>

section \<open>Runs of blocks\<close>

definition run_ok :: "'a height_index \<Rightarrow> int \<Rightarrow> int \<Rightarrow> string \<Rightarrow> string \<Rightarrow> bool" where
  "run_ok get t h tH hH \<longleftrightarrow>
     t \<le> h \<and> dom get = {t + 1..h} \<and> linked get (t + 1) h \<and>
     (\<forall>b. get (t + 1) = Some b \<longrightarrow> TpreHash b = tH) \<and>
     (\<forall>b. get h = Some b \<longrightarrow> Thash b = hH) \<and> (t = h \<longrightarrow> tH = hH)"

lemma run_okD:
  assumes "run_ok get t h tH hH"
  shows "t \<le> h" "dom get = {t + 1..h}" "linked get (t + 1) h"
    "\<And>b. get (t + 1) = Some b \<Longrightarrow> TpreHash b = tH" "\<And>b. get h = Some b \<Longrightarrow> Thash b = hH"
    "t = h \<Longrightarrow> tH = hH"
  using assms unfolding run_ok_def by blast+

lemma run_ok_get:
  assumes "run_ok get t h tH hH" "t < i" "i \<le> h"
  obtains b where "get i = Some b" "Theight b = i"
  using linked_get [OF run_okD(3) [OF assms(1)], of i] assms(2,3) by auto

lemma run_ok_None:
  assumes "run_ok get t h tH hH" "i \<le> t \<or> h < i"
  shows "get i = None"
proof -
  have "i \<notin> dom get" unfolding run_okD(2) [OF assms(1)] using assms(2) by auto
  then show ?thesis by (simp add: domIff)
qed

lemma run_ok_height:
  assumes "run_ok get t h tH hH" "get i = Some b"
  shows "Theight b = i" "t < i" "i \<le> h"
proof -
  from assms(2) have "i \<in> dom get" by (rule domI)
  then show i: "t < i" "i \<le> h" using run_okD(2) [OF assms(1)] by auto
  then show "Theight b = i"
    using linked_height [OF run_okD(3) [OF assms(1)], of i b] assms(2) by simp
qed

lemma run_ok_empty [simp]: "run_ok Map.empty t t H H"
  by (simp add: run_ok_def)

lemma run_ok_single: "run_ok [Theight b \<mapsto> b] (Theight b - 1) (Theight b) (TpreHash b) (Thash b)"
  by (simp add: run_ok_def linked_single)

lemma run_ok_append:
  assumes run: "run_ok get t h tH hH" and b: "Theight b = h + 1" "TpreHash b = hH"
  shows "run_ok (get(h + 1 \<mapsto> b)) t (h + 1) tH (Thash b)"
proof -
  note r = run_okD [OF run]
  have "linked (get(h + 1 \<mapsto> b)) (t + 1) (h + 1)"
    using b r(5) by (intro linked_extend [OF r(3)]) auto
  moreover have "dom (get(h + 1 \<mapsto> b)) = {t + 1..h + 1}"
    using r(1,2) atLeastAtMost_insert_hi [of "t + 1" h] by simp
  moreover have "TpreHash c = tH" if "(get(h + 1 \<mapsto> b)) (t + 1) = Some c" for c
    using that r(4,6) b by (cases "t = h") auto
  ultimately show ?thesis using r(1) unfolding run_ok_def by simp
qed

lemma run_ok_drop_tail:
  assumes run: "run_ok get t h tH hH" and b: "get (t + 1) = Some b"
  shows "run_ok (get(t + 1 := None)) (t + 1) h (Thash b) hH"
proof -
  note r = run_okD [OF run]
  have th: "t < h" using run_ok_height [OF run b] by simp
  have "linked (get(t + 1 := None)) (t + 1 + 1) h"
    by (rule linked_transfer [OF linked_sub [OF r(3)]]) simp_all
  moreover have "dom (get(t + 1 := None)) = {t + 1 + 1..h}"
    using r(2) atLeastAtMost_remove_lo [of "t + 1" h] by (simp add: dom_map_upd_del)
  moreover have "TpreHash c = Thash b" if "(get(t + 1 := None)) (t + 1 + 1) = Some c" for c
  proof -
    from that have c: "get (t + 1 + 1) = Some c" by simp
    have "t + 1 < h" using run_ok_height(3) [OF run c] by simp
    then show ?thesis using linked_preHash [OF r(3), of "t + 1" b c] b c by simp
  qed
  ultimately show ?thesis
    using th r(5) b unfolding run_ok_def by auto
qed

lemma run_ok_prepend:
  assumes run: "run_ok get t h tH hH" and b: "Theight b = t" "Thash b = tH"
  shows "run_ok (get(t \<mapsto> b)) (t - 1) h (TpreHash b) hH"
proof -
  note r = run_okD [OF run]
  have "linked (get(t + 1 - 1 \<mapsto> b)) (t + 1 - 1) h"
    using b r(4) by (intro linked_prepend [OF r(3)]) auto
  moreover have "dom (get(t \<mapsto> b)) = {t..h}" using r(1,2) by auto
  moreover have "Thash c = hH" if "(get(t \<mapsto> b)) h = Some c" for c
    using that r(5,6) b by (cases "t = h") auto
  ultimately show ?thesis using r(1) unfolding run_ok_def by simp
qed

lemma run_ok_join:
  assumes lo: "run_ok g t m tH mH" and hi: "run_ok f m h mH hH"
  shows "run_ok (f ++ g) t h tH hH"
proof -
  note l = run_okD [OF lo] and u = run_okD [OF hi]
  have fg: "(f ++ g) i = (if i \<le> m then g i else f i)" for i
    using run_ok_None [OF lo, of i] run_ok_None [OF hi, of i]
    by (auto simp: map_add_def split: option.split)
  have "linked (f ++ g) (t + 1) m"
    by (rule linked_transfer [OF l(3)]) (simp add: fg)
  moreover have "linked (f ++ g) (m + 1) h"
    by (rule linked_transfer [OF u(3)]) (simp add: fg)
  ultimately have "linked (f ++ g) (t + 1) h"
    by (rule linked_join) (use l(5) u(4) in \<open>simp add: fg\<close>)
  moreover have "dom (f ++ g) = {t + 1..h}"
    using l(1,2) u(1,2) by auto
  moreover have "TpreHash b = tH" if "(f ++ g) (t + 1) = Some b" for b
    using that l(1,4,6) u(4) by (cases "t = m") (auto simp: fg)
  moreover have "Thash b = hH" if "(f ++ g) h = Some b" for b
    using that u(1,5,6) l(5) by (cases "m = h") (auto simp: fg)
  ultimately show ?thesis using l(1,6) u(1,6) unfolding run_ok_def by auto
qed

section \<open>Snippet chains\<close>

text \<open>The blocks of a chain, without their pool wrappers.\<close>

definition own :: "('a Tblock_scheme, 'c) chain_scheme \<Rightarrow> 'a height_index" where
  "own c h = map_option block (heightBlocks c h)"

lemma own_upd: "own (c\<lparr>heightBlocks := m\<rparr>) h = map_option block (m h)"
  by (simp add: own_def)

lemma own_None [simp]: "own c h = None \<longleftrightarrow> heightBlocks c h = None"
  by (simp add: own_def)

lemma own_Some: "own c h = Some b \<longleftrightarrow> (\<exists>w. heightBlocks c h = Some w \<and> block w = b)"
  by (auto simp: own_def)

definition snippet_ok :: "'a snippet \<Rightarrow> bool" where
  "snippet_ok c \<longleftrightarrow> run_ok (own c) (tailHeight c) (headHeight c) (tailHash c) (headHash c)"

lemma init_sn_ok [wf_intros]: "snippet_ok (init_sn cid w)"
proof -
  have "own (init_sn cid w) = [Theight (block w) \<mapsto> block w]"
    by (simp add: fun_eq_iff own_def init_sn_def)
  then show ?thesis
    using run_ok_single [of "block w"] by (simp add: snippet_ok_def init_sn_def)
qed

lemma own_addTail_sn: "own (addTail_sn w c) = (own c)(Theight (block w) \<mapsto> block w)"
  by (simp add: fun_eq_iff own_def addTail_sn_def)

text \<open>
  \<open>addTail\<close> is called when the block's hash is the tail hash; it also needs the block's
  height to be the tail height, which the code does not check.
\<close>

lemma addTail_sn_ok [wf_intros]:
  assumes "snippet_ok c" "Thash (block w) = tailHash c" "Theight (block w) = tailHeight c"
  shows "snippet_ok (addTail_sn w c)"
  using run_ok_prepend [of "own c" "tailHeight c" "headHeight c" "tailHash c" "headHash c" "block w"] assms
  by (simp add: snippet_ok_def own_addTail_sn) (simp add: addTail_sn_def)

lemma own_deleteTail: "own (deleteTail w c) = (own c)(Theight (block w) := None)"
  by (simp add: fun_eq_iff own_def deleteTail_def)

lemma deleteTail_ok [wf_intros]:
  assumes "snippet_ok c" "heightBlocks c (tailHeight c + 1) = Some w"
  shows "snippet_ok (deleteTail w c)" "tailHeight (deleteTail w c) = tailHeight c + 1"
proof -
  have run: "run_ok (own c) (tailHeight c) (headHeight c) (tailHash c) (headHash c)"
    using assms(1) by (simp add: snippet_ok_def)
  have w: "own c (tailHeight c + 1) = Some (block w)" using assms(2) by (simp add: own_def)
  then have "Theight (block w) = tailHeight c + 1" using run_ok_height(1) [OF run] by simp
  then show "tailHeight (deleteTail w c) = tailHeight c + 1" "snippet_ok (deleteTail w c)"
    using run_ok_drop_tail [OF run w] by (simp_all add: snippet_ok_def own_deleteTail) (simp_all add: deleteTail_def)
qed

lemma merge_sn_ok [wf_intros]:
  assumes "snippet_ok c" "snippet_ok oc" "tailHash c = headHash oc" "tailHeight c = headHeight oc"
  shows "snippet_ok (merge_sn oc c)"
proof -
  have "own (merge_sn oc c) = own c ++ own oc"
    by (auto simp: fun_eq_iff own_def merge_sn_def map_add_def split: option.split)
  then show ?thesis
    using run_ok_join [of "own oc" "tailHeight oc" "headHeight oc" "tailHash oc" "headHash oc"
        "own c" "headHeight c" "headHash c"] assms
    by (simp add: snippet_ok_def) (simp add: merge_sn_def)
qed

text \<open>
  \<open>cutSnippet\<close> returns, and leaves exactly the blocks above the given height.
\<close>

lemma cutSnippet_spec:
  assumes "snippet_ok c" "tailHeight c < height" "height \<le> headHeight c"
  shows "\<exists>c'. cutSnippet height c = Some c' \<and> snippet_ok c' \<and> tailHeight c' = height \<and>
    headHeight c' = headHeight c \<and> headHash c' = headHash c \<and> chainId c' = chainId c \<and>
    (\<forall>h. heightBlocks c' h = (if h \<le> height then None else heightBlocks c h))"
  using assms
proof (induction "nat (height - tailHeight c)" arbitrary: c)
  case 0
  then show ?case by simp
next
  case (Suc n)
  have run: "run_ok (own c) (tailHeight c) (headHeight c) (tailHash c) (headHash c)"
    using Suc.prems(1) by (simp add: snippet_ok_def)
  obtain w where w: "heightBlocks c (tailHeight c + 1) = Some w" "Theight (block w) = tailHeight c + 1"
    using run_ok_get [OF run, of "tailHeight c + 1"] Suc.prems by (auto simp: own_Some)
  let ?c = "deleteTail w c"
  have rem: "remTail c = (Some w, ?c)" using w(1) by (simp add: remTail_def)
  note del = deleteTail_ok [OF Suc.prems(1) w(1)]
  have hb: "heightBlocks ?c h = (if h = tailHeight c + 1 then None else heightBlocks c h)"
    "headHeight ?c = headHeight c" "headHash ?c = headHash c" "chainId ?c = chainId c" for h
    using w(2) by (simp_all add: deleteTail_def)
  have low: "heightBlocks c h = None" if "h \<le> tailHeight c" for h
    using run_ok_None [OF run, of h] that by simp
  show ?case
  proof (cases "height \<le> tailHeight c + 1")
    case True
    then have "height = tailHeight c + 1" using Suc.prems(2) by simp
    moreover have "cutSnippet height c = Some ?c"
      using True w(2) by (subst cutSnippet.simps) (simp add: rem)
    ultimately show ?thesis using del hb low by fastforce
  next
    case False
    have "\<exists>c'. cutSnippet height ?c = Some c' \<and> snippet_ok c' \<and> tailHeight c' = height \<and>
      headHeight c' = headHeight ?c \<and> headHash c' = headHash ?c \<and> chainId c' = chainId ?c \<and>
      (\<forall>h. heightBlocks c' h = (if h \<le> height then None else heightBlocks ?c h))"
      using Suc.hyps(2) Suc.prems False del hb(2) by (intro Suc.hyps(1)) auto
    moreover have "cutSnippet height c = cutSnippet height ?c"
      using False w(2) by (subst cutSnippet.simps) (simp add: rem)
    ultimately show ?thesis using hb False by auto
  qed
qed

section \<open>Forked chains\<close>

text \<open>
  \<open>forked_ok tH c\<close>: the run of the chain is well formed above a tail whose hash is \<open>tH\<close>. The
  field \<open>tailHash\<close> of the chain is not required to be \<open>tH\<close>: \<open>forkChain\<close> does not set it.
\<close>

definition forked_ok :: "string \<Rightarrow> 'a forked \<Rightarrow> bool" where
  "forked_ok tH c \<longleftrightarrow> run_ok (own c) (tailHeight c) (headHeight c) tH (fcHeadHash c)"

lemma init_fc_ok [wf_intros]: "forked_ok (Thash b) (init_fc cid ref b)"
proof -
  have "own (init_fc cid ref b) = Map.empty" by (simp add: fun_eq_iff own_def init_fc_def)
  then show ?thesis by (simp add: forked_ok_def) (simp add: init_fc_def)
qed

lemma insert_fc_accepts_iff:
  "fst (insert_fc w c) = None \<longleftrightarrow>
     Theight (block w) = headHeight c + 1 \<and> TpreHash (block w) = fcHeadHash c"
  by (auto simp: insert_fc_def)

lemma own_addHead: "own (addHead w c) = (own c)(Theight (block w) \<mapsto> block w)"
  by (simp add: fun_eq_iff own_def addHead_def)

lemma insert_fc_ok [wf_intros]:
  assumes "forked_ok tH c"
  shows "forked_ok tH (snd (insert_fc w c))"
proof (cases "fst (insert_fc w c) = None")
  case True
  then have w: "Theight (block w) = headHeight c + 1" "TpreHash (block w) = fcHeadHash c"
    by (simp_all add: insert_fc_accepts_iff)
  then have "insert_fc w c = (None, addHead w c)" by (simp add: insert_fc_def)
  then show ?thesis
    using run_ok_append [of "own c" "tailHeight c" "headHeight c" tH "fcHeadHash c" "block w"] assms w
    by (simp add: forked_ok_def own_addHead) (simp add: addHead_def)
next
  case False
  then show ?thesis using assms by (auto simp: insert_fc_def split: if_splits)
qed

lemma own_removeTail: "own (removeTail w c) = (own c)(Theight (block w) := None)"
  by (simp add: fun_eq_iff own_def removeTail_def)

lemma removeTail_ok [wf_intros]:
  assumes "forked_ok tH c" "heightBlocks c (tailHeight c + 1) = Some w"
  shows "forked_ok (Thash (block w)) (removeTail w c)" "tailHeight (removeTail w c) = tailHeight c + 1"
    "Theight (block w) = tailHeight c + 1"
proof -
  have run: "run_ok (own c) (tailHeight c) (headHeight c) tH (fcHeadHash c)"
    using assms(1) by (simp add: forked_ok_def)
  have w: "own c (tailHeight c + 1) = Some (block w)" using assms(2) by (simp add: own_def)
  then show th: "Theight (block w) = tailHeight c + 1" using run_ok_height(1) [OF run] by simp
  then show "tailHeight (removeTail w c) = tailHeight c + 1" "forked_ok (Thash (block w)) (removeTail w c)"
    using run_ok_drop_tail [OF run w] by (simp_all add: forked_ok_def own_removeTail) (simp_all add: removeTail_def)
qed

lemma own_addTail: "own (addTail w c) = (own c)(Theight (block w) \<mapsto> block w)"
  by (simp add: fun_eq_iff own_def addTail_def)

lemma addTail_ok [wf_intros]:
  assumes "forked_ok tH c" "Thash (block w) = tH" "Theight (block w) = tailHeight c"
  shows "forked_ok (TpreHash (block w)) (addTail w c)" "tailHeight (addTail w c) = tailHeight c - 1"
  using run_ok_prepend [of "own c" "tailHeight c" "headHeight c" tH "fcHeadHash c" "block w"] assms
  by (simp_all add: forked_ok_def own_addTail) (simp_all add: addTail_def)

lemma forkChain_ok [wf_intros]:
  assumes "snippet_ok snip" "forkChain forked snip cp = (cid, cp')"
  shows "\<exists>c. chains cp' cid = Some c \<and> forked_ok (tailHash snip) c \<and> referChain c = Fork forked \<and>
    headHeight c = headHeight snip \<and> tailHeight c = tailHeight snip \<and> heightBlocks c = heightBlocks snip"
proof -
  let ?c = "\<lparr>heightBlocks = heightBlocks snip, headHeight = headHeight snip,
             tailHeight = tailHeight snip, chainId = cid,
             fcHeadHash = headHash snip, fcTailHash = '''', referChain = Fork forked\<rparr>"
  have "own ?c = own snip" by (simp add: fun_eq_iff own_def)
  then have "forked_ok (tailHash snip) ?c"
    using assms(1) by (simp add: forked_ok_def snippet_ok_def)
  moreover have "chains cp' cid = Some ?c"
    using assms(2) by (auto simp: forkChain_def split: prod.splits)
  ultimately show ?thesis by auto
qed

section \<open>Appending a whole snippet\<close>

lemma insertSnippetLoop_spec:
  assumes "snippet_ok snip" "forked_ok tH c" "tailHeight snip = headHeight c" "tailHash snip = fcHeadHash c"
  shows "\<exists>c' snip'. insertSnippetLoop [tailHeight snip + 1..headHeight snip] c snip = Some (None, c', snip') \<and>
    forked_ok tH c' \<and> headHeight c' = headHeight snip \<and> fcHeadHash c' = headHash snip \<and>
    tailHeight c' = tailHeight c \<and> referChain c' = referChain c \<and> chainId c' = chainId c \<and>
    heightBlocks c' = heightBlocks c ++ heightBlocks snip \<and> tailHeight snip' = headHeight snip'"
  using assms
proof (induction "nat (headHeight snip - tailHeight snip)" arbitrary: snip c)
  case 0
  have run: "run_ok (own snip) (tailHeight snip) (headHeight snip) (tailHash snip) (headHash snip)"
    using "0.prems"(1) by (simp add: snippet_ok_def)
  then have eq: "tailHeight snip = headHeight snip" using "0.hyps" run_okD(1) [OF run] by simp
  then have "heightBlocks snip = Map.empty"
    using run_ok_None [OF run] by (metis linorder_not_le ext own_None order_less_le)
  with eq "0.prems" show ?case using run_okD(6) [OF run] by simp
next
  case (Suc n)
  have run: "run_ok (own snip) (tailHeight snip) (headHeight snip) (tailHash snip) (headHash snip)"
    using Suc.prems(1) by (simp add: snippet_ok_def)
  have lt: "tailHeight snip + 1 \<le> headHeight snip" using Suc.hyps(2) by simp
  obtain w where w: "heightBlocks snip (tailHeight snip + 1) = Some w" "Theight (block w) = tailHeight snip + 1"
    using run_ok_get [OF run, of "tailHeight snip + 1"] lt by (auto simp: own_Some)
  have pre: "TpreHash (block w) = fcHeadHash c"
    using run_okD(4) [OF run, of "block w"] w(1) Suc.prems(4) by (simp add: own_def)
  have ins: "insert_fc w c = (None, addHead w c)"
    using w(2) pre Suc.prems(3) by (simp add: insert_fc_def)
  define snip1 where "snip1 = deleteTail w snip"
  have snip1: "snip\<lparr>heightBlocks := (heightBlocks snip)(tailHeight snip + 1 := None),
      tailHeight := Theight (block w), tailHash := Thash (block w)\<rparr> = snip1"
    using w(2) by (simp add: snip1_def deleteTail_def)
  have s1: "snippet_ok snip1" "tailHeight snip1 = tailHeight snip + 1" "headHeight snip1 = headHeight snip"
    "headHash snip1 = headHash snip" "tailHash snip1 = Thash (block w)"
    using deleteTail_ok [OF Suc.prems(1) w(1)] by (simp_all add: snip1_def) (simp_all add: deleteTail_def)
  have c1: "forked_ok tH (addHead w c)" "headHeight (addHead w c) = tailHeight snip + 1"
    "fcHeadHash (addHead w c) = Thash (block w)"
    using insert_fc_ok [OF Suc.prems(2), of w] ins w(2) by (simp_all) (simp_all add: addHead_def)
  have n: "n = nat (headHeight snip1 - tailHeight snip1)" using Suc.hyps(2) s1(2,3) by linarith
  obtain c' snip' where IH:
    "insertSnippetLoop [tailHeight snip1 + 1..headHeight snip1] (addHead w c) snip1 = Some (None, c', snip')"
    "forked_ok tH c'" "headHeight c' = headHeight snip1" "fcHeadHash c' = headHash snip1"
    "tailHeight c' = tailHeight (addHead w c)" "referChain c' = referChain (addHead w c)"
    "chainId c' = chainId (addHead w c)"
    "heightBlocks c' = heightBlocks (addHead w c) ++ heightBlocks snip1" "tailHeight snip' = headHeight snip'"
    using Suc.hyps(1) [OF n s1(1) c1(1)] s1 c1 by auto
  have "heightBlocks (addHead w c) ++ heightBlocks snip1 = heightBlocks c ++ heightBlocks snip"
    using w by (auto simp: fun_eq_iff addHead_def snip1_def deleteTail_def map_add_def split: option.splits)
  moreover have "[tailHeight snip + 1..headHeight snip] = (tailHeight snip + 1) # [tailHeight snip1 + 1..headHeight snip1]"
    using lt s1(2,3) by (simp add: upto_rec1)
  ultimately show ?case
    using IH w(1) ins snip1 s1 by (simp add: addHead_def)
qed

lemma insertSnippet_spec:
  assumes "snippet_ok snip" "chains cp cid = Some c" "forked_ok tH c"
    "tailHeight snip = headHeight c" "tailHash snip = fcHeadHash c"
  shows "\<exists>cp' c'. insertSnippet cid snip cp = Some (None, cp') \<and>
    chains cp' = (chains cp)(cid \<mapsto> c') \<and> snippetChains cp' = (snippetChains cp)(chainId snip := None) \<and>
    forked_ok tH c' \<and> headHeight c' = headHeight snip \<and> tailHeight c' = tailHeight c \<and>
    heightBlocks c' = heightBlocks c ++ heightBlocks snip"
  using insertSnippetLoop_spec [OF assms(1,3,4,5)] assms(2)
  by (fastforce simp: insertSnippet_def)

end
