(* ===== verification/Example_Chain.thy ===== *)
theory Example_Chain
  imports Chain_Invariant
begin

text \<open>
  A small concrete block chain used by the witnesses of the development: the initial chain,
  then \<open>viteshan\<close> sends 10 to \<open>jie\<close>, then \<open>jie\<close> receives it.
\<close>

definition ex_send :: AccountStateBlock where
  "ex_send = NewAccountBlock 1 ''send1'' (Thash (genesisAccountBlock ''viteshan'')) ''viteshan'' 0
     190 (-10) 0 (Thash genesisSnapshot) SEND ''viteshan'' ''jie'' '''' (-1)"

definition ex_recv :: AccountStateBlock where
  "ex_recv = NewAccountBlock 1 ''recv1'' (Thash (genesisAccountBlock ''jie'')) ''jie'' 0
     210 10 0 (Thash genesisSnapshot) RECEIVED ''viteshan'' ''jie'' ''send1'' 1"

definition ex0 :: blockchain where
  "ex0 = the NewChain"

definition ex1 :: blockchain where
  "ex1 = snd (the (InsertAccountBlock ''viteshan'' ex_send ex0))"

definition ex2 :: blockchain where
  "ex2 = snd (the (InsertAccountBlock ''jie'' ex_recv ex1))"

lemma ex_send_simps [simp]:
  "Theight ex_send = 1" "Thash ex_send = ''send1''" "TpreHash ex_send = Thash (genesisAccountBlock ''viteshan'')"
  "Tsigner ex_send = ''viteshan''" "Amount ex_send = 190" "ModifiedAmount ex_send = -10" "SnapshotHeight ex_send = 0"
  "SnapshotHash ex_send = Thash genesisSnapshot" "BlockTypeOf ex_send = SEND" "From ex_send = ''viteshan''"
  "To ex_send = ''jie''"
  by (simp_all add: ex_send_def NewAccountBlock_def)

lemma ex_recv_simps [simp]:
  "Theight ex_recv = 1" "Thash ex_recv = ''recv1''" "TpreHash ex_recv = Thash (genesisAccountBlock ''jie'')"
  "Tsigner ex_recv = ''jie''" "Amount ex_recv = 210" "ModifiedAmount ex_recv = 10" "SnapshotHeight ex_recv = 0"
  "SnapshotHash ex_recv = Thash genesisSnapshot" "BlockTypeOf ex_recv = RECEIVED" "From ex_recv = ''viteshan''"
  "To ex_recv = ''jie''" "SourceHash ex_recv = ''send1''" "SourceHeight ex_recv = 1"
  by (simp_all add: ex_recv_def NewAccountBlock_def)

lemma genesisAccountBlock_simps [simp]:
  "Theight (genesisAccountBlock a) = 0" "Amount (genesisAccountBlock a) = 200"
  "BlockTypeOf (genesisAccountBlock a) = GENESIS" "SnapshotHeight (genesisAccountBlock a) = 0"
  "ModifiedAmount (genesisAccountBlock a) = 0" "Tsigner (genesisAccountBlock a) = a"
  by (simp_all add: genesisAccountBlock_def NewAccountBlock_def SetHash_def Let_def)

lemma length_genesis_hash: "length (Thash (genesisAccountBlock a)) = 64"
  by (simp add: genesisAccountBlock_def SetHash_def Let_def CalculateAccountHash_def calculateHash_length)

lemma genesis_hash_neq [simp]: "Thash (genesisAccountBlock a) \<noteq> ''send1''" "Thash (genesisAccountBlock a) \<noteq> ''recv1''"
  using length_genesis_hash [of a] by auto

lemmas genesis_hash_neq' [simp] = genesis_hash_neq [symmetric]

lemma ex0: "NewChain = Some ex0"
  by (simp add: ex0_def NewChain_eq)

lemma ex0_simps [simp]:
  "ac ex0 = Map.empty" "HeadSnapshot ex0 = Some genesisSnapshot" "listener ex0 = defaultChainListener"
  "GetAccountByHeight (store ex0) a h =
     (if a \<in> {''viteshan'', ''jie''} \<and> h = 0 then Some (genesisAccountBlock a) else None)"
  "GetSnapshotByHeight (store ex0) i = (if i = 0 then Some genesisSnapshot else None)"
  by (auto simp: ex0_def NewChain_eq HeadSnapshot_def NewMemoryStore_heads snapshot_height.get_put)

lemma ex0_head: "a \<noteq> snapshotHeadKey \<Longrightarrow>
   acHead (acOf ex0 a) = (if a \<in> {''viteshan'', ''jie''} then Some (genesisAccountBlock a) else None)"
  by (auto simp: acOf_None newAccountChain_def) (auto simp: ex0_def NewChain_eq NewMemoryStore_heads)

lemma key_neq [simp]: "''viteshan'' \<noteq> snapshotHeadKey" "''jie'' \<noteq> snapshotHeadKey"
  "snapshotHeadKey \<noteq> ''viteshan''" "snapshotHeadKey \<noteq> ''jie''"
  by (simp_all add: snapshotHeadKey_def)

text \<open>With the default listener an insertion never panics.\<close>

lemma InsertAccountBlock_default:
  assumes "acListener (acOf bc a) = defaultChainListener"
  shows "InsertAccountBlock a b bc = Some (None, snd (the (InsertAccountBlock a b bc)))"
  using assms by (simp add: InsertAccountBlock_def insertChain_ac_def Let_def)

lemma ex1: "InsertAccountBlock ''viteshan'' ex_send ex0 = Some (None, ex1)"
  unfolding ex1_def by (rule InsertAccountBlock_default) (simp add: acOf_None)

lemma ex1_simps [simp]:
  "acHead (acOf ex1 ''viteshan'') = Some ex_send"
  "acHead (acOf ex1 ''jie'') = Some (genesisAccountBlock ''jie'')"
  "listener ex1 = defaultChainListener" "HeadSnapshot ex1 = Some genesisSnapshot"
  "ac ex1 ''jie'' = None"
  using InsertAccountBlock_other_head [OF ex1, of "''jie''"] InsertAccountBlock_Some [OF ex1]
    InsertAccountBlock_head [OF ex1] chain_invD(1) [OF chain_inv_NewChain [OF ex0]]
  by (simp_all add: ex0_head HeadSnapshot_def) (metis HeadSnapshot_def ex0_simps(2))

lemma ex2: "InsertAccountBlock ''jie'' ex_recv ex1 = Some (None, ex2)"
  unfolding ex2_def by (rule InsertAccountBlock_default) (simp add: acOf_None)

lemma ex0_reachable: "reachable ex0"
  by (rule reachable.init [OF ex0])

lemma ex1_reachable: "reachable ex1"
  by (rule reachable.step [OF ex0_reachable chain_step.InsertAccount [OF _ _ ex1]]) (simp_all add: ex0_head extends_def)

lemma ex2_reachable: "reachable ex2"
  by (rule reachable.step [OF ex1_reachable chain_step.InsertAccount [OF _ _ ex2]]) (simp_all add: extends_def)

text \<open>The chain after a send and a receive is reachable, so it is well formed.\<close>

theorem reachable_chain_inv_witness: "reachable ex2 \<and> chain_inv ex2"
  using ex2_reachable reachable_chain_inv [OF ex2_reachable] by blast

lemma ex_inv: "chain_inv ex0" "chain_inv ex1" "chain_inv ex2"
proof -
  show i0: "chain_inv ex0" by (rule chain_inv_NewChain [OF ex0])
  show i1: "chain_inv ex1"
    by (rule chain_inv_InsertAccountBlock [OF i0 _ _ ex1]) (simp_all add: ex0_head extends_def)
  show "chain_inv ex2"
    by (rule chain_inv_InsertAccountBlock [OF i1 _ _ ex2]) (simp_all add: extends_def)
qed

lemma ex_get:
  "GetAccountByHeight (store ex1) a h =
     (if a = ''viteshan'' \<and> h = 1 then Some ex_send else GetAccountByHeight (store ex0) a h)"
  "GetAccountByHeight (store ex2) a h =
     (if a = ''jie'' \<and> h = 1 then Some ex_recv else GetAccountByHeight (store ex1) a h)"
  using InsertAccountBlock_GetAccountByHeight [OF ex1 chain_invD(1) [OF ex_inv(1)]]
    InsertAccountBlock_GetAccountByHeight [OF ex2 chain_invD(1) [OF ex_inv(2)]] by simp_all

lemma ex2_simps [simp]:
  "acHead (acOf ex2 ''viteshan'') = Some ex_send" "acHead (acOf ex2 ''jie'') = Some ex_recv"
  "HeadSnapshot ex2 = Some genesisSnapshot"
  using InsertAccountBlock_other_head [OF ex2 chain_invD(1) [OF ex_inv(2)], of "''viteshan''"]
    InsertAccountBlock_Some [OF ex2] InsertAccountBlock_head [OF ex2]
  by (simp_all add: HeadSnapshot_def) (metis HeadSnapshot_def ex1_simps(4))

end
