(* ===== verification/Chain_Queries.thy ===== *)
theory Chain_Queries
  imports Example_Chain
begin

text \<open>
  What the queries of the block chain compute: the loops over the heights of an account
  chain, and the account states that the next snapshot block takes, with the fact that a
  snapshot block built from them is recorded without error. The last section proves the
  consequences of four lines of \<open>chain/account_chain.go\<close> and \<open>store/block_store.go\<close>.
\<close>

section \<open>Searching downwards\<close>

text \<open>A search down an interval finds the highest hit.\<close>

lemma find_down:
  fixes lo hi :: int
  shows "find P (map f (rev [lo..hi])) = r \<Longrightarrow>
    (case r of
       None \<Rightarrow> \<forall>i. lo \<le> i \<longrightarrow> i \<le> hi \<longrightarrow> \<not> P (f i)
     | Some b \<Rightarrow> \<exists>i. lo \<le> i \<and> i \<le> hi \<and> f i = b \<and> P b \<and> (\<forall>j. i < j \<longrightarrow> j \<le> hi \<longrightarrow> \<not> P (f j)))"
proof (induction "nat (hi - lo + 1)" arbitrary: hi r)
  case 0
  then show ?case by auto
next
  case (Suc n)
  then have le: "lo \<le> hi" by simp
  then have l: "rev [lo..hi] = hi # rev [lo..hi - 1]" by (simp add: upto_snoc)
  show ?case
  proof (cases "P (f hi)")
    case True
    then have "r = Some (f hi)" using Suc.prems by (simp add: l)
    then show ?thesis using True le by auto
  next
    case False
    then have "find P (map f (rev [lo..hi - 1])) = r" using Suc.prems by (simp add: l)
    moreover have "n = nat (hi - 1 - lo + 1)" using Suc.hyps(2) by simp
    ultimately have IH: "case r of
       None \<Rightarrow> \<forall>i. lo \<le> i \<longrightarrow> i \<le> hi - 1 \<longrightarrow> \<not> P (f i)
     | Some b \<Rightarrow> \<exists>i. lo \<le> i \<and> i \<le> hi - 1 \<and> f i = b \<and> P b \<and> (\<forall>j. i < j \<longrightarrow> j \<le> hi - 1 \<longrightarrow> \<not> P (f j))"
      using Suc.hyps(1) by blast
    show ?thesis
    proof (cases r)
      case None
      have "\<not> P (f i)" if "lo \<le> i" "i \<le> hi" for i
        using IH None False that by (cases "i = hi") auto
      with None show ?thesis by simp
    next
      case (Some b)
      then obtain i where i: "lo \<le> i" "i \<le> hi - 1" "f i = b" "P b" "\<forall>j. i < j \<longrightarrow> j \<le> hi - 1 \<longrightarrow> \<not> P (f j)"
        using IH by auto
      have "\<not> P (f j)" if "i < j" "j \<le> hi" for j
        using i(5) False that by (cases "j = hi") auto
      with i Some show ?thesis by auto
    qed
  qed
qed

lemma findAboveLoop_find:
  "(\<And>i. i \<in> set is \<Longrightarrow> get i \<noteq> None) \<Longrightarrow>
   findAboveLoop get s is = Some (find (\<lambda>b. SnapshotHeight b \<le> s) (map (\<lambda>i. the (get i)) is))"
proof (induction "is")
  case (Cons i "is")
  then obtain b where "get i = Some b" by fastforce
  with Cons show ?case by simp
qed simp

lemma getBySourceLoop_find:
  "(\<And>i. i \<in> set is \<Longrightarrow> get i \<noteq> None) \<Longrightarrow>
   getBySourceLoop get src is = Some (find (\<lambda>b. BlockTypeOf b = RECEIVED \<and> SourceHash b = src) (map (\<lambda>i. the (get i)) is))"
proof (induction "is")
  case (Cons i "is")
  then obtain b where "get i = Some b" by fastforce
  with Cons show ?case by simp
qed simp

text \<open>
  The same search on a linked chain: the result is its highest block from height \<open>lo\<close> on with
  the property, and there is none when the search fails.
\<close>

lemma chain_search:
  assumes "chain_ok get (Some b)" "0 \<le> lo"
    "r = find P (map (\<lambda>i. the (get i)) (rev [lo..Theight b]))"
  shows "case r of
      None \<Rightarrow> \<forall>h c. lo \<le> h \<longrightarrow> get h = Some c \<longrightarrow> \<not> P c
    | Some c \<Rightarrow> get (Theight c) = Some c \<and> lo \<le> Theight c \<and> P c \<and>
        (\<forall>h d. Theight c < h \<longrightarrow> get h = Some d \<longrightarrow> \<not> P d)"
proof -
  have top: "h \<le> Theight b" if "get h = Some c" for h c
    using that chain_ok_none_above [OF assms(1), of h] by (cases "h \<le> Theight b") auto
  note f = find_down [OF assms(3) [symmetric]]
  show ?thesis
  proof (cases r)
    case None
    have "\<not> P c" if "lo \<le> h" "get h = Some c" for h c
      using f None that top [OF that(2)] by force
    with None show ?thesis by simp
  next
    case (Some c)
    then obtain i where i: "lo \<le> i" "i \<le> Theight b" "the (get i) = c" "P c"
        "\<forall>j. i < j \<longrightarrow> j \<le> Theight b \<longrightarrow> \<not> P (the (get j))"
      using f by auto
    obtain d where d: "get i = Some d" "Theight d = i"
      using chain_ok_Some [OF assms(1), of i] i(1,2) assms(2) by auto
    then have c: "d = c" using i(3) by simp
    have "\<not> P e" if "Theight c < h" "get h = Some e" for h e
      using i(5) that top [OF that(2)] d(2) c by force
    then show ?thesis using Some d c i(1,4) by simp
  qed
qed

lemma chain_range_defined:
  assumes "chain_ok get (Some b)" "0 \<le> lo"
  shows "\<And>i. i \<in> set (rev [lo..Theight b]) \<Longrightarrow> get i \<noteq> None"
proof -
  fix i assume "i \<in> set (rev [lo..Theight b])"
  then show "get i \<noteq> None" using chain_ok_Some [OF assms(1), of i] assms(2) by auto
qed

text \<open>
  C12. \<open>FindAccountAboveSnapshotHeight\<close> always returns on a well-formed account chain; its
  result is the highest block of the account whose snapshot height is at most the given one,
  and it is nil exactly when there is none.
\<close>

theorem FindAccountAboveSnapshotHeight_spec:
  assumes "chain_inv bc" "a \<noteq> snapshotHeadKey"
  shows "\<exists>r. FindAccountAboveSnapshotHeight bc a sh = Some (r, touch bc a) \<and>
    (case r of
       None \<Rightarrow> \<forall>h b. GetAccountByHeight (store bc) a h = Some b \<longrightarrow> sh < SnapshotHeight b
     | Some b \<Rightarrow> GetAccountByHeight (store bc) a (Theight b) = Some b \<and> SnapshotHeight b \<le> sh \<and>
         (\<forall>h c. Theight b < h \<longrightarrow> GetAccountByHeight (store bc) a h = Some c \<longrightarrow> sh < SnapshotHeight c))"
proof -
  note i = chain_invD [OF assms(1)]
  let ?get = "GetAccountByHeight (store bc) a"
  have ok: "chain_ok ?get (acHead (acOf bc a))" and adr: "address (acOf bc a) = a"
    using i(4) [OF assms(2)] ac_wf_address [OF i(1)] by (simp_all add: account_ok_def)
  show ?thesis
  proof (cases "acHead (acOf bc a)")
    case None
    then show ?thesis using ok
      by (simp add: FindAccountAboveSnapshotHeight_def findAccountAboveSnapshotHeight_def chain_ok_def)
  next
    case (Some hd0)
    then have ok': "chain_ok ?get (Some hd0)" using ok by simp
    define r where "r = find (\<lambda>b. SnapshotHeight b \<le> sh) (map (\<lambda>i. the (?get i)) (rev [0..Theight hd0]))"
    have "findAboveLoop ?get sh (rev [0..Theight hd0]) = Some r"
      unfolding r_def by (rule findAboveLoop_find) (rule chain_range_defined [OF ok' order.refl])
    then have "FindAccountAboveSnapshotHeight bc a sh = Some (r, touch bc a)"
      using Some by (simp add: FindAccountAboveSnapshotHeight_def findAccountAboveSnapshotHeight_def adr)
    moreover have "(\<forall>h b. ?get h = Some b \<longrightarrow> 0 \<le> h)"
      using chain_ok_negative [OF ok'] by (metis linorder_not_le option.distinct(1))
    ultimately show ?thesis
      using chain_search [OF ok' order.refl r_def] by (auto simp: not_le split: option.splits)
  qed
qed

theorem FindAccountAboveSnapshotHeight_spec_witness:
  "FindAccountAboveSnapshotHeight ex2 ''jie'' 0 = Some (Some ex_recv, touch ex2 ''jie'')"
proof -
  obtain r where r: "FindAccountAboveSnapshotHeight ex2 ''jie'' 0 = Some (r, touch ex2 ''jie'')"
    "case r of
       None \<Rightarrow> \<forall>h b. GetAccountByHeight (store ex2) ''jie'' h = Some b \<longrightarrow> 0 < SnapshotHeight b
     | Some b \<Rightarrow> GetAccountByHeight (store ex2) ''jie'' (Theight b) = Some b \<and> SnapshotHeight b \<le> 0 \<and>
         (\<forall>h c. Theight b < h \<longrightarrow> GetAccountByHeight (store ex2) ''jie'' h = Some c \<longrightarrow> 0 < SnapshotHeight c)"
    using FindAccountAboveSnapshotHeight_spec [OF ex_inv(3) key_neq(2), of 0] by blast
  have top: "GetAccountByHeight (store ex2) ''jie'' 1 = Some ex_recv" by (simp add: ex_get)
  have "r = Some ex_recv"
  proof (cases r)
    case None
    then show ?thesis using r(2) top by force
  next
    case (Some b)
    then have b: "GetAccountByHeight (store ex2) ''jie'' (Theight b) = Some b" "\<not> Theight b < 1"
      using r(2) top by force+
    then show ?thesis using Some by (auto simp: ex_get split: if_splits)
  qed
  with r(1) show ?thesis by simp
qed

lemma getBySourceBlock_spec:
  assumes "chain_inv bc" "a \<noteq> snapshotHeadKey"
  shows "\<exists>r. getBySourceBlock (acOf bc a) (store bc) src = Some r \<and>
    (case r of
       None \<Rightarrow> \<forall>h b. 1 \<le> h \<longrightarrow> GetAccountByHeight (store bc) a h = Some b \<longrightarrow>
         \<not> (BlockTypeOf b = RECEIVED \<and> SourceHash b = src)
     | Some b \<Rightarrow> GetAccountByHeight (store bc) a (Theight b) = Some b \<and> 1 \<le> Theight b \<and>
         BlockTypeOf b = RECEIVED \<and> SourceHash b = src)"
proof -
  note i = chain_invD [OF assms(1)]
  let ?get = "GetAccountByHeight (store bc) a"
  let ?P = "\<lambda>b. BlockTypeOf b = RECEIVED \<and> SourceHash b = src"
  have ok: "chain_ok ?get (acHead (acOf bc a))" and adr: "address (acOf bc a) = a"
    using i(4) [OF assms(2)] ac_wf_address [OF i(1)] by (simp_all add: account_ok_def)
  show ?thesis
  proof (cases "acHead (acOf bc a)")
    case None
    then show ?thesis using ok by (simp add: getBySourceBlock_def chain_ok_def)
  next
    case (Some hd0)
    then have ok': "chain_ok ?get (Some hd0)" using ok by simp
    have lo: "(0 :: int) \<le> 1" by simp
    define r where "r = find ?P (map (\<lambda>i. the (?get i)) (rev [1..Theight hd0]))"
    have "getBySourceLoop ?get src (rev [1..Theight hd0]) = Some r"
      unfolding r_def by (rule getBySourceLoop_find) (rule chain_range_defined [OF ok' lo])
    then have "getBySourceBlock (acOf bc a) (store bc) src = Some r"
      using Some by (simp add: getBySourceBlock_def adr)
    then show ?thesis
      using chain_search [OF ok' lo r_def] by (auto split: option.splits)
  qed
qed

text \<open>
  C13. On a well-formed chain \<open>GetAccountBySourceHash\<close> always returns, and it finds a block
  exactly when the account has a block of height 1 or more that received the given send
  block. A receive block at height 0 is never found, whatever the index of sources holds.
\<close>

theorem GetAccountBySourceHash_spec:
  assumes "chain_inv bc" "a \<noteq> snapshotHeadKey"
  shows "\<exists>r. GetAccountBySourceHash_bc bc a src = Some (r, touch bc a) \<and>
    (r \<noteq> None \<longleftrightarrow> (\<exists>h b. 1 \<le> h \<and> GetAccountByHeight (store bc) a h = Some b \<and>
       BlockTypeOf b = RECEIVED \<and> SourceHash b = src))"
proof -
  obtain r where r: "getBySourceBlock (acOf bc a) (store bc) src = Some r"
    "case r of
       None \<Rightarrow> \<forall>h b. 1 \<le> h \<longrightarrow> GetAccountByHeight (store bc) a h = Some b \<longrightarrow>
         \<not> (BlockTypeOf b = RECEIVED \<and> SourceHash b = src)
     | Some b \<Rightarrow> GetAccountByHeight (store bc) a (Theight b) = Some b \<and> 1 \<le> Theight b \<and>
         BlockTypeOf b = RECEIVED \<and> SourceHash b = src"
    using getBySourceBlock_spec [OF assms, of src] by blast
  have "GetAccountBySourceHash_bc bc a src = Some (r, touch bc a)"
    by (simp add: GetAccountBySourceHash_bc_def r(1))
  then show ?thesis using r(2) by (auto split: option.splits)
qed

theorem GetAccountBySourceHash_spec_witness:
  "\<exists>b. GetAccountBySourceHash_bc ex2 ''jie'' ''send1'' = Some (Some b, touch ex2 ''jie'')"
proof -
  have "1 \<le> (1::int) \<and> GetAccountByHeight (store ex2) ''jie'' 1 = Some ex_recv \<and> BlockTypeOf ex_recv = RECEIVED \<and>
      SourceHash ex_recv = ''send1''" by (simp add: ex_get)
  then show ?thesis
    using GetAccountBySourceHash_spec [OF ex_inv(3) key_neq(2), of "''send1''"] by blast
qed

section \<open>The next snapshot\<close>

text \<open>An account state that the next snapshot block takes: the head of an account that moved since its last point.\<close>

definition unsnapped :: "accountChain \<Rightarrow> AccountStateBlock \<Rightarrow> bool" where
  "unsnapped c b \<longleftrightarrow> acHead c = Some b \<and> (\<forall>q. peek c = Some q \<longrightarrow> spAccountHeight q < Theight b)"

lemma NextSnapshotPoint_unsnapped:
  assumes "NextSnapshotPoint c = Some (i, s)" "0 \<le> i"
  shows "\<exists>b. unsnapped c b \<and> i = Theight b \<and> s = Thash b"
  using assms
  by (auto simp: NextSnapshotPoint_def unsnapped_def peek_def split: option.splits list.splits if_splits Option.bind_splits)

lemma NextSnapshotPoint_snapped:
  assumes "peek c = Some q" "acHead c = Some b" "Theight b \<le> spAccountHeight q"
  shows "NextSnapshotPoint c = Some (- 1, [])"
  using assms(3) unfolding NextSnapshotPoint_def assms(1,2) by simp

lemma nextAccounts_unsnapped:
  assumes "nextAccounts m order = Some as" "distinct order"
  shows "distinct (map Addr as) \<and>
    (\<forall>h\<in>set as. Addr h \<in> set order \<and>
       (\<exists>c b. m (Addr h) = Some c \<and> unsnapped c b \<and> Height h = Theight b \<and> Hash h = Thash b))"
  using assms
proof (induction order arbitrary: as)
  case Nil
  then show ?case by simp
next
  case (Cons k ks)
  then obtain c i s rest where r: "m k = Some c" "NextSnapshotPoint c = Some (i, s)" "nextAccounts m ks = Some rest"
      "as = (if i < 0 then rest else NewAccountHashH k s i # rest)"
    by (auto split: Option.bind_splits)
  have IH: "distinct (map Addr rest) \<and> (\<forall>h\<in>set rest. Addr h \<in> set ks \<and>
       (\<exists>c b. m (Addr h) = Some c \<and> unsnapped c b \<and> Height h = Theight b \<and> Hash h = Thash b))"
    using Cons.IH [OF r(3)] Cons.prems(2) by simp
  show ?case
  proof (cases "i < 0")
    case True
    then show ?thesis using IH r(4) by auto
  next
    case False
    then obtain b where "unsnapped c b" "i = Theight b" "s = Thash b"
      using NextSnapshotPoint_unsnapped [OF r(2)] by auto
    then show ?thesis
      using IH r(1,4) False Cons.prems(2) by (auto simp: NewAccountHashH_def)
  qed
qed

lemma nextAccounts_none:
  assumes "\<And>k. k \<in> set order \<Longrightarrow> \<exists>c i s. m k = Some c \<and> NextSnapshotPoint c = Some (i, s) \<and> i < 0"
  shows "nextAccounts m order = Some []"
  using assms
proof (induction order)
  case (Cons k ks)
  then have "nextAccounts m ks = Some []" by simp
  moreover obtain c i s where "m k = Some c" "NextSnapshotPoint c = Some (i, s)" "i < 0"
    using Cons.prems by force
  ultimately show ?case by simp
qed simp

lemma nextAccounts_all:
  assumes "nextAccounts m order = Some as" "k \<in> set order" "k \<notin> Addr ` set as"
  shows "\<exists>c i s. m k = Some c \<and> NextSnapshotPoint c = Some (i, s) \<and> i < 0"
  using assms
proof (induction order arbitrary: as)
  case (Cons j js)
  then obtain c i s rest where r: "m j = Some c" "NextSnapshotPoint c = Some (i, s)" "nextAccounts m js = Some rest"
      "as = (if i < 0 then rest else NewAccountHashH j s i # rest)"
    by (auto split: Option.bind_splits)
  show ?case
  proof (cases "k = j \<and> i < 0")
    case False
    then have "k \<in> set js" "k \<notin> Addr ` set rest"
      using Cons.prems(2,3) r(4) by (auto simp: NewAccountHashH_def split: if_splits)
    then show ?thesis using Cons.IH [OF r(3)] by blast
  qed (use r in auto)
qed simp

definition newPoint :: "SnapshotBlock \<Rightarrow> AccountHashH \<Rightarrow> SnapshotPoint" where
  "newPoint blk h = \<lparr>spSnapshotHeight = Theight blk, spSnapshotHash = Thash blk,
     spAccountHeight = Height h, spAccountHash = Hash h\<rparr>"

lemma SnapshotPoint_ac_succeeds:
  assumes "unsnapped c b" "GetAccountByHeight s (address c) (Theight b) = Some b" "0 \<le> Theight b"
    "\<And>q. q \<in> set (snapshotPoint c) \<Longrightarrow> spSnapshotHeight q < Theight blk" "Height h = Theight b" "Hash h = Thash b"
  shows "SnapshotPoint_ac (Theight blk) (Thash blk) h c s =
    Some (None, c\<lparr>snapshotPoint := newPoint blk h # snapshotPoint c\<rparr>)"
proof -
  have "\<not> (case peek c of None \<Rightarrow> False
      | Some q \<Rightarrow> Theight blk \<le> spSnapshotHeight q \<or> Height h < spAccountHeight q)"
    using assms(1,4,5) by (fastforce simp: unsnapped_def peek_def split: list.splits)
  then show ?thesis
    using assms(1,2,3,5,6) unfolding SnapshotPoint_ac_def
    by (simp add: unsnapped_def newPoint_def GetBlockByHeight_ac_def)
qed

lemma insertSnapshotPoints_succeeds:
  assumes "distinct (map Addr as)" "ac_wf bc"
    "\<And>h. h \<in> set as \<Longrightarrow> \<exists>b. unsnapped (acOf bc (Addr h)) b \<and> Height h = Theight b \<and> Hash h = Thash b \<and>
       0 \<le> Theight b \<and> GetAccountByHeight (store bc) (Addr h) (Theight b) = Some b"
    "\<And>h q. h \<in> set as \<Longrightarrow> q \<in> set (snapshotPoint (acOf bc (Addr h))) \<Longrightarrow> spSnapshotHeight q < Theight blk"
  shows "\<exists>bc'. insertSnapshotPoints blk as bc = Some (None, bc') \<and>
    (\<forall>x. x \<notin> Addr ` set as \<longrightarrow> ac bc' x = ac bc x) \<and>
    (\<forall>h\<in>set as. ac bc' (Addr h) = Some ((acOf bc (Addr h))\<lparr>snapshotPoint :=
        newPoint blk h # snapshotPoint (acOf bc (Addr h))\<rparr>))"
  using assms
proof (induction as arbitrary: bc)
  case Nil
  then show ?case by simp
next
  case (Cons h as)
  let ?a = "Addr h"
  obtain b where b: "unsnapped (acOf bc ?a) b" "Height h = Theight b" "Hash h = Thash b" "0 \<le> Theight b"
      "GetAccountByHeight (store bc) ?a (Theight b) = Some b"
    using Cons.prems(3) [of h] by auto
  define c where "c = (acOf bc ?a)\<lparr>snapshotPoint := newPoint blk h # snapshotPoint (acOf bc ?a)\<rparr>"
  define bc1 where "bc1 = (touch bc ?a)\<lparr>ac := (ac bc)(?a \<mapsto> c)\<rparr>"
  have sp: "SnapshotPoint_ac (Theight blk) (Thash blk) h (acOf bc ?a) (store bc) = Some (None, c)"
    unfolding c_def using b Cons.prems(4) [of h] ac_wf_address [OF Cons.prems(2)]
    by (intro SnapshotPoint_ac_succeeds) auto
  have upd: "acOf bc1 x = (if x = ?a then c else acOf bc x)" for x
    by (rule acOf_update) (simp_all add: bc1_def)
  have st: "store bc1 = store bc" "ac bc1 = (ac bc)(?a \<mapsto> c)" by (simp_all add: bc1_def)
  have wf1: "ac_wf bc1"
    using Cons.prems(2) ac_wf_address [OF Cons.prems(2), of ?a] by (auto simp: ac_wf_def st c_def)
  have ne: "Addr g \<noteq> ?a" if "g \<in> set as" for g
    using Cons.prems(1) that by (metis distinct.simps(2) image_eqI image_set list.simps(9))
  obtain bc' where IH: "insertSnapshotPoints blk as bc1 = Some (None, bc')"
    "\<And>x. x \<notin> Addr ` set as \<Longrightarrow> ac bc' x = ac bc1 x"
    "\<And>g. g \<in> set as \<Longrightarrow> ac bc' (Addr g) = Some ((acOf bc1 (Addr g))\<lparr>snapshotPoint :=
        newPoint blk g # snapshotPoint (acOf bc1 (Addr g))\<rparr>)"
    using Cons.IH [OF _ wf1] Cons.prems(1,3,4) ne by (fastforce simp: upd st)
  have "insertSnapshotPoints blk (h # as) bc = Some (None, bc')"
    using sp IH(1) by (simp add: bc1_def)
  moreover have "?a \<notin> Addr ` set as" using Cons.prems(1) by simp
  ultimately show ?case
    using IH(2,3) ne by (fastforce simp: upd st c_def)
qed

lemma snapshot_round_holds:
  assumes inv: "chain_inv bc" and next1: "NextAccountSnapshot bc order = Some (hh, as)"
    and order: "distinct order" "snapshotHeadKey \<notin> set order"
    and points: "\<And>a c q. ac bc a = Some c \<Longrightarrow> q \<in> set (snapshotPoint c) \<Longrightarrow> spSnapshotHeight q \<le> Height hh"
    and blk: "blk = NewSnapshotBlock (Height hh + 1) hash (Hash hh) signer t as"
  shows "extends (HeadSnapshot bc) blk \<and>
    (\<exists>bc'. InsertSnapshotBlock blk bc = Some (None, bc') \<and>
       NextAccountSnapshot bc' order = Some (\<lparr>Hash = hash, Height = Height hh + 1\<rparr>, []))"
proof -
  note i = chain_invD [OF inv]
  obtain hd0 where hd0: "scHead (sc bc) = Some hd0" "hh = \<lparr>Hash = Thash hd0, Height = Theight hd0\<rparr>"
      "nextAccounts (ac bc) order = Some as"
    using next1 by (auto simp: NextAccountSnapshot_def split: Option.bind_splits)
  have b: "Theight blk = Height hh + 1" "TpreHash blk = Hash hh" "Accounts blk = as" "Thash blk = hash"
    by (simp_all add: blk NewSnapshotBlock_def)
  have ext: "extends (HeadSnapshot bc) blk"
    using hd0 b by (simp add: extends_def HeadSnapshot_def)
  define bc1 where "bc1 = bc\<lparr>sc := fst (insertChain_sc blk (store bc)), store := snd (insertChain_sc blk (store bc))\<rparr>"
  have ac1: "ac bc1 = ac bc" "ac_wf bc1" using i(1) by (simp_all add: bc1_def ac_wf_def)
  have get1: "GetAccountByHeight (store bc1) = GetAccountByHeight (store bc)"
    by (simp add: fun_eq_iff bc1_def insertChain_sc_def)
  note un = nextAccounts_unsnapped [OF hd0(3) order(1)]
  have acc: "\<exists>c b. ac bc (Addr h) = Some c \<and> acOf bc1 (Addr h) = c \<and> unsnapped c b \<and> Height h = Theight b \<and>
      Hash h = Thash b \<and> 0 \<le> Theight b \<and> GetAccountByHeight (store bc) (Addr h) (Theight b) = Some b" if h: "h \<in> set as" for h
  proof -
    obtain c b where c: "ac bc (Addr h) = Some c" "unsnapped c b" "Height h = Theight b" "Hash h = Thash b"
      and ne: "Addr h \<noteq> snapshotHeadKey"
      using un h order(2) by metis
    then have "chain_ok (GetAccountByHeight (store bc) (Addr h)) (Some b)"
      using i(4) [OF ne] by (simp add: account_ok_def unsnapped_def)
    then have "0 \<le> Theight b \<and> GetAccountByHeight (store bc) (Addr h) (Theight b) = Some b"
      using chain_okD(1,2) by blast
    moreover have "acOf bc1 (Addr h) = c" using c(1) ac1(1) by simp
    ultimately show ?thesis using c by blast
  qed
  have "\<exists>bc'. insertSnapshotPoints blk as bc1 = Some (None, bc') \<and>
    (\<forall>x. x \<notin> Addr ` set as \<longrightarrow> ac bc' x = ac bc1 x) \<and>
    (\<forall>h\<in>set as. ac bc' (Addr h) = Some ((acOf bc1 (Addr h))\<lparr>snapshotPoint :=
        newPoint blk h # snapshotPoint (acOf bc1 (Addr h))\<rparr>))"
  proof (rule insertSnapshotPoints_succeeds [OF _ ac1(2)])
    show "distinct (map Addr as)" using un by simp
    show "\<exists>b. unsnapped (acOf bc1 (Addr h)) b \<and> Height h = Theight b \<and> Hash h = Thash b \<and>
       0 \<le> Theight b \<and> GetAccountByHeight (store bc1) (Addr h) (Theight b) = Some b" if "h \<in> set as" for h
      using acc [OF that] by (auto simp: get1)
    show "spSnapshotHeight q < Theight blk" if "h \<in> set as" "q \<in> set (snapshotPoint (acOf bc1 (Addr h)))" for h q
      using acc [OF that(1)] points that(2) b(1) by fastforce
  qed
  then obtain bc' where bc': "insertSnapshotPoints blk as bc1 = Some (None, bc')"
    "\<And>x. x \<notin> Addr ` set as \<Longrightarrow> ac bc' x = ac bc x"
    "\<And>h. h \<in> set as \<Longrightarrow> ac bc' (Addr h) = Some ((acOf bc1 (Addr h))\<lparr>snapshotPoint :=
        newPoint blk h # snapshotPoint (acOf bc1 (Addr h))\<rparr>)"
    unfolding ac1(1) by blast
  have ins: "InsertSnapshotBlock blk bc = Some (None, bc')"
    using bc'(1) b(3) by (simp add: InsertSnapshotBlock_def bc1_def case_prod_beta)
  have "nextAccounts (ac bc') order = Some []"
  proof (rule nextAccounts_none)
    fix k assume k: "k \<in> set order"
    show "\<exists>c i s. ac bc' k = Some c \<and> NextSnapshotPoint c = Some (i, s) \<and> i < 0"
    proof (cases "k \<in> Addr ` set as")
      case False
      then show ?thesis using nextAccounts_all [OF hd0(3) k] bc'(2) by simp
    next
      case True
      then obtain h c b' where h: "h \<in> set as" "k = Addr h" "acOf bc1 k = c" "unsnapped c b'" "Height h = Theight b'"
        using acc by blast
      then have "NextSnapshotPoint (c\<lparr>snapshotPoint := newPoint blk h # snapshotPoint c\<rparr>) = Some (- 1, [])"
        by (intro NextSnapshotPoint_snapped [of _ "newPoint blk h" b']) (simp_all add: unsnapped_def newPoint_def)
      then show ?thesis using bc'(3) [OF h(1)] h(2,3) by simp
    qed
  qed
  moreover have "scHead (sc bc') = Some blk" using InsertSnapshotBlock_Some(1) [OF ins] .
  ultimately have "NextAccountSnapshot bc' order = Some (\<lparr>Hash = hash, Height = Height hh + 1\<rparr>, [])"
    using b by (simp add: NextAccountSnapshot_def)
  with ext ins show ?thesis by blast
qed

text \<open>
  C4. A snapshot block built from what \<open>NextAccountSnapshot\<close> returns is the next block of the
  snapshot chain and is inserted without error and without panic; afterwards every account is
  snapped: the next call returns no account, with the new block as the snapshot to build on.
  The hypothesis is that no account has a snapshot point above the current snapshot head: a
  fork can leave such points behind, and then \<open>SnapshotPoint\<close> reports an error.
\<close>

theorem snapshot_round:
  assumes inv: "chain_inv bc" and next1: "NextAccountSnapshot bc order = Some (hh, as)"
    and order: "distinct order" "snapshotHeadKey \<notin> set order"
    and points: "\<And>a c q. ac bc a = Some c \<Longrightarrow> q \<in> set (snapshotPoint c) \<Longrightarrow> spSnapshotHeight q \<le> Height hh"
    and blk: "blk = NewSnapshotBlock (Height hh + 1) hash (Hash hh) signer t as"
  shows "extends (HeadSnapshot bc) blk \<and>
    (\<exists>bc'. InsertSnapshotBlock blk bc = Some (None, bc') \<and>
       NextAccountSnapshot bc' order = Some (\<lparr>Hash = hash, Height = Height hh + 1\<rparr>, []))"
  using assms by (rule snapshot_round_holds)

lemma ex2_ac:
  obtains c d where "ac ex2 = [''viteshan'' \<mapsto> c, ''jie'' \<mapsto> d]" "snapshotPoint c = []" "snapshotPoint d = []"
    "acHead c = Some ex_send" "acHead d = Some ex_recv"
proof -
  have e: "ac ex1 = [''viteshan'' \<mapsto> (acOf ex0 ''viteshan'')\<lparr>acHead := Some ex_send\<rparr>]"
    "ac ex2 = (ac ex1)(''jie'' \<mapsto> (acOf ex1 ''jie'')\<lparr>acHead := Some ex_recv\<rparr>)"
    using InsertAccountBlock_Some(2) [OF ex1] InsertAccountBlock_Some(2) [OF ex2] by simp_all
  have "snapshotPoint (acOf ex0 ''viteshan'') = []" "snapshotPoint (acOf ex1 ''jie'') = []"
    by (simp_all add: acOf_None)
  then show ?thesis using e that by simp
qed

lemma ex2_next:
  "NextAccountSnapshot ex2 [''viteshan'', ''jie''] =
     Some (\<lparr>Hash = Thash genesisSnapshot, Height = 0\<rparr>,
       [NewAccountHashH ''viteshan'' ''send1'' 1, NewAccountHashH ''jie'' ''recv1'' 1])"
proof (rule ex2_ac)
  fix c d
  assume "ac ex2 = [''viteshan'' \<mapsto> c, ''jie'' \<mapsto> d]" "snapshotPoint c = []" "snapshotPoint d = []"
    "acHead c = Some ex_send" "acHead d = Some ex_recv"
  then show ?thesis
    using ex2_simps(3) by (simp add: HeadSnapshot_def NextAccountSnapshot_def NextSnapshotPoint_def peek_def)
qed

lemma ex2_points:
  assumes "ac ex2 a = Some c" "q \<in> set (snapshotPoint c)"
  shows "spSnapshotHeight q \<le> 0"
  by (rule ex2_ac) (use assms in \<open>auto split: if_splits\<close>)

theorem snapshot_round_witness:
  "\<exists>bc'. InsertSnapshotBlock
      (NewSnapshotBlock 1 ''snap1'' (Thash genesisSnapshot) ''viteshan'' 0
        [NewAccountHashH ''viteshan'' ''send1'' 1, NewAccountHashH ''jie'' ''recv1'' 1]) ex2 = Some (None, bc') \<and>
    NextAccountSnapshot bc' [''viteshan'', ''jie''] = Some (\<lparr>Hash = ''snap1'', Height = 1\<rparr>, [])"
proof -
  have "spSnapshotHeight q \<le> 0" if "ac ex2 a = Some c" "q \<in> set (snapshotPoint c)" for a c q
    using ex2_points [OF that] .
  then show ?thesis
    using snapshot_round [OF ex_inv(3) ex2_next, of _ "''snap1''" "''viteshan''" 0] by simp
qed

section \<open>Removal and rollback as they are coded\<close>

lemma RemoveAccountHead_leaves_head:
  assumes "ac_wf bc" "acHead (acOf bc a) = Some b" "GetAccountByHash (store bc) (Thash b) = Some b"
    "\<not> hasSnapshotPoint (acOf bc a) (Theight b) (Thash b)" "RemoveAccountHead a b bc = Some (e, bc')"
  shows "e = None \<and> acHead (acOf bc' a) = Some b \<and> GetAccountByHeight (store bc') a (Theight b) = None \<and>
    GetAccountByHash (store bc') (Thash b) = None \<and> \<not> account_ok bc' a"
proof -
  have adr: "address (acOf bc a) = a" using ac_wf_address [OF assms(1)] .
  obtain c s p where r: "removeChain_ac b (acOf bc a) (store bc) (reqs bc) = Some (e, c, s, p)"
    and bc': "bc' = bc\<lparr>ac := (ac bc)(a \<mapsto> c), store := s, reqs := p\<rparr>"
    using assms(5) by (auto simp: RemoveAccountHead_def split: Option.bind_splits)
  have c: "e = None \<and> acHead c = Some b \<and> GetAccountByHeight s a (Theight b) = None \<and> GetAccountByHash s (Thash b) = None"
    using r assms(3,4)
    by (auto simp: removeChain_ac_def Let_def adr GetAccountByHeight_DeleteAccount account_hash.get_del
        split: Option.bind_splits if_splits)
  then have "acHead (acOf bc' a) = Some b" "GetAccountByHeight (store bc') a (Theight b) = None"
    "GetAccountByHash (store bc') (Thash b) = None" by (simp_all add: bc')
  moreover from this have "\<not> account_ok bc' a" using chain_okD(2) by (fastforce simp: account_ok_def)
  ultimately show ?thesis using c by simp
qed

text \<open>
  Removing the head block of an account chain, when no snapshot point protects it,
  deletes the block from both indexes but leaves it the head of the chain: \<open>removeChain\<close>
  looks up the hash of the removed block where it means the hash of its predecessor. The
  account chain is not well formed afterwards, and the block below never becomes the head.
\<close>

theorem RemoveAccountHead_keeps_removed_head:
  assumes "ac_wf bc" "acHead (acOf bc a) = Some b" "GetAccountByHash (store bc) (Thash b) = Some b"
    "\<not> hasSnapshotPoint (acOf bc a) (Theight b) (Thash b)" "RemoveAccountHead a b bc = Some (e, bc')"
  shows "e = None \<and> acHead (acOf bc' a) = Some b \<and> GetAccountByHeight (store bc') a (Theight b) = None \<and>
    GetAccountByHash (store bc') (Thash b) = None \<and> \<not> account_ok bc' a"
  using assms by (rule RemoveAccountHead_leaves_head)

lemma ex1_hash: "GetAccountByHash (store ex1) ''send1'' = Some ex_send"
  using InsertAccountBlock_Some(5) [OF ex1] insertChain_ac_Some(7) [of ex_send] by auto

theorem RemoveAccountHead_keeps_removed_head_witness:
  "\<exists>bc'. RemoveAccountHead ''viteshan'' ex_send ex1 = Some (None, bc') \<and>
     acHead (acOf bc' ''viteshan'') = Some ex_send \<and> \<not> account_ok bc' ''viteshan''"
proof -
  have ac1: "acOf ex1 ''viteshan'' = (acOf ex0 ''viteshan'')\<lparr>acHead := Some ex_send\<rparr>"
    using InsertAccountBlock_Some(2) [OF ex1] by simp
  then have no: "\<not> hasSnapshotPoint (acOf ex1 ''viteshan'') (Theight ex_send) (Thash ex_send)"
    by (simp add: hasSnapshotPoint_def peek_def acOf_None)
  obtain e bc' where rem: "RemoveAccountHead ''viteshan'' ex_send ex1 = Some (e, bc')"
    using no by (auto simp: RemoveAccountHead_def removeChain_ac_def Let_def ac1 acOf_None)
  then show ?thesis
    using RemoveAccountHead_keeps_removed_head [OF chain_invD(1) [OF ex_inv(2)] _ _ no rem] ex1_hash by auto
qed

text \<open>
  Rolling the snapshot points of an account back from its latest point to an older one
  with a lower account height reports success and removes nothing: the loop stops as soon as
  the point on top is above the target.
\<close>

theorem RollbackSnapshotPoint_removes_nothing:
  assumes "snapshotPoint (acOf bc a) = p # ps" "spAccountHeight q < spAccountHeight p"
  shows "\<exists>bc'. RollbackSnapshotPoint a (Some p) (Some q) bc = Some (None, bc') \<and> acOf bc' x = acOf bc x"
proof -
  have "RollbackSnapshotPoint_ac (Some p) (Some q) (acOf bc a) = Some (None, acOf bc a)"
    using assms by (simp add: RollbackSnapshotPoint_ac_def peek_def)
  then have "RollbackSnapshotPoint a (Some p) (Some q) bc = Some (None, bc\<lparr>ac := (ac bc)(a \<mapsto> acOf bc a)\<rparr>)"
    by (simp add: RollbackSnapshotPoint_def)
  moreover have "acOf (bc\<lparr>ac := (ac bc)(a \<mapsto> acOf bc a)\<rparr>) x = acOf bc x"
    using acOf_update [of "bc\<lparr>ac := (ac bc)(a \<mapsto> acOf bc a)\<rparr>" bc a "acOf bc a" x] by simp
  ultimately show ?thesis by blast
qed

definition ex_point :: "int \<Rightarrow> SnapshotPoint" where
  "ex_point h = \<lparr>spSnapshotHeight = h, spSnapshotHash = ''s'', spAccountHeight = h, spAccountHash = ''a''\<rparr>"

theorem RollbackSnapshotPoint_removes_nothing_witness:
  "\<exists>bc'. RollbackSnapshotPoint ''jie'' (Some (ex_point 2)) (Some (ex_point 1))
      (ex0\<lparr>ac := [''jie'' \<mapsto> \<lparr>address = ''jie'', acHead = None, acListener = defaultChainListener,
         snapshotPoint = [ex_point 2, ex_point 1]\<rparr>]\<rparr>) = Some (None, bc') \<and>
    snapshotPoint (acOf bc' ''jie'') = [ex_point 2, ex_point 1]"
proof -
  let ?bc = "ex0\<lparr>ac := [''jie'' \<mapsto> \<lparr>address = ''jie'', acHead = None, acListener = defaultChainListener,
         snapshotPoint = [ex_point 2, ex_point 1]\<rparr>]\<rparr>"
  have p: "snapshotPoint (acOf ?bc ''jie'') = [ex_point 2, ex_point 1]" by simp
  have "spAccountHeight (ex_point 1) < spAccountHeight (ex_point 2)" by (simp add: ex_point_def)
  from RollbackSnapshotPoint_removes_nothing [OF p this, of "''jie''"] p show ?thesis by metis
qed

text \<open>
  The heads of account chains share a table with the head of the snapshot chain, whose
  key is itself a possible address: a block of the account \<open>s_head_key\<close> overwrites the stored
  snapshot head, and every block of another account leaves it alone.
\<close>

theorem InsertAccountBlock_snapshot_head:
  assumes "ac_wf bc" "InsertAccountBlock a b bc = Some (e, bc')"
  shows "GetSnapshotHead (store bc') =
    (if a = snapshotHeadKey then Some \<lparr>Hash = Thash b, Height = Theight b\<rparr> else GetSnapshotHead (store bc))"
proof -
  obtain c' where ins: "insertChain_ac b (acOf bc a) (store bc) (reqs bc) = Some (c', store bc', reqs bc')"
    using InsertAccountBlock_Some(5) [OF assms(2)] by blast
  show ?thesis
    using insertChain_ac_Some(6) [OF ins, of snapshotHeadKey] ac_wf_address [OF assms(1), of a]
    by (auto simp: GetSnapshotHead_eq)
qed

theorem InsertAccountBlock_snapshot_head_witness:
  "\<exists>bc'. InsertAccountBlock snapshotHeadKey ex_send ex0 = Some (None, bc') \<and>
     GetSnapshotHead (store bc') = Some \<lparr>Hash = ''send1'', Height = 1\<rparr>"
proof -
  have "acListener (acOf ex0 snapshotHeadKey) = defaultChainListener" by (simp add: acOf_None)
  note ins = InsertAccountBlock_default [OF this, of ex_send]
  show ?thesis
    using InsertAccountBlock_snapshot_head [OF chain_invD(1) [OF ex_inv(1)] ins] ins by auto
qed

end
