(* ===== verification/Verifier_Props.thy ===== *)
theory Verifier_Props
  imports Verifier Chain_Queries
begin

text \<open>
  Correctness of the verifiers: verification leaves the chain as every reader sees it, the
  result SUCCESS of the account verifier is characterised by conditions on the chain, an
  accepted amount is exact in spite of the 64-bit arithmetic, and the snapshot verifier
  succeeds, fails or waits for exactly the right accounts. The last section proves what the
  account verifier does not check.
\<close>

section \<open>Verification only reads\<close>

text \<open>Two block chains that no read can tell apart.\<close>

definition same_chain :: "blockchain \<Rightarrow> blockchain \<Rightarrow> bool" where
  "same_chain bc bc' \<longleftrightarrow> store bc' = store bc \<and> sc bc' = sc bc \<and> listener bc' = listener bc \<and>
     reqs bc' = reqs bc \<and> (\<forall>a. acOf bc' a = acOf bc a)"

lemma same_chain_refl [simp]: "same_chain bc bc"
  by (simp add: same_chain_def)

lemma same_chain_touch [simp]: "same_chain bc (touch bc' a) = same_chain bc bc'"
  by (simp add: same_chain_def)

lemma same_chain_trans: "same_chain a b \<Longrightarrow> same_chain b c \<Longrightarrow> same_chain a c"
  by (simp add: same_chain_def)

lemma same_chain_sym: "same_chain a b \<Longrightarrow> same_chain b a"
  by (simp add: same_chain_def)

lemma same_chainD:
  assumes "same_chain bc bc'"
  shows "store bc' = store bc" "acOf bc' a = acOf bc a" "sc bc' = sc bc"
  using assms by (simp_all add: same_chain_def)

lemma checkSelfAmount_same: "checkSelfAmount b st bc = (r, st', bc') \<Longrightarrow> same_chain bc bc'"
  by (auto simp: checkSelfAmount_def HeadAccount_def split: option.splits if_splits)

lemma checkFromAmount_same: "checkFromAmount b st bc = (r, st', bc') \<Longrightarrow> same_chain bc bc'"
  by (auto simp: checkFromAmount_def GetAccountByHeight_bc_def GetAccountByHash_bc_def Let_def
      split: option.splits if_splits)

text \<open>The two ways through \<open>verifySelf\<close> for a block that does not open an account.\<close>

definition opens_account :: "AccountStateBlock \<Rightarrow> bool" where
  "opens_account b \<longleftrightarrow> BlockTypeOf b = RECEIVED \<and> Theight b = 0"

lemma verifySelf_cases:
  assumes "verifySelf b st bc = Some (stop, st', bc')" "\<not> opens_account b"
  obtains (received) x bc1 where "same_chain bc bc1" "BlockTypeOf b = RECEIVED"
      "getBySourceBlock (acOf bc (To b)) (store bc) (SourceHash b) = Some (Some x)" "stop" "bc' = bc1"
      "referredSelfResult st' = FAIL" "referredSnapshotResult st' = referredSnapshotResult st"
      "referredFromResult st' = referredFromResult st"
  | (amount) bc1 r st1 where "same_chain bc bc1"
      "BlockTypeOf b = RECEIVED \<longrightarrow> getBySourceBlock (acOf bc (To b)) (store bc) (SourceHash b) = Some None"
      "checkSelfAmount b st bc1 = (r, st1, bc')" "stop = (r = FAIL)" "st' = st1\<lparr>referredSelfResult := r\<rparr>"
proof -
  obtain same bc1 where same: "(if BlockTypeOf b = RECEIVED
      then GetAccountBySourceHash_bc bc (To b) (SourceHash b) else Some (None, bc)) = Some (same, bc1)"
    using assms by (auto simp: verifySelf_def opens_account_def split: Option.bind_splits if_splits)
  have bc1: "same_chain bc bc1" "BlockTypeOf b = RECEIVED \<Longrightarrow>
      getBySourceBlock (acOf bc (To b)) (store bc) (SourceHash b) = Some same"
    "BlockTypeOf b \<noteq> RECEIVED \<Longrightarrow> same = None"
    using same by (auto simp: GetAccountBySourceHash_bc_def split: if_splits Option.bind_splits)
  show ?thesis
  proof (cases same)
    case (Some x)
    then have t: "BlockTypeOf b = RECEIVED" using bc1(3) by auto
    show ?thesis
      by (rule received [OF bc1(1) t]) (use assms bc1(2) t Some same in \<open>auto simp: verifySelf_def opens_account_def\<close>)
  next
    case None
    obtain r st1 bc2 where chk: "checkSelfAmount b st bc1 = (r, st1, bc2)" by (cases "checkSelfAmount b st bc1") auto
    show ?thesis
      by (rule amount [OF bc1(1), of r st1])
        (use assms bc1(2) None same chk in \<open>auto simp: verifySelf_def opens_account_def\<close>)
  qed
qed

lemma verifySelf_same:
  assumes "verifySelf b st bc = Some (stop, st', bc')"
  shows "same_chain bc bc'"
proof (cases "opens_account b")
  case True
  then show ?thesis using assms
    by (auto simp: verifySelf_def opens_account_def checkGenesis_def HeadAccount_def split: if_splits)
next
  case False
  from assms False show ?thesis
    by (rule verifySelf_cases) (use checkSelfAmount_same same_chain_trans in blast)+
qed

lemma verifyFrom_same: "verifyFrom b st bc = (stop, st', bc') \<Longrightarrow> same_chain bc bc'"
  using checkFromAmount_same by (auto simp: verifyFrom_def split: if_splits prod.splits)

lemma VerifyReferred_ac_same:
  assumes "VerifyReferred_ac ver now b bc = Some (st, bc')"
  shows "same_chain bc bc'"
  using assms verifySelf_same verifyFrom_same same_chain_trans
  by (fastforce simp: VerifyReferred_ac_def Let_def split: if_splits prod.splits Option.bind_splits)

lemma verifyAccountsLoop_same:
  "verifyAccountsLoop as i task st bc = (f, j, task', st', bc') \<Longrightarrow> same_chain bc bc'"
proof (induction as i task st bc rule: verifyAccountsLoop.induct)
  case (2 v vs i task st bc)
  let ?bc1 = "touch bc (Addr v)"
  have s: "same_chain bc bc'" if "same_chain ?bc1 bc'" using same_chain_trans [of bc ?bc1 bc'] that by simp
  show ?case
  proof (cases "GetBlockByHeight_ac (acOf bc (Addr v)) (store bc) (Height v)")
    case None
    then show ?thesis using 2 s by (simp add: GetAccountByHeight_bc_def)
  next
    case (Some b)
    then show ?thesis using 2 s by (cases "Thash b = Hash v") (simp_all add: GetAccountByHeight_bc_def)
  qed
qed simp

lemma VerifyReferred_sn_same: "VerifyReferred_sn ver now b bc = (st, bc') \<Longrightarrow> same_chain bc bc'"
  using verifyAccountsLoop_same
  by (fastforce simp: VerifyReferred_sn_def Let_def split: prod.splits if_splits)

section \<open>When an account block is accepted\<close>

text \<open>The conditions on the chain, in the order in which the verifier checks them.\<close>

definition snapshot_known :: "blockchain \<Rightarrow> AccountStateBlock \<Rightarrow> bool" where
  "snapshot_known bc b \<longleftrightarrow>
     0 \<le> SnapshotHeight b \<and>
     (\<exists>s. GetSnapshotByHeight (store bc) (SnapshotHeight b) = Some s \<and> Thash s = SnapshotHash b)"

definition follows :: "AccountStateBlock \<Rightarrow> AccountStateBlock \<Rightarrow> bool" where
  "follows l b \<longleftrightarrow> Thash l = TpreHash b \<and> SnapshotHeight l \<le> SnapshotHeight b \<and>
     (BlockTypeOf b = SEND \<longrightarrow> ModifiedAmount b \<le> 0) \<and> (BlockTypeOf b = RECEIVED \<longrightarrow> 0 \<le> ModifiedAmount b) \<and>
     wrap64 (Amount l + ModifiedAmount b) = Amount b \<and> 0 < Amount b"

definition self_ok :: "blockchain \<Rightarrow> AccountStateBlock \<Rightarrow> bool" where
  "self_ok bc b \<longleftrightarrow>
     (if opens_account b
      then acHead (acOf bc (Tsigner b)) = None \<and> TpreHash b = '''' \<and> ModifiedAmount b = Amount b
      else (BlockTypeOf b = RECEIVED \<longrightarrow>
              getBySourceBlock (acOf bc (To b)) (store bc) (SourceHash b) = Some None) \<and>
           (\<exists>l. acHead (acOf bc (Tsigner b)) = Some l \<and> follows l b))"

definition source_ok :: "AccountStateBlock \<Rightarrow> AccountStateBlock \<Rightarrow> bool" where
  "source_ok src b \<longleftrightarrow> Thash src = SourceHash b \<and> SnapshotHeight src \<le> SnapshotHeight b \<and>
     wrap64 (ModifiedAmount src + ModifiedAmount b) = 0"

definition from_ok :: "blockchain \<Rightarrow> AccountStateBlock \<Rightarrow> bool" where
  "from_ok bc b \<longleftrightarrow>
     (BlockTypeOf b = RECEIVED \<longrightarrow>
       (\<exists>src. GetBlockByHeight_ac (acOf bc (From b)) (store bc) (SourceHeight b) = Some src \<and> source_ok src b \<and>
          (\<forall>s2. GetAccountByHash (store bc) (SourceHash b) = Some s2 \<longrightarrow> Thash s2 = Thash src)))"

lemma verifySnapshot_iff:
  "verifySnapshot b st bc = (stop, st') \<Longrightarrow>
   \<not> stop \<and> (referredSnapshotResult st' = SUCCESS \<longleftrightarrow> snapshot_known bc b) \<and> referredSnapshotResult st' \<noteq> FAIL \<and>
   referredSelfResult st' = referredSelfResult st \<and> referredFromResult st' = referredFromResult st"
  by (auto simp: verifySnapshot_def GetSnapshotByHashH_def GetBlockByHashH_sc_def snapshot_known_def
      split: option.splits if_splits)

lemma checkSelfAmount_iff:
  assumes "checkSelfAmount b st bc = (r, st', bc')"
  shows "(r = SUCCESS \<longleftrightarrow> (\<exists>l. acHead (acOf bc (Tsigner b)) = Some l \<and> follows l b)) \<and> r \<noteq> PENDING \<and>
    referredSnapshotResult st' = referredSnapshotResult st \<and> referredFromResult st' = referredFromResult st"
  using assms by (auto simp: checkSelfAmount_def HeadAccount_def follows_def split: option.splits if_splits)

lemma checkFromAmount_iff:
  assumes "checkFromAmount b st bc = (r, st', bc')" "BlockTypeOf b = RECEIVED"
  shows "(r = SUCCESS \<longleftrightarrow> from_ok bc b) \<and>
    referredSnapshotResult st' = referredSnapshotResult st \<and> referredSelfResult st' = referredSelfResult st"
  using assms
  by (auto simp: checkFromAmount_def GetAccountByHeight_bc_def GetAccountByHash_bc_def GetBlockByHash_ac_def Let_def
      from_ok_def source_ok_def split: option.splits if_splits)

lemma verifySelf_iff:
  assumes "verifySelf b st bc = Some (stop, st', bc')"
  shows "(referredSelfResult st' = SUCCESS \<longleftrightarrow> self_ok bc b) \<and> stop = (referredSelfResult st' = FAIL) \<and>
    referredSelfResult st' \<noteq> PENDING \<and>
    referredSnapshotResult st' = referredSnapshotResult st \<and> referredFromResult st' = referredFromResult st"
proof (cases "opens_account b")
  case True
  then show ?thesis using assms
    by (auto simp: verifySelf_def opens_account_def self_ok_def checkGenesis_def HeadAccount_def split: if_splits)
next
  case False
  from assms False show ?thesis
  proof (rule verifySelf_cases)
    fix bc1 r st1
    assume "same_chain bc bc1" "checkSelfAmount b st bc1 = (r, st1, bc')" "stop = (r = FAIL)"
      "st' = st1\<lparr>referredSelfResult := r\<rparr>"
      "BlockTypeOf b = RECEIVED \<longrightarrow> getBySourceBlock (acOf bc (To b)) (store bc) (SourceHash b) = Some None"
    then show ?thesis
      using checkSelfAmount_iff [of b st bc1 r st1 bc'] False same_chainD(2) [of bc bc1]
      by (auto simp: self_ok_def)
  qed (use False in \<open>auto simp: self_ok_def\<close>)
qed

lemma from_ok_same:
  assumes "same_chain bc bc'"
  shows "from_ok bc' b = from_ok bc b"
  using same_chainD [OF assms] by (simp add: from_ok_def)

lemma verifyFrom_iff:
  assumes "verifyFrom b st bc = (stop, st', bc')"
  shows "(referredFromResult st' = SUCCESS \<longleftrightarrow> from_ok bc b) \<and>
    referredSnapshotResult st' = referredSnapshotResult st \<and> referredSelfResult st' = referredSelfResult st"
proof (cases "BlockTypeOf b = RECEIVED")
  case True
  obtain r st1 bc1 where chk: "checkFromAmount b st bc = (r, st1, bc1)" by (cases "checkFromAmount b st bc") auto
  then show ?thesis using checkFromAmount_iff [OF chk True] assms True by (auto simp: verifyFrom_def)
next
  case False
  then show ?thesis using assms by (auto simp: verifyFrom_def from_ok_def)
qed

text \<open>The characterisation, as the proofs below use it.\<close>

lemma VerifyReferred_ac_SUCCESS_iff':
  assumes "VerifyReferred_ac ver now b bc = Some (st, bc')" "BlockTypeOf b \<noteq> GENESIS"
  shows "VerifyResult_ac st = SUCCESS \<longleftrightarrow> snapshot_known bc b \<and> self_ok bc b \<and> from_ok bc b"
proof -
  let ?st0 = "newVerifyStat_ac ver now"
  obtain s1 st1 where sn: "verifySnapshot b ?st0 bc = (s1, st1)" by (cases "verifySnapshot b ?st0 bc") auto
  note sn' = verifySnapshot_iff [OF sn]
  obtain s2 st2 bc2 where sf: "verifySelf b st1 bc = Some (s2, st2, bc2)"
    using assms sn sn' by (auto simp: VerifyReferred_ac_def Let_def split: Option.bind_splits)
  note sf' = verifySelf_iff [OF sf]
  have p: "referredFromResult st2 = PENDING" using sf' sn' by (simp add: newVerifyStat_ac_def)
  show ?thesis
  proof (cases s2)
    case True
    then have "st = st2" using assms sn sn' sf by (simp add: VerifyReferred_ac_def Let_def)
    then show ?thesis using True sf' by (auto simp: VerifyResult_ac_def)
  next
    case False
    obtain s3 st3 bc3 where fr: "verifyFrom b st2 bc2 = (s3, st3, bc3)" by (cases "verifyFrom b st2 bc2") auto
    have "st = st3" using assms sn sn' sf fr False by (simp add: VerifyReferred_ac_def Let_def)
    then show ?thesis
      using sn' sf' verifyFrom_iff [OF fr] from_ok_same [OF verifySelf_same [OF sf]]
      by (auto simp: VerifyResult_ac_def)
  qed
qed

text \<open>A block of the genesis type is compared with the list of the genesis snapshot only.\<close>

definition genesis_listed :: "AccountStateBlock \<Rightarrow> bool" where
  "genesis_listed b \<longleftrightarrow> (\<exists>a \<in> set (Accounts genesisSnapshot). Hash a = Thash b \<and> Height a = Theight b)"

lemma VerifyReferred_ac_genesis:
  assumes "VerifyReferred_ac ver now b bc = Some (st, bc')" "BlockTypeOf b = GENESIS"
  shows "VerifyResult_ac st = SUCCESS \<longleftrightarrow> genesis_listed b"
proof -
  have "st = snd (verifyGenesis b (newVerifyStat_ac ver now))"
    using assms by (auto simp: VerifyReferred_ac_def Let_def verifyGenesis_def split: if_splits)
  then show ?thesis by (simp add: verifyGenesis_def VerifyResult_ac_def genesis_listed_def list_ex_iff)
qed

text \<open>
  C2. The account verifier accepts a block that is not of the genesis type exactly when the
  snapshot block it refers to is on the chain, it opens an empty account or follows the head
  of its account with a matching balance (and, for a receive block, its source was not
  received by the addressed account at height 1 or above), and, for a receive block, the
  source block is there with the opposite amount.  A block of the genesis type is accepted
  exactly when the genesis snapshot lists its hash and height, whatever else it contains.
\<close>

theorem VerifyReferred_ac_SUCCESS_iff:
  assumes "VerifyReferred_ac ver now b bc = Some (st, bc')"
  shows "VerifyResult_ac st = SUCCESS \<longleftrightarrow>
    (if BlockTypeOf b = GENESIS then genesis_listed b
     else snapshot_known bc b \<and> self_ok bc b \<and> from_ok bc b)"
  using VerifyReferred_ac_SUCCESS_iff' [OF assms] VerifyReferred_ac_genesis [OF assms] by simp

lemma VerifyReferred_ac_Some:
  assumes self: "\<And>st. verifySelf b st bc \<noteq> None"
  shows "\<exists>st bc'. VerifyReferred_ac ver now b bc = Some (st, bc')"
proof -
  obtain s1 st1 where sn: "verifySnapshot b (newVerifyStat_ac ver now) bc = (s1, st1)"
    by (cases "verifySnapshot b (newVerifyStat_ac ver now) bc") auto
  obtain s2 st2 bc2 where "verifySelf b st1 bc = Some (s2, st2, bc2)" using self [of st1] by auto
  then have "VerifyReferred_ac ver now b bc \<noteq> None"
    using sn by (simp add: VerifyReferred_ac_def Let_def case_prod_beta)
  then show ?thesis by auto
qed

lemma VerifyReferred_ac_returns:
  assumes "chain_inv bc" "To b \<noteq> snapshotHeadKey"
  shows "\<exists>st bc'. VerifyReferred_ac ver now b bc = Some (st, bc') \<and> same_chain bc bc'"
proof -
  obtain r where "GetAccountBySourceHash_bc bc (To b) (SourceHash b) = Some (r, touch bc (To b))"
    using getBySourceBlock_spec [OF assms, of "SourceHash b"] by (auto simp: GetAccountBySourceHash_bc_def)
  then have "verifySelf b st bc \<noteq> None" for st
    by (auto simp: verifySelf_def Let_def case_prod_beta)
  then show ?thesis using VerifyReferred_ac_Some VerifyReferred_ac_same by blast
qed

text \<open>
  C11. On a well-formed block chain the account verifier always returns (no read panics), and
  the chain it leaves cannot be told apart from the one it was given.
\<close>

theorem VerifyReferred_ac_total:
  assumes "chain_inv bc" "To b \<noteq> snapshotHeadKey"
  shows "\<exists>st bc'. VerifyReferred_ac ver now b bc = Some (st, bc') \<and> same_chain bc bc'"
  using assms by (rule VerifyReferred_ac_returns)

section \<open>The concrete receive block\<close>

lemma ex1_snapshots: "GetSnapshotByHeight (store ex1) i = (if i = 0 then Some genesisSnapshot else None)"
  using InsertAccountBlock_snapshots(1) [OF ex1] by simp

lemma ex_recv_conditions_on:
  assumes inv: "chain_inv bc" and head: "acHead (acOf bc ''jie'') = Some (genesisAccountBlock ''jie'')"
    and acc: "\<And>a h. GetAccountByHeight (store bc) a h = GetAccountByHeight (store ex1) a h"
    and hash: "GetAccountByHash (store bc) ''send1'' = Some ex_send"
    and snap: "GetSnapshotByHeight (store bc) 0 = Some genesisSnapshot"
  shows "snapshot_known bc ex_recv" "self_ok bc ex_recv" "from_ok bc ex_recv"
proof -
  have adr: "address (acOf bc a) = a" for a using ac_wf_address [OF chain_invD(1) [OF inv]] .
  show "snapshot_known bc ex_recv" by (simp add: snapshot_known_def snap)
  have "getBySourceBlock (acOf bc ''jie'') (store bc) ''send1'' = Some None"
    using getBySourceBlock_spec [OF inv key_neq(2), of "''send1''"]
    by (auto simp: acc ex_get split: option.splits if_splits)
  moreover have "follows (genesisAccountBlock ''jie'') ex_recv" by (simp add: follows_def wrap64_def)
  ultimately show "self_ok bc ex_recv" by (simp add: self_ok_def opens_account_def head)
  have "GetBlockByHeight_ac (acOf bc ''viteshan'') (store bc) 1 = Some ex_send"
    by (simp add: GetBlockByHeight_ac_def adr acc ex_get)
  moreover have "source_ok ex_send ex_recv" by (simp add: source_ok_def wrap64_def)
  ultimately show "from_ok bc ex_recv" by (simp add: from_ok_def hash)
qed

lemma ex_recv_conditions:
  "snapshot_known ex1 ex_recv" "self_ok ex1 ex_recv" "from_ok ex1 ex_recv"
  by (rule ex_recv_conditions_on; simp add: ex_inv ex1_hash ex1_snapshots)+

lemma ex_recv_accepted:
  "\<exists>st bc'. VerifyReferred_ac 0 0 ex_recv ex1 = Some (st, bc') \<and> VerifyResult_ac st = SUCCESS"
proof -
  obtain st bc' where "VerifyReferred_ac 0 0 ex_recv ex1 = Some (st, bc')"
    using VerifyReferred_ac_returns [OF ex_inv(2), of ex_recv 0 0] by auto
  then show ?thesis using VerifyReferred_ac_SUCCESS_iff' [of 0 0 ex_recv ex1 st bc'] ex_recv_conditions by auto
qed

theorem VerifyReferred_ac_SUCCESS_iff_witness:
  "\<exists>st bc'. VerifyReferred_ac 0 0 ex_recv ex1 = Some (st, bc') \<and> BlockTypeOf ex_recv = RECEIVED \<and>
     snapshot_known ex1 ex_recv \<and> self_ok ex1 ex_recv \<and> from_ok ex1 ex_recv \<and> VerifyResult_ac st = SUCCESS"
proof -
  obtain st bc' where v: "VerifyReferred_ac 0 0 ex_recv ex1 = Some (st, bc')"
    using VerifyReferred_ac_returns [OF ex_inv(2), of ex_recv 0 0] by auto
  then show ?thesis using VerifyReferred_ac_SUCCESS_iff [OF v] ex_recv_conditions by auto
qed

theorem VerifyReferred_ac_total_witness:
  "\<exists>st bc'. VerifyReferred_ac 3 7 ex_recv ex1 = Some (st, bc') \<and> same_chain ex1 bc'"
  by (rule VerifyReferred_ac_total [OF ex_inv(2)]) simp

section \<open>Amounts\<close>

text \<open>
  C9. The balance check is safe under 64-bit wrap-around: an accepted send or receive block
  that does not open its account and follows a head with a non-negative balance carries
  exactly the sum of that balance and its own modified amount, and the new balance is
  positive.  A receive at height 0 can open an account with a negative balance, and on such a
  head the sum can wrap around.
\<close>

theorem accepted_balance_exact:
  assumes "VerifyReferred_ac ver now b bc = Some (st, bc')" "VerifyResult_ac st = SUCCESS"
    and "BlockTypeOf b = SEND \<or> BlockTypeOf b = RECEIVED" "\<not> opens_account b"
    and "acHead (acOf bc (Tsigner b)) = Some l" "0 \<le> Amount l"
    and "int64_range (Amount l)" "int64_range (ModifiedAmount b)"
  shows "Amount b = Amount l + ModifiedAmount b \<and> 0 < Amount b"
proof -
  have "BlockTypeOf b \<noteq> GENESIS" using assms(3) by auto
  then have "follows l b"
    using VerifyReferred_ac_SUCCESS_iff' [OF assms(1)] assms(2,4,5) by (auto simp: self_ok_def)
  then have f: "wrap64 (Amount l + ModifiedAmount b) = Amount b" "0 < Amount b"
    "BlockTypeOf b = SEND \<Longrightarrow> ModifiedAmount b \<le> 0" "BlockTypeOf b = RECEIVED \<Longrightarrow> 0 \<le> ModifiedAmount b"
    by (auto simp: follows_def)
  have "wrap64 (Amount l + ModifiedAmount b) = Amount l + ModifiedAmount b"
  proof (cases "BlockTypeOf b = SEND")
    case True
    then show ?thesis using f(3) assms(6,7,8) by (intro wrap64_add_opposite_exact)
  next
    case False
    then have "0 \<le> ModifiedAmount b" using f(4) assms(3) by simp
    then show ?thesis using assms(6,7,8) f(1,2) by (intro wrap64_add_pos_exact) auto
  qed
  then show ?thesis using f(1,2) by simp
qed

theorem accepted_balance_exact_witness:
  "\<exists>st bc' l. VerifyReferred_ac 0 0 ex_recv ex1 = Some (st, bc') \<and> VerifyResult_ac st = SUCCESS \<and>
     \<not> opens_account ex_recv \<and> acHead (acOf ex1 (Tsigner ex_recv)) = Some l \<and> Amount l = 200 \<and>
     Amount ex_recv = Amount l + ModifiedAmount ex_recv \<and> 0 < Amount ex_recv"
proof -
  obtain st bc' where v: "VerifyReferred_ac 0 0 ex_recv ex1 = Some (st, bc')" "VerifyResult_ac st = SUCCESS"
    using ex_recv_accepted by blast
  have o: "\<not> opens_account ex_recv" by (simp add: opens_account_def)
  have h: "acHead (acOf ex1 (Tsigner ex_recv)) = Some (genesisAccountBlock ''jie'')" by simp
  have "Amount ex_recv = Amount (genesisAccountBlock ''jie'') + ModifiedAmount ex_recv \<and> 0 < Amount ex_recv"
    by (rule accepted_balance_exact [OF v _ o h]) (simp_all add: int64_range_def)
  moreover have "Amount (genesisAccountBlock ''jie'') = 200" by simp
  ultimately show ?thesis using v o h by blast
qed

lemma wrap64_zero_nonneg:
  assumes "wrap64 (x + y) = 0" "int64_range x" "int64_range y" "0 \<le> y"
  shows "x + y = 0"
proof -
  have "int64_range (x + y) \<or> (0 \<le> x \<and> 0 \<le> y)" using assms(2,3,4) by (auto simp: int64_range_def)
  then show ?thesis
    using assms wrap64_id [of "x + y"] wrap64_add_pos_exact [of x y] by auto
qed

text \<open>
  C10. An accepted receive block that does not open its account takes exactly the amount that
  its source block gave: the two modified amounts are opposite, without wrap-around.
\<close>

theorem accepted_receive_conserves:
  assumes "VerifyReferred_ac ver now b bc = Some (st, bc')" "VerifyResult_ac st = SUCCESS"
    and "BlockTypeOf b = RECEIVED" "\<not> opens_account b"
    and "GetAccountByHeight (store bc) (From b) (SourceHeight b) = Some src" "ac_wf bc"
    and "int64_range (ModifiedAmount src)" "int64_range (ModifiedAmount b)"
  shows "ModifiedAmount src = - ModifiedAmount b \<and> 0 \<le> ModifiedAmount b \<and> Thash src = SourceHash b"
proof -
  have ok: "self_ok bc b" "from_ok bc b"
    using VerifyReferred_ac_SUCCESS_iff' [OF assms(1)] assms(2,3) by auto
  then have pos: "0 \<le> ModifiedAmount b" using assms(3,4) by (auto simp: self_ok_def follows_def)
  have "source_ok src b"
    using ok(2) assms(3,5) ac_wf_address [OF assms(6), of "From b"]
    by (auto simp: from_ok_def GetBlockByHeight_ac_def split: if_splits)
  then show ?thesis
    using wrap64_zero_nonneg [OF _ assms(7,8) pos] pos by (simp add: source_ok_def)
qed

theorem accepted_receive_conserves_witness:
  "\<exists>st bc'. VerifyReferred_ac 0 0 ex_recv ex1 = Some (st, bc') \<and> VerifyResult_ac st = SUCCESS \<and>
     GetAccountByHeight (store ex1) (From ex_recv) (SourceHeight ex_recv) = Some ex_send \<and>
     ModifiedAmount ex_send = - ModifiedAmount ex_recv \<and> Thash ex_send = SourceHash ex_recv"
proof -
  obtain st bc' where v: "VerifyReferred_ac 0 0 ex_recv ex1 = Some (st, bc')" "VerifyResult_ac st = SUCCESS"
    using ex_recv_accepted by blast
  have o: "\<not> opens_account ex_recv" by (simp add: opens_account_def)
  have g: "GetAccountByHeight (store ex1) (From ex_recv) (SourceHeight ex_recv) = Some ex_send" by (simp add: ex_get)
  have "ModifiedAmount ex_send = - ModifiedAmount ex_recv \<and> 0 \<le> ModifiedAmount ex_recv \<and> Thash ex_send = SourceHash ex_recv"
    by (rule accepted_receive_conserves [OF v _ o g chain_invD(1) [OF ex_inv(2)]]) (simp_all add: int64_range_def)
  then show ?thesis using v g by blast
qed

section \<open>Snapshot blocks\<close>

text \<open>How an account state of a snapshot block compares with the chain.\<close>

definition accountBlock :: "blockchain \<Rightarrow> AccountHashH \<Rightarrow> AccountStateBlock option" where
  "accountBlock bc v = GetBlockByHeight_ac (acOf bc (Addr v)) (store bc) (Height v)"

definition confirmedAcc :: "blockchain \<Rightarrow> AccountHashH \<Rightarrow> bool" where
  "confirmedAcc bc v \<longleftrightarrow> (\<exists>b. accountBlock bc v = Some b \<and> Thash b = Hash v)"

definition conflictAcc :: "blockchain \<Rightarrow> AccountHashH \<Rightarrow> bool" where
  "conflictAcc bc v \<longleftrightarrow> (\<exists>b. accountBlock bc v = Some b \<and> Thash b \<noteq> Hash v)"

definition missingAcc :: "blockchain \<Rightarrow> AccountHashH \<Rightarrow> bool" where
  "missingAcc bc v \<longleftrightarrow> accountBlock bc v = None"

definition requestFor :: "AccountHashH \<Rightarrow> FetchRequest" where
  "requestFor v = \<lparr>frChain = Addr v, frHeight = Height v, frHash = Hash v, frPrevCnt = 1\<rparr>"

lemma acc_cases: "confirmedAcc bc v \<or> conflictAcc bc v \<or> missingAcc bc v"
  by (cases "accountBlock bc v") (auto simp: confirmedAcc_def conflictAcc_def missingAcc_def)

lemma acc_touch [simp]: "confirmedAcc (touch bc a) = confirmedAcc bc" "conflictAcc (touch bc a) = conflictAcc bc"
  "missingAcc (touch bc a) = missingAcc bc"
  by (simp_all add: fun_eq_iff confirmedAcc_def conflictAcc_def missingAcc_def accountBlock_def)

lemma verifyAccountsLoop_spec:
  assumes "verifyAccountsLoop as i task st bc = (f, j, task', st', bc')"
  shows "f = (\<exists>v\<in>set as. conflictAcc bc v) \<and>
    (f \<longrightarrow> result st' = FAIL) \<and>
    (\<not> f \<longrightarrow> j = i + length (filter (confirmedAcc bc) as) \<and> result st' = result st \<and> task_sn st' = task_sn st \<and>
       tasks task' = tasks task @ map (\<lambda>v. accountPendingTask False (requestFor v)) (filter (missingAcc bc) as))"
  using assms
proof (induction as i task st bc rule: verifyAccountsLoop.induct)
  case (2 v vs i task st bc)
  consider (missing) "accountBlock bc v = None" | (confirmed) b where "accountBlock bc v = Some b" "Thash b = Hash v"
    | (conflict) b where "accountBlock bc v = Some b" "Thash b \<noteq> Hash v"
    by (cases "accountBlock bc v") auto
  then show ?case
  proof cases
    case missing
    then have "missingAcc bc v" "\<not> confirmedAcc bc v" "\<not> conflictAcc bc v"
      by (simp_all add: missingAcc_def confirmedAcc_def conflictAcc_def)
    then show ?thesis
      using 2 missing by (simp add: accountBlock_def GetAccountByHeight_bc_def pendingAccount_def requestFor_def)
  next
    case confirmed
    then have "\<not> missingAcc bc v" "confirmedAcc bc v" "\<not> conflictAcc bc v"
      by (simp_all add: missingAcc_def confirmedAcc_def conflictAcc_def)
    then show ?thesis
      using 2 confirmed by (simp add: accountBlock_def GetAccountByHeight_bc_def)
  next
    case conflict
    then have "conflictAcc bc v" by (simp add: conflictAcc_def)
    then show ?thesis
      using 2(3) conflict by (auto simp: accountBlock_def GetAccountByHeight_bc_def)
  qed
qed simp

lemma filter_all_iff: "length (filter P xs) = length xs \<longleftrightarrow> (\<forall>x\<in>set xs. P x)"
  by (induction xs) (auto simp: le_imp_less_Suc order.strict_implies_not_eq)

lemma VerifyReferred_sn_holds:
  assumes "VerifyReferred_sn ver now b bc = (st, bc')"
  shows "(result st = SUCCESS \<longleftrightarrow> (\<forall>v\<in>set (Accounts b). confirmedAcc bc v)) \<and>
    (result st = FAIL \<longleftrightarrow> (\<exists>v\<in>set (Accounts b). conflictAcc bc v)) \<and>
    (result st = PENDING \<longrightarrow> (\<exists>task. task_sn st = Some task \<and>
       Requests (VTask task) = map requestFor (filter (missingAcc bc) (Accounts b))))"
proof -
  let ?task0 = "\<lparr>tasks = [], taskVersion = ver, taskFail = False, taskTime = now\<rparr>"
  obtain f j task st1 bc1 where l: "verifyAccountsLoop (Accounts b) 0 ?task0 (newVerifyStat_sn b) bc = (f, j, task, st1, bc1)"
    by (cases "verifyAccountsLoop (Accounts b) 0 ?task0 (newVerifyStat_sn b) bc") auto
  note spec = verifyAccountsLoop_spec [OF l]
  have st: "st = (if f then st1 else if j = length (Accounts b) then st1\<lparr>result := SUCCESS\<rparr> else st1\<lparr>task_sn := Some task\<rparr>)"
    using assms l by (auto simp: VerifyReferred_sn_def split: if_splits)
  have excl: "\<not> (confirmedAcc bc v \<and> conflictAcc bc v)" for v
    by (auto simp: confirmedAcc_def conflictAcc_def)
  have reqs: "Requests (VTask task) = map requestFor (filter (missingAcc bc) (Accounts b))" if "\<not> f"
    using spec that by (simp add: comp_def)
  show ?thesis
  proof (cases f)
    case True
    then show ?thesis using spec st excl by auto
  next
    case False
    then have all: "j = length (Accounts b) \<longleftrightarrow> (\<forall>v\<in>set (Accounts b). confirmedAcc bc v)"
      using spec filter_all_iff [of "confirmedAcc bc" "Accounts b"] by simp
    have "result st1 = PENDING" using spec False by (simp add: newVerifyStat_sn_def)
    then show ?thesis using False all reqs spec st by auto
  qed
qed

text \<open>
  C3. The snapshot verifier answers SUCCESS exactly when every account state of the block is
  on the chain, FAIL exactly when some account has another block at that height, and PENDING
  otherwise; when it is pending, its task asks for exactly the missing account blocks.
\<close>

theorem VerifyReferred_sn_spec:
  assumes "VerifyReferred_sn ver now b bc = (st, bc')"
  shows "(result st = SUCCESS \<longleftrightarrow> (\<forall>v\<in>set (Accounts b). confirmedAcc bc v)) \<and>
    (result st = FAIL \<longleftrightarrow> (\<exists>v\<in>set (Accounts b). conflictAcc bc v)) \<and>
    (result st = PENDING \<longrightarrow> (\<exists>task. task_sn st = Some task \<and>
       Requests (VTask task) = map requestFor (filter (missingAcc bc) (Accounts b))))"
  using assms by (rule VerifyReferred_sn_holds)

text \<open>A snapshot block of the two heads of the example is accepted.\<close>

definition ex_snap :: SnapshotBlock where
  "ex_snap = NewSnapshotBlock 1 ''snap1'' (Thash genesisSnapshot) ''viteshan'' 0
     [NewAccountHashH ''viteshan'' ''send1'' 1, NewAccountHashH ''jie'' ''recv1'' 1]"

lemma ex_snap_confirmed: "v \<in> set (Accounts ex_snap) \<Longrightarrow> confirmedAcc ex2 v"
  using ac_wf_address [OF chain_invD(1) [OF ex_inv(3)]]
  by (auto simp: ex_snap_def NewSnapshotBlock_def NewAccountHashH_def confirmedAcc_def accountBlock_def
      GetBlockByHeight_ac_def ex_get)

theorem VerifyReferred_sn_spec_witness:
  "\<exists>st bc'. VerifyReferred_sn 0 0 ex_snap ex2 = (st, bc') \<and> result st = SUCCESS"
proof -
  obtain st bc' where v: "VerifyReferred_sn 0 0 ex_snap ex2 = (st, bc')"
    by (cases "VerifyReferred_sn 0 0 ex_snap ex2") auto
  then show ?thesis using VerifyReferred_sn_spec [OF v] ex_snap_confirmed by auto
qed

section \<open>What the account verifier does not check\<close>

text \<open>
  C14. A send block can be received twice: after an account was opened by a receive block at
  height 0, a second receive block of the same source is accepted at height 1 if its other
  checks pass, because the search for an earlier receive stops above height 0.
\<close>

theorem second_receive_accepted:
  assumes inv: "chain_inv bc" and b0: "acHead (acOf bc (Tsigner b1)) = Some b0" "opens_account b0"
    and b1: "BlockTypeOf b1 = RECEIVED" "Theight b1 = 1" "To b1 = Tsigner b1" "SourceHash b1 = SourceHash b0"
      "Tsigner b1 \<noteq> snapshotHeadKey"
    and ok: "follows b0 b1" "snapshot_known bc b1" "from_ok bc b1"
  shows "\<exists>st bc'. VerifyReferred_ac ver now b1 bc = Some (st, bc') \<and> VerifyResult_ac st = SUCCESS"
proof -
  have "chain_ok (GetAccountByHeight (store bc) (Tsigner b1)) (Some b0)"
    using chain_invD(4) [OF inv b1(5)] b0(1) by (simp add: account_ok_def)
  then have none: "GetAccountByHeight (store bc) (Tsigner b1) h = None" if "1 \<le> h" for h
    using chain_ok_none_above [of _ b0 h] b0(2) that by (simp add: opens_account_def)
  have "getBySourceBlock (acOf bc (Tsigner b1)) (store bc) (SourceHash b1) = Some None"
    using getBySourceBlock_spec [OF inv b1(5), of "SourceHash b1"] none by (auto split: option.splits)
  then have "self_ok bc b1" using b0(1) b1(2,3) ok(1) by (simp add: self_ok_def opens_account_def)
  moreover have "To b1 \<noteq> snapshotHeadKey" using b1(3,5) by simp
  ultimately show ?thesis
    using VerifyReferred_ac_returns [OF inv, of b1 ver now] VerifyReferred_ac_SUCCESS_iff' [of ver now b1 bc]
      b1(1) ok(2,3) by fastforce
qed

text \<open>The account \<open>bob\<close>, opened by a receive block at height 0, receives the same block again.\<close>

definition ex_bob :: "int \<Rightarrow> string \<Rightarrow> string \<Rightarrow> int \<Rightarrow> AccountStateBlock" where
  "ex_bob h hash pre amount = NewAccountBlock h hash pre ''bob'' 0 amount 10 0 (Thash genesisSnapshot)
     RECEIVED ''viteshan'' ''bob'' ''send1'' 1"

definition ex_bob1 :: blockchain where
  "ex_bob1 = snd (the (InsertAccountBlock ''bob'' (ex_bob 0 ''bob0'' '''' 10) ex1))"

lemma ex_bob_simps [simp]:
  "Theight (ex_bob h hash pre amount) = h" "Thash (ex_bob h hash pre amount) = hash" "TpreHash (ex_bob h hash pre amount) = pre"
  "Tsigner (ex_bob h hash pre amount) = ''bob''" "To (ex_bob h hash pre amount) = ''bob''"
  "From (ex_bob h hash pre amount) = ''viteshan''" "SourceHash (ex_bob h hash pre amount) = ''send1''"
  "SourceHeight (ex_bob h hash pre amount) = 1" "BlockTypeOf (ex_bob h hash pre amount) = RECEIVED"
  "SnapshotHeight (ex_bob h hash pre amount) = 0" "SnapshotHash (ex_bob h hash pre amount) = Thash genesisSnapshot"
  "Amount (ex_bob h hash pre amount) = amount" "ModifiedAmount (ex_bob h hash pre amount) = 10"
  by (simp_all add: ex_bob_def NewAccountBlock_def)

lemma bob_key [simp]: "''bob'' \<noteq> snapshotHeadKey"
  by (simp add: snapshotHeadKey_def)

lemma ex1_bob [simp]: "acHead (acOf ex1 ''bob'') = None" "acListener (acOf ex1 ''bob'') = defaultChainListener"
proof -
  show "acHead (acOf ex1 ''bob'') = None"
    using InsertAccountBlock_other_head [OF ex1 chain_invD(1) [OF ex_inv(1)], of "''bob''"] by (simp add: ex0_head)
  have "ac ex1 ''bob'' = None" using InsertAccountBlock_Some(2) [OF ex1] by simp
  then show "acListener (acOf ex1 ''bob'') = defaultChainListener" by (simp add: acOf_None)
qed

lemma ex_bob1: "InsertAccountBlock ''bob'' (ex_bob 0 ''bob0'' '''' 10) ex1 = Some (None, ex_bob1)"
  unfolding ex_bob1_def by (rule InsertAccountBlock_default) simp

lemma ex_bob1_inv: "chain_inv ex_bob1"
  by (rule chain_inv_InsertAccountBlock [OF ex_inv(2) bob_key _ ex_bob1]) (simp add: extends_def)

theorem second_receive_accepted_witness:
  "\<exists>st bc'. VerifyReferred_ac 0 0 (ex_bob 1 ''bob1'' ''bob0'' 20) ex_bob1 = Some (st, bc') \<and> VerifyResult_ac st = SUCCESS"
proof -
  let ?b = "ex_bob 1 ''bob1'' ''bob0'' 20"
  have get: "GetAccountByHeight (store ex_bob1) a h =
      (if a = ''bob'' \<and> h = 0 then Some (ex_bob 0 ''bob0'' '''' 10) else GetAccountByHeight (store ex1) a h)" for a h
    using InsertAccountBlock_GetAccountByHeight [OF ex_bob1 chain_invD(1) [OF ex_inv(2)]] by simp
  have hash: "GetAccountByHash (store ex_bob1) ''send1'' = Some ex_send"
    using InsertAccountBlock_Some(5) [OF ex_bob1] insertChain_ac_Some(7) ex1_hash by fastforce
  have "snapshot_known ex_bob1 ?b"
    using InsertAccountBlock_snapshots(1) [OF ex_bob1] by (simp add: snapshot_known_def ex1_snapshots)
  moreover have "from_ok ex_bob1 ?b"
    using ac_wf_address [OF chain_invD(1) [OF ex_bob1_inv]]
    by (simp add: from_ok_def source_ok_def wrap64_def GetBlockByHeight_ac_def get ex_get hash)
  moreover have "follows (ex_bob 0 ''bob0'' '''' 10) ?b" by (simp add: follows_def wrap64_def)
  ultimately show ?thesis
    using second_receive_accepted [OF ex_bob1_inv, of ?b "ex_bob 0 ''bob0'' '''' 10" 0 0]
      InsertAccountBlock_head [OF ex_bob1] by (simp add: opens_account_def)
qed

text \<open>
  A block whose type is none of the three known ones may create money: the verifier
  accepts any positive change of the balance, with no source block, as long as the block
  follows the head of its account.
\<close>

theorem unknown_type_mints:
  assumes "BlockTypeOf b = OtherBlockType n" "acHead (acOf bc (Tsigner b)) = Some l" "Thash l = TpreHash b"
    "SnapshotHeight l \<le> SnapshotHeight b" "snapshot_known bc b"
    "Amount b = Amount l + ModifiedAmount b" "0 < Amount b" "int64_range (Amount b)"
  shows "\<exists>st bc'. VerifyReferred_ac ver now b bc = Some (st, bc') \<and> VerifyResult_ac st = SUCCESS"
proof -
  have "wrap64 (Amount l + ModifiedAmount b) = Amount b" using assms(6,8) wrap64_id [of "Amount b"] by simp
  then have ok: "self_ok bc b" "from_ok bc b"
    using assms by (auto simp: self_ok_def from_ok_def opens_account_def follows_def)
  have "verifySelf b st bc \<noteq> None" for st
    using assms(1) by (simp add: verifySelf_def Let_def case_prod_beta)
  then obtain st bc' where "VerifyReferred_ac ver now b bc = Some (st, bc')"
    using VerifyReferred_ac_Some by blast
  then show ?thesis using VerifyReferred_ac_SUCCESS_iff' [of ver now b bc st bc'] ok assms(1,5) by auto
qed

theorem unknown_type_mints_witness:
  "\<exists>st bc'. VerifyReferred_ac 0 0 (NewAccountBlock 1 ''m'' (Thash (genesisAccountBlock ''jie'')) ''jie'' 0 1200 1000 0
      (Thash genesisSnapshot) (OtherBlockType 7) '''' '''' '''' 0) ex0 = Some (st, bc') \<and> VerifyResult_ac st = SUCCESS"
  by (rule unknown_type_mints [where l = "genesisAccountBlock ''jie''" and n = 7])
    (simp_all add: NewAccountBlock_def ex0_head snapshot_known_def int64_range_def)

end
