(* ===== verification/Pool_Disk_Props.thy ===== *)
theory Pool_Disk_Props
  imports Pool_Runs Pool_Disk Verifier_Props
begin

text \<open>
  Blocks that move between the memory of the pool and the persistent chain. Locale
  \<open>chain_rw\<close> is the contract of the interface \<open>chainRw\<close> as the pool relies on it, and
  \<open>removable_rw\<close> adds removal of the head; the account implementation is an instance of the
  first and the snapshot implementation of both. The client facts: writing a block to disk
  and rolling blocks back from disk both leave the blocks that a reader of the current chain
  sees unchanged.
\<close>

section \<open>The view of the current chain\<close>

text \<open>
  What \<open>GetBlock\<close> returns on a chain that refers to the disk: its own block, or the block on
  disk.
\<close>

definition poolView :: "('s, 'a) crw \<Rightarrow> 's \<Rightarrow> 'a forked \<Rightarrow> 'a height_index" where
  "poolView rw s c h =
     (case heightBlocks c h of
        Some w \<Rightarrow> Some (block w)
      | None \<Rightarrow> map_option block (getBlock_disk rw 0 s h))"

lemma getBlock_disk_version: "map_option block (getBlock_disk rw v s h) = map_option block (getBlock_disk rw 0 s h)"
  by (simp add: getBlock_disk_def split: option.splits)

lemma GetBlock_poolView:
  assumes "cs cid = Some c" "referChain c = Disk"
  shows "GetBlock cs (getBlock_disk rw v s) cid h = Some (poolView rw s c h)"
  using assms getBlock_disk_version [of rw v s h]
  by (simp add: GetBlock_def getBlock_def getBlockRefer.simps poolView_def split: option.splits)

text \<open>The tail of the current chain is the head of the disk chain.\<close>

definition current_ok :: "('s, 'a) crw \<Rightarrow> 's \<Rightarrow> 'a forked \<Rightarrow> bool" where
  "current_ok rw s c \<longleftrightarrow>
     (case Head_disk rw s of
        None \<Rightarrow> False
      | Some t \<Rightarrow> tailHeight c = Theight t \<and> forked_ok (Thash t) c)"

lemma current_okE:
  assumes "current_ok rw s c"
  obtains t where "Head_disk rw s = Some t" "tailHeight c = Theight t" "forked_ok (Thash t) c"
  using assms by (auto simp: current_ok_def split: option.splits)

lemma forked_own_get:
  assumes "forked_ok tH c" "heightBlocks c h = Some w"
  shows "Theight (block w) = h" "tailHeight c < h" "h \<le> headHeight c"
  using run_ok_height [of "own c" "tailHeight c" "headHeight c" tH "fcHeadHash c" h "block w"] assms
  by (simp_all add: forked_ok_def own_def)

lemma forked_own_None:
  assumes "forked_ok tH c" "h \<le> tailHeight c \<or> headHeight c < h"
  shows "heightBlocks c h = None"
  using run_ok_None [of "own c" "tailHeight c" "headHeight c" tH "fcHeadHash c" h] assms
  by (simp add: forked_ok_def)

lemma forked_tail_preHash:
  assumes "forked_ok tH c" "heightBlocks c (tailHeight c + 1) = Some w"
  shows "TpreHash (block w) = tH"
  using run_okD(4) [of "own c" "tailHeight c" "headHeight c" tH "fcHeadHash c" "block w"] assms
  by (simp add: forked_ok_def own_def)

section \<open>The contract of the interface\<close>

locale chain_rw =
  fixes rw :: "('s, 'a) crw"
    and disk :: "'s \<Rightarrow> 'a height_index"
    and wf :: "'s \<Rightarrow> bool"
    and fresh :: "'s \<Rightarrow> 'a Tblock_scheme \<Rightarrow> bool"
  assumes chain: "wf s \<Longrightarrow> chain_ok (disk s) (rwHead rw s)"
    and get: "wf s \<Longrightarrow> 0 \<le> h \<Longrightarrow> rwGetBlock rw s h = Some (disk s h)"
    and empty: "wf s \<Longrightarrow> rwHead rw s = None \<Longrightarrow> \<exists>e. rwGetBlock rw s (- 1) = Some (Some e) \<and> Theight e = - 1"
    and insert: "wf s \<Longrightarrow> extends (rwHead rw s) b \<Longrightarrow> fresh s b \<Longrightarrow> rwInsert rw b v s = Some (None, s') \<Longrightarrow>
      wf s' \<and> disk s' = (disk s)(Theight b \<mapsto> b) \<and> rwHead rw s' = Some b"
begin

lemma disk_view:
  assumes "wf s"
  shows "map_option block (getBlock_disk rw v s h) = disk s h"
proof (cases "h < 0")
  case True
  then show ?thesis using chain_ok_negative [OF chain [OF assms]] by (simp add: getBlock_disk_def)
next
  case False
  then show ?thesis by (simp add: getBlock_disk_def get [OF assms] split: option.splits)
qed

lemma poolView_eq: "wf s \<Longrightarrow> poolView rw s c h = (case heightBlocks c h of Some w \<Rightarrow> Some (block w) | None \<Rightarrow> disk s h)"
  by (simp add: poolView_def disk_view split: option.split)

lemma Head_disk_extends:
  assumes "wf s" "Head_disk rw s = Some t" "Theight b = Theight t + 1" "TpreHash b = Thash t"
  shows "extends (rwHead rw s) b"
  using assms empty [OF assms(1)] by (auto simp: Head_disk_def extends_def split: option.splits)

lemma writeToChain_view:
  assumes "wf s" "current_ok rw s c" "heightBlocks c (tailHeight c + 1) = Some w" "fresh s (block w)"
    and "writeToChain rw w s c = Some (None, s', c')"
  shows "wf s'" "current_ok rw s' c'" "tailHeight c' = tailHeight c + 1" "rwHead rw s' = Some (block w)"
    "poolView rw s' c' h = poolView rw s c h"
proof -
  obtain t where t: "Head_disk rw s = Some t" "tailHeight c = Theight t" "forked_ok (Thash t) c"
    using assms(2) by (rule current_okE)
  have ins: "rwInsert rw (block w) (forkVersion w) s = Some (None, s')" and c': "c' = removeTail w c"
    using assms(5) by (auto simp: writeToChain_def split: Option.bind_splits if_splits)
  note rem = removeTail_ok [OF t(3) assms(3)]
  have "extends (rwHead rw s) (block w)"
    using Head_disk_extends [OF assms(1) t(1)] forked_tail_preHash [OF t(3) assms(3)] rem(3) t(2) by simp
  note s' = insert [OF assms(1) this assms(4) ins]
  show "wf s'" "rwHead rw s' = Some (block w)" "tailHeight c' = tailHeight c + 1"
    using s' rem(2) c' by simp_all
  show "current_ok rw s' c'"
    using s' rem c' by (simp add: current_ok_def Head_disk_def)
  have "heightBlocks c' = (heightBlocks c)(Theight (block w) := None)"
    by (simp add: c' removeTail_def)
  then show "poolView rw s' c' h = poolView rw s c h"
    using s' assms(1,3) rem(3) by (simp add: poolView_eq split: option.split)
qed

end

locale removable_rw = chain_rw rw disk wf fresh
  for rw :: "('s, 'a) crw"
    and disk :: "'s \<Rightarrow> 'a height_index"
    and wf :: "'s \<Rightarrow> bool"
    and fresh :: "'s \<Rightarrow> 'a Tblock_scheme \<Rightarrow> bool" +
  assumes remove: "wf s \<Longrightarrow> rwHead rw s = Some b \<Longrightarrow> 0 < Theight b \<Longrightarrow>
      \<exists>s'. rwRemove rw b s = Some (None, s') \<and> wf s' \<and> disk s' = (disk s)(Theight b := None) \<and>
        rwHead rw s' = disk s (Theight b - 1)"
begin

text \<open>One round: the head goes from the disk to the tail of the chain in memory.\<close>

lemma rollback_step:
  assumes "wf s" "rwHead rw s = Some b" "0 < Theight b" "tailHeight c = Theight b" "forked_ok (Thash b) c"
  obtains s' w p where "getBlock_disk rw v s (Theight b) = Some w" "block w = b"
    "rwRemove rw (block w) s = Some (None, s')" "wf s'" "disk s' = (disk s)(Theight b := None)"
    "rwHead rw s' = Some p" "Theight p = Theight b - 1" "TpreHash b = Thash p"
    "forked_ok (Thash p) (addTail w c)" "\<And>h. poolView rw s' (addTail w c) h = poolView rw s c h"
proof -
  have ok: "chain_ok (disk s) (Some b)" using chain [OF assms(1)] assms(2) by simp
  have b: "disk s (Theight b) = Some b" using chain_okD(2) [OF ok] .
  obtain p where p: "disk s (Theight b - 1) = Some p" "Theight p = Theight b - 1"
    using chain_ok_Some [OF ok, of "Theight b - 1"] assms(3) by auto
  have pre: "TpreHash b = Thash p"
    using linked_preHash [OF chain_okD(3) [OF ok], of "Theight b - 1" p b] p b assms(3) by simp
  obtain s' where s': "rwRemove rw b s = Some (None, s')" "wf s'" "disk s' = (disk s)(Theight b := None)"
      "rwHead rw s' = disk s (Theight b - 1)"
    using remove [OF assms(1,2,3)] by auto
  let ?w = "\<lparr>block = b, forkVersion = v\<rparr>"
  have "getBlock_disk rw v s (Theight b) = Some ?w"
    using assms(3) b by (simp add: getBlock_disk_def get [OF assms(1)])
  moreover have "forked_ok (Thash p) (addTail ?w c)"
    using addTail_ok(1) [OF assms(5), of ?w] assms(4) pre by simp
  moreover have "poolView rw s' (addTail ?w c) h = poolView rw s c h" for h
    using s'(2,3) b assms(1) forked_own_None [OF assms(5), of "Theight b"] assms(4)
    by (simp add: poolView_eq split: option.split) (simp add: addTail_def)
  ultimately show ?thesis
    using s' p pre that [of ?w s' p] by simp
qed

lemma rollbackLoop_view:
  assumes "wf s" "rwHead rw s = Some b" "tailHeight c = Theight b" "forked_ok (Thash b) c"
    "fcTailHash c = Thash b" "0 \<le> n" "n \<le> tailHeight c"
  shows "\<exists>s' c' p. rollbackLoop rw v (rev [n + 1..tailHeight c]) s c = Some (None, s', c') \<and>
    wf s' \<and> rwHead rw s' = Some p \<and> Theight p = n \<and> tailHeight c' = n \<and> fcTailHash c' = Thash p \<and>
    forked_ok (Thash p) c' \<and> headHeight c' = headHeight c \<and> fcHeadHash c' = fcHeadHash c \<and>
    referChain c' = referChain c \<and> chainId c' = chainId c \<and>
    (\<forall>h. poolView rw s' c' h = poolView rw s c h)"
  using assms
proof (induction "nat (tailHeight c - n)" arbitrary: s b c)
  case 0
  then have "tailHeight c = n" by simp
  with "0.prems" show ?case by simp
next
  case (Suc k)
  have pos: "0 < Theight b" "n \<le> tailHeight c - 1" using Suc.hyps(2) Suc.prems(3,6) by auto
  obtain s1 w p where st: "getBlock_disk rw v s (Theight b) = Some w" "block w = b"
    "rwRemove rw (block w) s = Some (None, s1)" "wf s1" "disk s1 = (disk s)(Theight b := None)"
    "rwHead rw s1 = Some p" "Theight p = Theight b - 1" "TpreHash b = Thash p"
    "forked_ok (Thash p) (addTail w c)" "\<And>h. poolView rw s1 (addTail w c) h = poolView rw s c h"
    using rollback_step [OF Suc.prems(1,2) pos(1) Suc.prems(3,4), of v] by blast
  have c1: "tailHeight (addTail w c) = tailHeight c - 1" "tailHeight (addTail w c) = Theight p"
    "fcTailHash (addTail w c) = Thash p"
    "headHeight (addTail w c) = headHeight c" "fcHeadHash (addTail w c) = fcHeadHash c"
    "referChain (addTail w c) = referChain c" "chainId (addTail w c) = chainId c"
    using st(2,7,8) Suc.prems(3) by (simp_all add: addTail_def)
  have k: "k = nat (tailHeight (addTail w c) - n)" using Suc.hyps(2) c1(1) by linarith
  have n: "n \<le> tailHeight (addTail w c)" using pos(2) c1(1) by simp
  obtain s' c' q where IH: "rollbackLoop rw v (rev [n + 1..tailHeight (addTail w c)]) s1 (addTail w c) = Some (None, s', c')"
    "wf s'" "rwHead rw s' = Some q" "Theight q = n" "tailHeight c' = n" "fcTailHash c' = Thash q"
    "forked_ok (Thash q) c'" "headHeight c' = headHeight (addTail w c)" "fcHeadHash c' = fcHeadHash (addTail w c)"
    "referChain c' = referChain (addTail w c)" "chainId c' = chainId (addTail w c)"
    "\<And>h. poolView rw s' c' h = poolView rw s1 (addTail w c) h"
    using Suc.hyps(1) [OF k st(4,6) c1(2) st(9) c1(3) Suc.prems(6) n] by blast
  have "rev [n + 1..tailHeight c] = Theight b # rev [n + 1..tailHeight (addTail w c)]"
    using pos(2) Suc.prems(3) c1(1) by (simp add: upto_snoc)
  then have "rollbackLoop rw v (rev [n + 1..tailHeight c]) s c = Some (None, s', c')"
    using st(1,3) IH(1) by simp
  then show ?case using IH st(10) c1 by auto
qed

lemma rollback_cp_view:
  assumes "wf s" "rwHead rw s = Some b" "chains cp (current cp) = Some c"
    "tailHeight c = Theight b" "forked_ok (Thash b) c" "fcTailHash c = Thash b" "0 \<le> n" "n \<le> tailHeight c"
  shows "\<exists>s' cp' c' p. rollback_cp rw n v s cp = Some (None, s', cp') \<and> wf s' \<and>
    cp' = cp\<lparr>chains := (chains cp)(current cp \<mapsto> c')\<rparr> \<and>
    rwHead rw s' = Some p \<and> Theight p = n \<and> current_ok rw s' c' \<and> tailHeight c' = n \<and>
    fcTailHash c' = Thash p \<and> headHeight c' = headHeight c \<and> referChain c' = referChain c \<and>
    (\<forall>h. poolView rw s' c' h = poolView rw s c h)"
proof -
  obtain s' c' p where r: "rollbackLoop rw v (rev [n + 1..tailHeight c]) s c = Some (None, s', c')"
    "wf s'" "rwHead rw s' = Some p" "Theight p = n" "tailHeight c' = n" "fcTailHash c' = Thash p"
    "forked_ok (Thash p) c'" "headHeight c' = headHeight c" "referChain c' = referChain c"
    "\<forall>h. poolView rw s' c' h = poolView rw s c h"
    using rollbackLoop_view [OF assms(1,2,4,5,6,7,8), of v] by blast
  have h: "Head_disk rw s' = Some p" using r(3) by (simp add: Head_disk_def)
  have "rollback_cp rw n v s cp = Some (None, s', cp\<lparr>chains := (chains cp)(current cp \<mapsto> c')\<rparr>)"
    using assms(3) r(1,4,5,6) h by (simp add: rollback_cp_def)
  moreover have "current_ok rw s' c'" using h r(4,5,7) by (simp add: current_ok_def)
  ultimately show ?thesis using r by blast
qed

end

section \<open>The two implementations\<close>

interpretation account_rw: chain_rw "accountCh a ver" "\<lambda>bc. GetAccountByHeight (store bc) a"
  "\<lambda>bc. ac_wf bc \<and> account_ok bc a" "\<lambda>bc b. True"
  for a ver
proof unfold_locales
  fix s b v s'
  assume wf: "ac_wf s \<and> account_ok s a" and ext: "extends (rwHead (accountCh a ver) s) b"
    and ins: "rwInsert (accountCh a ver) b v s = Some (None, s')"
  then have ins': "InsertAccountBlock a b s = Some (None, s')"
    by (simp add: accountCh_def split: if_splits)
  show "(ac_wf s' \<and> account_ok s' a) \<and>
    GetAccountByHeight (store s') a = (GetAccountByHeight (store s) a)(Theight b \<mapsto> b) \<and>
    rwHead (accountCh a ver) s' = Some b"
    using wf ext InsertAccountBlock_account_ok [OF _ _ _ ins'] InsertAccountBlock_ac_wf [OF ins']
      InsertAccountBlock_head [OF ins'] InsertAccountBlock_GetAccountByHeight [OF ins']
    by (simp add: accountCh_def fun_eq_iff)
qed (auto simp: accountCh_def account_ok_def GetAccountByHeight_bc_def GetBlockByHeight_ac_def
      ac_wf_address emptyAccountHead_def NewAccountBlock_def)

lemma snapshot_head_exists: "snapshot_ok bc \<Longrightarrow> HeadSnapshot bc = None \<Longrightarrow> GetSnapshotByHeight (store bc) h = None"
  by (simp add: snapshot_ok_def chain_ok_def)

interpretation snapshot_rw: removable_rw snapshotCh "\<lambda>bc. GetSnapshotByHeight (store bc)"
  "\<lambda>bc. snapshot_ok bc \<and> HeadSnapshot bc \<noteq> None" snapshot_fresh
proof unfold_locales
  fix s b v s'
  assume wf: "snapshot_ok s \<and> HeadSnapshot s \<noteq> None" and ext: "extends (rwHead snapshotCh s) b"
    and fresh: "snapshot_fresh s b" and ins: "rwInsert snapshotCh b v s = Some (None, s')"
  then have ins': "InsertSnapshotBlock b s = Some (None, s')" by (simp add: snapshotCh_def)
  then have "map_option snd (InsertSnapshotBlock b s) = Some s'" by simp
  note facts = snapshot_chain.blocks_insert [OF _ this] snapshot_chain.head_insert [OF _ this]
  show "(snapshot_ok s' \<and> HeadSnapshot s' \<noteq> None) \<and>
    GetSnapshotByHeight (store s') = (GetSnapshotByHeight (store s))(Theight b \<mapsto> b) \<and>
    rwHead snapshotCh s' = Some b"
    using wf ext fresh facts InsertSnapshotBlock_snapshot_ok [OF _ _ _ ins'] by (simp add: snapshotCh_def)
next
  fix s b
  assume wf: "snapshot_ok s \<and> HeadSnapshot s \<noteq> None" and hd: "rwHead snapshotCh s = Some b" and pos: "0 < Theight b"
  then have b: "HeadSnapshot s = Some b" by (simp add: snapshotCh_def)
  have ok: "chain_ok (GetSnapshotByHeight (store s)) (Some b)" using wf b by (simp add: snapshot_ok_def)
  show "\<exists>s'. rwRemove snapshotCh b s = Some (None, s') \<and> (snapshot_ok s' \<and> HeadSnapshot s' \<noteq> None) \<and>
    GetSnapshotByHeight (store s') = (GetSnapshotByHeight (store s))(Theight b := None) \<and>
    rwHead snapshotCh s' = GetSnapshotByHeight (store s) (Theight b - 1)"
    using snapshot_chain.blocks_remove [of s b] snapshot_chain.head_remove [of s b]
      snapshot_chain.inv_remove [of s b] wf b pos chain_ok_Some [OF ok, of "Theight b - 1"]
    by (auto simp: snapshotCh_def)
qed (auto simp: snapshotCh_def snapshot_ok_def GetSnapshotByHeight_bc_def GetBlockHeight_sc_def)

section \<open>Moving blocks between memory and disk\<close>

text \<open>
  C15. When the pool writes the block above the tail of its current chain to an account chain,
  the account chain stays well formed with that block as its head, the current chain still
  starts at the head of the disk chain, and a reader of the current chain sees the same block at every height as before.
\<close>

theorem account_write_keeps_view:
  assumes "ac_wf bc" "account_ok bc a" "current_ok (accountCh a ver) bc c"
    "heightBlocks c (tailHeight c + 1) = Some w" "writeToChain (accountCh a ver) w bc c = Some (None, bc', c')"
  shows "account_ok bc' a \<and> acHead (acOf bc' a) = Some (block w) \<and> current_ok (accountCh a ver) bc' c' \<and>
    (\<forall>h. poolView (accountCh a ver) bc' c' h = poolView (accountCh a ver) bc c h)"
  using account_rw.writeToChain_view [OF _ assms(3,4) _ assms(5)] assms(1,2) by (auto simp: accountCh_def)

text \<open>
  C16. Rolling the snapshot chain of the pool back to a height \<open>n\<close> succeeds without panic: the
  disk chain ends at \<open>n\<close> and is well formed, the removed blocks are at the tail of the current
  chain, which starts at the new head of the disk chain, and a reader of the current chain
  sees the same block at every height as before.
\<close>

theorem snapshot_rollback_keeps_view:
  assumes "snapshot_ok bc" "HeadSnapshot bc = Some b" "chains cp (current cp) = Some c"
    "tailHeight c = Theight b" "forked_ok (Thash b) c" "fcTailHash c = Thash b" "0 \<le> n" "n \<le> Theight b"
  shows "\<exists>bc' c' p. rollback_cp snapshotCh n ver bc cp = Some (None, bc', cp\<lparr>chains := (chains cp)(current cp \<mapsto> c')\<rparr>) \<and>
    snapshot_ok bc' \<and> HeadSnapshot bc' = Some p \<and> Theight p = n \<and> current_ok snapshotCh bc' c' \<and>
    headHeight c' = headHeight c \<and> (\<forall>h. poolView snapshotCh bc' c' h = poolView snapshotCh bc c h)"
proof -
  have "snapshot_ok bc \<and> HeadSnapshot bc \<noteq> None" "rwHead snapshotCh bc = Some b" "n \<le> tailHeight c"
    using assms by (simp_all add: snapshotCh_def)
  from snapshot_rw.rollback_cp_view [OF this(1,2) assms(3,4,5,6,7) this(3), of ver]
  obtain bc' cp' c' p where r: "rollback_cp snapshotCh n ver bc cp = Some (None, bc', cp')" "snapshot_ok bc'"
    "cp' = cp\<lparr>chains := (chains cp)(current cp \<mapsto> c')\<rparr>" "rwHead snapshotCh bc' = Some p" "Theight p = n"
    "current_ok snapshotCh bc' c'" "headHeight c' = headHeight c"
    "\<forall>h. poolView snapshotCh bc' c' h = poolView snapshotCh bc c h"
    by blast
  then have "HeadSnapshot bc' = Some p" by (simp add: snapshotCh_def)
  then show ?thesis using r by blast
qed

text \<open>
  C17. Rolling back one block of an account chain always reports failure, although no snapshot
  point protects the block: after the removal the account chain still has the removed block
  as its head, so the final check of \<open>rollback\<close> does not find the tail of the current
  chain there; the block itself is gone from the disk and back in memory.
\<close>

theorem account_rollback_fails:
  assumes "ac_wf bc" "account_ok bc a" "acHead (acOf bc a) = Some b" "GetAccountByHash (store bc) (Thash b) = Some b"
    "\<not> hasSnapshotPoint (acOf bc a) (Theight b) (Thash b)"
    "AccountRemoveCallback (acListener (acOf bc a)) b (reqs bc) \<noteq> None"
    "chains cp (current cp) = Some c" "tailHeight c = Theight b"
  shows "\<exists>bc' cp' c'. rollback_cp (accountCh a ver) (Theight b - 1) ver bc cp = Some (Some RollbackFail, bc', cp') \<and>
    acHead (acOf bc' a) = Some b \<and> GetAccountByHeight (store bc') a (Theight b) = None \<and>
    chains cp' (current cp) = Some c' \<and> map_option block (heightBlocks c' (Theight b)) = Some b"
proof -
  have ok: "chain_ok (GetAccountByHeight (store bc) a) (Some b)" using assms(2,3) by (simp add: account_ok_def)
  have adr: "address (acOf bc a) = a" using ac_wf_address [OF assms(1)] .
  let ?w = "\<lparr>block = b, forkVersion = ver\<rparr>"
  have get: "getBlock_disk (accountCh a ver) ver bc (Theight b) = Some ?w"
    using chain_okD(1,2) [OF ok]
    by (simp add: getBlock_disk_def accountCh_def GetAccountByHeight_bc_def GetBlockByHeight_ac_def adr)
  obtain bc' where rem: "RemoveAccountHead a b bc = Some (None, bc')"
    using assms(5,6) by (fastforce simp: RemoveAccountHead_def removeChain_ac_def Let_def split: Option.bind_splits)
  have gone: "acHead (acOf bc' a) = Some b" "GetAccountByHeight (store bc') a (Theight b) = None"
    using RemoveAccountHead_leaves_head [OF assms(1,3,4,5) rem] by simp_all
  have "rev [Theight b - 1 + 1..tailHeight c] = [Theight b]" using assms(8) by simp
  then have loop: "rollbackLoop (accountCh a ver) ver (rev [Theight b - 1 + 1..tailHeight c]) bc c = Some (None, bc', addTail ?w c)"
    using get rem by (simp add: accountCh_def)
  have "Head_disk (accountCh a ver) bc' = Some b" using gone(1) by (simp add: Head_disk_def accountCh_def)
  then have "rollback_cp (accountCh a ver) (Theight b - 1) ver bc cp =
      Some (Some RollbackFail, bc', cp\<lparr>chains := (chains cp)(current cp \<mapsto> addTail ?w c)\<rparr>)"
    using assms(7) loop by (simp add: rollback_cp_def) (simp add: addTail_def)
  moreover have "heightBlocks (addTail ?w c) (Theight b) = Some ?w" by (simp add: addTail_def)
  ultimately show ?thesis using gone by fastforce
qed

section \<open>Witnesses\<close>

text \<open>
  The pool of \<open>jie\<close> holds the receive block above the genesis block; the pool of the snapshot
  chain is empty above the first snapshot block.
\<close>

definition ex_pool_chain :: "unit AccountStateBlock_ext forked" where
  "ex_pool_chain = addHead \<lparr>block = ex_recv, forkVersion = 0\<rparr>
     (init_fc ''p-1'' Disk (genesisAccountBlock ''jie''))"

lemma ex_pool_chain_simps [simp]:
  "tailHeight ex_pool_chain = 0" "heightBlocks ex_pool_chain = [1 \<mapsto> \<lparr>block = ex_recv, forkVersion = 0\<rparr>]"
  by (simp_all add: ex_pool_chain_def addHead_def init_fc_def)

lemma ex_pool_chain_ok: "forked_ok (Thash (genesisAccountBlock ''jie'')) ex_pool_chain"
proof -
  have "insert_fc \<lparr>block = ex_recv, forkVersion = 0\<rparr> (init_fc ''p-1'' Disk (genesisAccountBlock ''jie'')) =
      (None, ex_pool_chain)"
    by (simp add: insert_fc_def ex_pool_chain_def) (simp add: init_fc_def)
  then show ?thesis
    using insert_fc_ok [OF init_fc_ok [of "genesisAccountBlock ''jie''" "''p-1''" Disk],
        of "\<lparr>block = ex_recv, forkVersion = 0\<rparr>"] by simp
qed

theorem account_write_keeps_view_witness:
  "account_ok ex2 ''jie'' \<and> (\<exists>c'. writeToChain (accountCh ''jie'' 0) \<lparr>block = ex_recv, forkVersion = 0\<rparr> ex1 ex_pool_chain =
     Some (None, ex2, c') \<and> poolView (accountCh ''jie'' 0) ex2 c' 1 = Some ex_recv)"
proof -
  let ?w = "\<lparr>block = ex_recv, forkVersion = 0\<rparr>"
  have w: "writeToChain (accountCh ''jie'' 0) ?w ex1 ex_pool_chain = Some (None, ex2, removeTail ?w ex_pool_chain)"
    using ex2 by (simp add: writeToChain_def accountCh_def)
  have cur: "current_ok (accountCh ''jie'' 0) ex1 ex_pool_chain"
    using ex_pool_chain_ok by (simp add: current_ok_def Head_disk_def accountCh_def)
  have b: "heightBlocks ex_pool_chain (tailHeight ex_pool_chain + 1) = Some ?w" by simp
  have "poolView (accountCh ''jie'' 0) ex1 ex_pool_chain 1 = Some ex_recv" by (simp add: poolView_def)
  then show ?thesis
    using account_write_keeps_view [OF chain_invD(1) [OF ex_inv(2)] chain_invD(4) [OF ex_inv(2) key_neq(2)] cur b w] w by auto
qed

theorem account_rollback_fails_witness:
  "\<exists>bc' cp'. rollback_cp (accountCh ''viteshan'' 0) 0 0 ex1
     \<lparr>poolId = ''p'', lastestChainIdx = 1, current = ''p-1'', snippetChains = Map.empty,
      chains = [''p-1'' \<mapsto> init_fc ''p-1'' Disk ex_send]\<rparr> = Some (Some RollbackFail, bc', cp') \<and>
     acHead (acOf bc' ''viteshan'') = Some ex_send"
proof -
  have ac1: "acOf ex1 ''viteshan'' = (acOf ex0 ''viteshan'')\<lparr>acHead := Some ex_send\<rparr>"
    using InsertAccountBlock_Some(2) [OF ex1] by simp
  then have no: "\<not> hasSnapshotPoint (acOf ex1 ''viteshan'') (Theight ex_send) (Thash ex_send)"
    "AccountRemoveCallback (acListener (acOf ex1 ''viteshan'')) ex_send (reqs ex1) \<noteq> None"
    by (simp_all add: hasSnapshotPoint_def peek_def acOf_None)
  have t: "tailHeight (init_fc ''p-1'' Disk ex_send) = Theight ex_send" by (simp add: init_fc_def)
  show ?thesis
    using account_rollback_fails [OF chain_invD(1) [OF ex_inv(2)] chain_invD(4) [OF ex_inv(2) key_neq(1)] _ _ no _ t,
        of "\<lparr>poolId = ''p'', lastestChainIdx = 1, current = ''p-1'', snippetChains = Map.empty,
      chains = [''p-1'' \<mapsto> init_fc ''p-1'' Disk ex_send]\<rparr>" 0] ex1_hash by auto
qed

definition ex3 :: blockchain where
  "ex3 = snd (the (InsertSnapshotBlock ex_snap ex2))"

lemma ex_snap_simps [simp]: "Theight ex_snap = 1" "Thash ex_snap = ''snap1''" "TpreHash ex_snap = Thash genesisSnapshot"
  "Accounts ex_snap = [NewAccountHashH ''viteshan'' ''send1'' 1, NewAccountHashH ''jie'' ''recv1'' 1]"
  by (simp_all add: ex_snap_def NewSnapshotBlock_def)

lemma ex3: "InsertSnapshotBlock ex_snap ex2 = Some (None, ex3)" "chain_inv ex3" "HeadSnapshot ex3 = Some ex_snap"
proof -
  have "snapshot_fresh ex2 ex_snap"
    using InsertAccountBlock_snapshots(2) [OF ex2] InsertAccountBlock_snapshots(2) [OF ex1]
    by (simp add: snapshot_fresh_def) (simp add: ex0_def NewChain_eq NewMemoryStore_heads snapshot_hash.get_put
        genesisSnapshot_def NewSnapshotBlock_def)
  moreover have ins: "\<exists>bc'. InsertSnapshotBlock ex_snap ex2 = Some (None, bc') \<and> extends (HeadSnapshot ex2) ex_snap"
    using snapshot_round_holds [OF ex_inv(3) ex2_next, of ex_snap "''snap1''" "''viteshan''" 0] ex2_points
    by (auto simp: ex_snap_def)
  then show i: "InsertSnapshotBlock ex_snap ex2 = Some (None, ex3)" by (auto simp: ex3_def)
  ultimately show "chain_inv ex3" using ins by (blast intro: chain_inv_InsertSnapshotBlock [OF ex_inv(3)])
  show "HeadSnapshot ex3 = Some ex_snap" using InsertSnapshotBlock_Some(1) [OF i] by (simp add: HeadSnapshot_def)
qed

theorem snapshot_rollback_keeps_view_witness:
  "\<exists>bc' cp'. rollback_cp snapshotCh 0 0 ex3
     \<lparr>poolId = ''p'', lastestChainIdx = 1, current = ''p-1'', snippetChains = Map.empty,
      chains = [''p-1'' \<mapsto> init_fc ''p-1'' Disk ex_snap]\<rparr> = Some (None, bc', cp') \<and>
     (\<exists>p. HeadSnapshot bc' = Some p \<and> Theight p = 0)"
proof -
  let ?cp = "\<lparr>poolId = ''p'', lastestChainIdx = 1, current = ''p-1'', snippetChains = Map.empty,
      chains = [''p-1'' \<mapsto> init_fc ''p-1'' Disk ex_snap]\<rparr>"
  have "forked_ok (Thash ex_snap) (init_fc ''p-1'' Disk ex_snap)" by (rule init_fc_ok)
  from snapshot_rollback_keeps_view [OF chain_invD(2) [OF ex3(2)] ex3(3) _ _ this, of ?cp 0 0]
  show ?thesis by (fastforce simp: init_fc_def)
qed

end
