(* ===== verification/BC_Pool_Props.thy ===== *)
theory BC_Pool_Props
  imports BC_Pool Pool_Disk_Props
begin

text \<open>
  Correctness of the block pool of one chain: the fork point of two chains, the choice of the
  longest chain, the compounding of free blocks into snippets, the placement of snippets on
  chains, and the requests for missing predecessors.
\<close>

section \<open>Fork points\<close>

definition same_hash :: "'a Tblock_scheme option \<Rightarrow> 'a Tblock_scheme option \<Rightarrow> bool" where
  "same_hash x y = (case (x, y) of (Some b, Some c) \<Rightarrow> Thash b = Thash c | _ \<Rightarrow> False)"

lemma forkPointDown_spec:
  fixes i :: int
  assumes F: "\<And>h. longest h = Some (F h)" and G: "\<And>h. cur h = Some (G h)"
    and some: "\<And>h. 0 \<le> h \<Longrightarrow> h \<le> i \<Longrightarrow> F h \<noteq> None \<and> G h \<noteq> None"
    and genesis: "same_hash (F 0) (G 0)" and "0 \<le> i"
  shows "\<exists>k b. 0 \<le> k \<and> k \<le> i \<and> forkPointDown longest cur i = Some (Inr (F (k + 1), b)) \<and> F k = Some b \<and>
    same_hash (F k) (G k) \<and> (\<forall>h. k < h \<longrightarrow> h \<le> i \<longrightarrow> \<not> same_hash (F h) (G h))"
  using assms(5) some
proof (induction "nat i" arbitrary: i)
  case 0
  then have i: "i = 0" by simp
  then obtain b c where "F 0 = Some b" "G 0 = Some c" "Thash b = Thash c"
    using genesis by (auto simp: same_hash_def split: option.splits)
  then show ?case using i by (intro exI [of _ 0] exI [of _ b]) (simp add: forkPointDown.simps F G same_hash_def)
next
  case (Suc n)
  then obtain b c where bc: "F i = Some b" "G i = Some c" by fastforce
  show ?case
  proof (cases "Thash b = Thash c")
    case True
    then show ?thesis
      using bc Suc.prems(1) by (intro exI [of _ i] exI [of _ b]) (simp add: forkPointDown.simps F G same_hash_def)
  next
    case False
    then have step: "forkPointDown longest cur i = forkPointDown longest cur (i - 1)"
      using bc by (subst forkPointDown.simps) (simp add: F G)
    have n: "n = nat (i - 1)" "0 \<le> i - 1" using Suc.hyps(2) by simp_all
    obtain k d where k: "0 \<le> k" "k \<le> i - 1" "forkPointDown longest cur (i - 1) = Some (Inr (F (k + 1), d))"
      "F k = Some d" "same_hash (F k) (G k)" "\<And>h. k < h \<Longrightarrow> h \<le> i - 1 \<Longrightarrow> \<not> same_hash (F h) (G h)"
      using Suc.hyps(1) [OF n] Suc.prems(2) by (smt (verit))
    have "\<not> same_hash (F h) (G h)" if "k < h" "h \<le> i" for h
      using k(6) [of h] that False bc by (cases "h = i") (auto simp: same_hash_def)
    then show ?thesis using k step by auto
  qed
qed

text \<open>
  C18. \<open>getForkPoint\<close> returns on two chains that share their first block, when the first chain
  reaches the head of the second: the fork point is the highest common block up to that head,
  the key point is the next block of the first chain, and the two chains agree on every block
  up to the fork point, provided that equal hashes mean equal blocks.
\<close>

theorem getForkPoint_spec:
  assumes c: "cs cur = Some c" "0 \<le> headHeight c"
    and F: "\<And>h. GetBlock cs disk longest h = Some (F h)" and G: "\<And>h. GetBlock cs disk cur h = Some (G h)"
    and lF: "linked F 0 (headHeight c)" and lG: "linked G 0 (headHeight c)" and genesis: "same_hash (F 0) (G 0)"
    and inj: "\<And>h b d. F h = Some b \<Longrightarrow> G h = Some d \<Longrightarrow> Thash b = Thash d \<Longrightarrow> b = d"
  shows "\<exists>k b. 0 \<le> k \<and> k \<le> headHeight c \<and> getForkPoint cs disk longest cur = Some (Inr (F (k + 1), b)) \<and>
    F k = Some b \<and> (\<forall>h. 0 \<le> h \<longrightarrow> h \<le> k \<longrightarrow> F h = G h) \<and>
    (\<forall>h. k < h \<longrightarrow> h \<le> headHeight c \<longrightarrow> F h \<noteq> G h)"
proof -
  have some: "F h \<noteq> None \<and> G h \<noteq> None" if "0 \<le> h" "h \<le> headHeight c" for h
    using linked_get [OF lF that] linked_get [OF lG that] by auto
  obtain k b where k: "0 \<le> k" "k \<le> headHeight c"
    "forkPointDown (GetBlock cs disk longest) (GetBlock cs disk cur) (headHeight c) = Some (Inr (F (k + 1), b))"
    "F k = Some b" "same_hash (F k) (G k)" "\<forall>h. k < h \<longrightarrow> h \<le> headHeight c \<longrightarrow> \<not> same_hash (F h) (G h)"
    using forkPointDown_spec [of "GetBlock cs disk longest" F "GetBlock cs disk cur" G "headHeight c", OF F G some genesis c(2)]
    by blast
  have top: "F k = G k" using k(4,5) inj [of k] by (auto simp: same_hash_def split: option.splits)
  have "F h = G h" if "0 \<le> h" "h \<le> k" for h
    by (rule linked_agree_below [OF linked_sub [OF lF] linked_sub [OF lG] top _ that]) (use k(2) inj in auto)
  moreover have "F h \<noteq> G h" if "k < h" "h \<le> headHeight c" for h
    using k(1,6) that some [of h] by (auto simp: same_hash_def)
  ultimately show ?thesis using c(1) k by (auto simp: getForkPoint_def)
qed

section \<open>The longest chain\<close>

lemma foldl_longest:
  fixes hh :: "'c \<Rightarrow> int" and cs :: "'k \<Rightarrow> 'c option"
  defines "step \<equiv> \<lambda>l cid. case cs cid of None \<Rightarrow> l | Some r \<Rightarrow> if hh r > hh l then r else l"
  shows "(foldl step l order = l \<or> (\<exists>cid\<in>set order. cs cid = Some (foldl step l order))) \<and> hh l \<le> hh (foldl step l order) \<and>
    (\<forall>cid\<in>set order. \<forall>r. cs cid = Some r \<longrightarrow> hh r \<le> hh (foldl step l order)) \<and>
    (foldl step l order \<noteq> l \<longrightarrow> hh l < hh (foldl step l order))"
proof (induction order arbitrary: l)
  case (Cons cid order)
  have s: "step l cid = l \<or> (cs cid = Some (step l cid) \<and> hh l < hh (step l cid))" "hh l \<le> hh (step l cid)"
    "\<And>r. cs cid = Some r \<Longrightarrow> hh r \<le> hh (step l cid)"
    by (auto simp: step_def split: option.splits)
  show ?case using Cons.IH [of "step l cid"] s by (auto; force)
qed simp

text \<open>
  C40. \<open>LongestChain\<close> keeps the current chain unless some chain is at least five blocks longer,
  and then it returns a chain of maximal height, whatever the order in which the chains are visited.
\<close>

theorem LongestChain_spec:
  assumes cur: "chains cp (current cp) = Some cur" "chainId cur = current cp"
    and ids: "\<And>cid c. cid \<in> set order \<Longrightarrow> chains cp cid = Some c \<Longrightarrow> chainId c = cid"
  shows "\<exists>cid. LongestChain cp order = Some cid \<and>
    (cid = current cp \<and> (\<forall>d\<in>set order. \<forall>c. chains cp d = Some c \<longrightarrow> headHeight c \<le> headHeight cur + 4) \<or>
     (\<exists>c. cid \<in> set order \<and> chains cp cid = Some c \<and> headHeight cur + 4 < headHeight c \<and>
        (\<forall>d\<in>set order. \<forall>e. chains cp d = Some e \<longrightarrow> headHeight e \<le> headHeight c)))"
proof -
  define l where "l = foldl (\<lambda>l cid. case chains cp cid of None \<Rightarrow> l
      | Some r \<Rightarrow> if headHeight r > headHeight l then r else l) cur order"
  have l: "(l = cur \<or> (\<exists>cid\<in>set order. chains cp cid = Some l)) \<and> headHeight cur \<le> headHeight l \<and>
    (\<forall>cid\<in>set order. \<forall>r. chains cp cid = Some r \<longrightarrow> headHeight r \<le> headHeight l) \<and> (l \<noteq> cur \<longrightarrow> headHeight cur < headHeight l)"
    unfolding l_def by (rule foldl_longest)
  have eq: "LongestChain cp order = Some (if headHeight l - 4 > headHeight cur then chainId l else chainId cur)"
    by (simp add: LongestChain_def cur(1) l_def)
  show ?thesis
  proof (cases "headHeight l - 4 > headHeight cur")
    case True
    then obtain d where d: "d \<in> set order" "chains cp d = Some l" using l by force
    with ids have "LongestChain cp order = Some d" using eq True by simp
    moreover have "headHeight cur + 4 < headHeight l" using True by simp
    ultimately show ?thesis using d l by blast
  next
    case False
    then have "LongestChain cp order = Some (current cp)" "headHeight l \<le> headHeight cur + 4" using eq cur(2) by simp_all
    moreover from this(2) have "\<forall>d\<in>set order. \<forall>c. chains cp d = Some c \<longrightarrow> headHeight c \<le> headHeight cur + 4"
      using l by fastforce
    ultimately show ?thesis by blast
  qed
qed

section \<open>Compounding free blocks\<close>

text \<open>
  Joining snippets ends: every round removes an entry of the table of heads, and every entry
  names a snippet.
\<close>

lemma mergeLoop_total:
  assumes "finite (dom headMap)" "ran headMap \<subseteq> dom heap" "cid \<in> dom heap"
  shows "\<exists>headMap' heap'. mergeLoop cid headMap heap = Some (headMap', heap') \<and> finite (dom headMap') \<and>
    ran headMap' \<subseteq> ran headMap \<and> dom heap' = dom heap"
  using assms
proof (induction "card (dom headMap)" arbitrary: headMap heap)
  case 0
  then have "headMap = Map.empty" by simp
  then show ?case using "0.prems"(3) by (auto simp: mergeLoop.simps)
next
  case (Suc n)
  obtain c where c: "heap cid = Some c" using Suc.prems(3) by auto
  show ?case
  proof (cases "\<exists>ocid. headMap (tailHash c) = Some ocid \<and> ocid \<noteq> cid")
    case False
    then have "mergeLoop cid headMap heap = Some (headMap, heap)"
      using c by (subst mergeLoop.simps) (auto split: option.split)
    then show ?thesis using Suc.prems by auto
  next
    case True
    then obtain ocid oc where o: "headMap (tailHash c) = Some ocid" "ocid \<noteq> cid" "heap ocid = Some oc"
      using Suc.prems(2) by (fastforce simp: ran_def)
    let ?m = "headMap(tailHash c := None)" and ?h = "heap(cid \<mapsto> merge_sn oc c)"
    have step: "mergeLoop cid headMap heap = mergeLoop cid ?m ?h"
      using c o by (subst mergeLoop.simps) simp
    have dm: "dom ?m = dom headMap - {tailHash c}" "tailHash c \<in> dom headMap" using o(1) by auto
    have rm: "ran ?m \<subseteq> ran headMap" by (auto simp: ran_def)
    have dh: "dom ?h = dom heap" using c by auto
    have n: "n = card (dom ?m)" unfolding dm(1) using Suc.hyps(2) dm(2) Suc.prems(1) by simp
    have "finite (dom ?m)" "ran ?m \<subseteq> dom ?h" "cid \<in> dom ?h"
      unfolding dm(1) dh using Suc.prems rm by auto
    from Suc.hyps(1) [OF n this]
    obtain m' h' where r: "mergeLoop cid ?m ?h = Some (m', h')" "finite (dom m')" "ran m' \<subseteq> ran ?m" "dom h' = dom ?h"
      by blast
    then have "ran m' \<subseteq> ran headMap" "dom h' = dom heap" using rm dh by (blast, metis)
    then show ?thesis unfolding step using r(1,2) by blast
  qed
qed

lemma mergeAll_total:
  assumes "finite (dom headMap)" "ran headMap \<subseteq> dom heap" "set cids \<subseteq> dom heap"
  shows "\<exists>r. mergeAll cids headMap heap = Some r"
  using assms
proof (induction cids arbitrary: headMap heap)
  case (Cons cid cids)
  then obtain m h where "mergeLoop cid headMap heap = Some (m, h)" "finite (dom m)" "ran m \<subseteq> ran headMap" "dom h = dom heap"
    using mergeLoop_total [of headMap heap cid] by auto
  then show ?case using Cons by (auto intro!: Cons.IH)
qed simp

lemma splitToMap_props:
  "finite (dom (splitToMap cs)) \<and> ran (splitToMap cs) \<subseteq> set (map chainId cs)"
proof -
  define f :: "(string \<rightharpoonup> string) \<Rightarrow> 'a snippet \<Rightarrow> (string \<rightharpoonup> string)"
    where "f m c = m(headHash c \<mapsto> chainId c)" for m c
  have f: "finite (dom m) \<Longrightarrow> finite (dom (f m c))" "ran (f m c) \<subseteq> insert (chainId c) (ran m)" for m c
    by (auto simp: f_def ran_def)
  have "finite (dom m) \<Longrightarrow> finite (dom (foldl f m cs)) \<and> ran (foldl f m cs) \<subseteq> ran m \<union> set (map chainId cs)" for m
  proof (induction cs arbitrary: m)
    case (Cons c cs)
    show ?case using Cons.IH [OF f(1) [OF Cons.prems]] f(2) [of m c] by auto
  qed simp
  from this [of Map.empty] show ?thesis by (simp add: splitToMap_def f_def [abs_def])
qed

lemma dom_heapOf: "dom (heapOf cs) = set (map chainId cs)"
  by (simp add: heapOf_def dom_map_of_conv_image_fst image_image)

lemma genSnippets_blockpool:
  "blockpool (snd (genSnippets vs cs p)) = fold compound vs (blockpool p)"
  by (induction vs arbitrary: cs p) (simp_all add: Let_def case_prod_beta)

lemma fold_compound:
  "freeBlocks (fold compound vs bp) h = (if h \<in> (\<lambda>v. Thash (block v)) ` set vs then None else freeBlocks bp h)"
  "h \<in> (\<lambda>v. Thash (block v)) ` set vs \<Longrightarrow> compoundBlocks (fold compound vs bp) h \<noteq> None"
proof -
  have keep: "compoundBlocks bp h \<noteq> None \<Longrightarrow> compoundBlocks (fold compound vs bp) h \<noteq> None" for vs bp
    by (induction vs arbitrary: bp) (auto simp: compound_def)
  show "freeBlocks (fold compound vs bp) h = (if h \<in> (\<lambda>v. Thash (block v)) ` set vs then None else freeBlocks bp h)"
    by (induction vs arbitrary: bp) (auto simp: compound_def)
  show "h \<in> (\<lambda>v. Thash (block v)) ` set vs \<Longrightarrow> compoundBlocks (fold compound vs bp) h \<noteq> None"
  proof (induction vs arbitrary: bp)
    case (Cons v vs)
    show ?case
    proof (cases "h = Thash (block v)")
      case True
      then have "compoundBlocks (compound v bp) h \<noteq> None" by (simp add: compound_def)
      from keep [OF this, of vs] show ?thesis by simp
    next
      case False
      then show ?thesis using Cons by auto
    qed
  qed simp
qed

text \<open>
  C21. Compounding always ends, for any pending blocks and any snippets: it counts the pending
  blocks, takes each of them out of the free blocks into the compound blocks, and a block that
  arrives again with the same hash is ignored from then on.
\<close>

theorem loopGenSnippetChains_total:
  "\<exists>p'. loopGenSnippetChains pending snips p = Some (int (length pending), p') \<and>
    (\<forall>v\<in>set pending. freeBlocks (blockpool p') (Thash (block v)) = None \<and>
       compoundBlocks (blockpool p') (Thash (block v)) \<noteq> None \<and> AddBlock ver (block v) p' = p')"
proof -
  obtain cs p1 where g: "genSnippets pending snips p = (cs, p1)" by (cases "genSnippets pending snips p")
  then have bp: "blockpool p1 = fold compound pending (blockpool p)"
    using genSnippets_blockpool [of pending snips p] by simp
  obtain m h where r: "mergeAll (map chainId cs) (splitToMap cs) (heapOf cs) = Some (m, h)"
    using mergeAll_total [of "splitToMap cs" "heapOf cs" "map chainId cs"] splitToMap_props [of cs] dom_heapOf [of cs]
    by auto
  obtain p' where p': "loopGenSnippetChains pending snips p = Some (int (length pending), p')" "blockpool p' = blockpool p1"
    using g r by (auto simp: loopGenSnippetChains_def)
  have "freeBlocks (blockpool p') (Thash (block v)) = None \<and> compoundBlocks (blockpool p') (Thash (block v)) \<noteq> None"
    if "v \<in> set pending" for v
    using that p'(2) bp fold_compound [where vs = pending and bp = "blockpool p" and h = "Thash (block v)"] by auto
  moreover from this have "AddBlock ver (block v) p' = p'" if "v \<in> set pending" for v
    using that by (simp add: AddBlock_def contains_bp_def)
  ultimately show ?thesis using p'(1) by blast
qed

text \<open>
  A block of a fork that lies strictly inside the heights of a snippet is lost: compounding
  drops it without adding it to any snippet, and since it counts as compounded it is ignored
  when it arrives again.
\<close>

theorem fork_block_dropped:
  assumes "snippet_ok c" "tailHash c \<noteq> Thash (block w)" "tailHeight c < Theight (block w)" "Theight (block w) < headHeight c"
    "heightBlocks c (Theight (block w)) = Some u" "Thash (block u) \<noteq> Thash (block w)"
  shows "\<exists>p'. loopGenSnippetChains [w] [c] p = Some (1, p') \<and>
    (\<forall>cid s h. snippetChains (chainpool p') cid = Some s \<longrightarrow> heightBlocks s h \<noteq> Some w) \<and> AddBlock ver (block w) p' = p'"
proof -
  let ?p1 = "p\<lparr>blockpool := compound w (blockpool p)\<rparr>"
  have g: "genSnippets [w] [c] p = ([c], ?p1)" using assms(2,3,4) by simp
  have m: "mergeLoop (chainId c) [headHash c \<mapsto> chainId c] [chainId c \<mapsto> c] = Some ([headHash c \<mapsto> chainId c], [chainId c \<mapsto> c])"
    by (subst mergeLoop.simps) simp
  define p' where "p' = ?p1\<lparr>chainpool := (chainpool p)\<lparr>snippetChains := [chainId c \<mapsto> c]\<rparr>\<rparr>"
  have "loopGenSnippetChains [w] [c] p = Some (1, p')"
    unfolding loopGenSnippetChains_def g using m by (simp add: splitToMap_def heapOf_def p'_def fun_upd_def fun_eq_iff)
  moreover have "heightBlocks c h \<noteq> Some w" for h
  proof
    assume h: "heightBlocks c h = Some w"
    then have "own c h = Some (block w)" by (simp add: own_def)
    then have "h = Theight (block w)"
      using run_ok_height(1) assms(1) unfolding snippet_ok_def by fastforce
    then show False using h assms(5,6) by simp
  qed
  then have "\<forall>cid s h. snippetChains (chainpool p') cid = Some s \<longrightarrow> heightBlocks s h \<noteq> Some w"
    by (simp add: p'_def)
  moreover have "AddBlock ver (block w) p' = p'"
    by (simp add: AddBlock_def contains_bp_def p'_def compound_def)
  ultimately show ?thesis by blast
qed

section \<open>Placing snippets\<close>

lemma deleteTail_frames [simp]:
  "headHeight (deleteTail w c) = headHeight c" "headHash (deleteTail w c) = headHash c" "chainId (deleteTail w c) = chainId c"
  "tailHash (deleteTail w c) = Thash (block w)"
  by (simp_all add: deleteTail_def)

lemma snippet_get:
  assumes "snippet_ok c" "tailHeight c < h" "h \<le> headHeight c"
  obtains w where "heightBlocks c h = Some w" "Theight (block w) = h"
  using run_ok_get [of "own c" "tailHeight c" "headHeight c" "tailHash c" "headHash c" h] assms
  by (auto simp: snippet_ok_def own_Some)

lemma snippet_None:
  assumes "snippet_ok c" "h \<le> tailHeight c \<or> headHeight c < h"
  shows "heightBlocks c h = None"
  using run_ok_None [of "own c" "tailHeight c" "headHeight c" "tailHash c" "headHash c" h] assms
  by (simp add: snippet_ok_def)

text \<open>The chain \<open>G\<close> and the snippet have the same block, or different blocks, at a height.\<close>

definition agrees_at :: "(int \<Rightarrow> 'a pblock option) \<Rightarrow> 'a snippet \<Rightarrow> int \<Rightarrow> bool" where
  "agrees_at G s h \<longleftrightarrow> (\<exists>u w. G h = Some u \<and> heightBlocks s h = Some w \<and> Thash (block u) = Thash (block w))"

definition parts_at :: "(int \<Rightarrow> 'a pblock option) \<Rightarrow> 'a snippet \<Rightarrow> int \<Rightarrow> bool" where
  "parts_at G s h \<longleftrightarrow> (\<exists>u w. G h = Some u \<and> heightBlocks s h = Some w \<and> Thash (block u) \<noteq> Thash (block w))"

lemma parts_not_agrees: "parts_at G s h \<Longrightarrow> \<not> agrees_at G s h"
  by (auto simp: parts_at_def agrees_at_def)

text \<open>
  The snippet \<open>s'\<close> is the snippet \<open>s\<close> cut at a height that it shares with the chain \<open>G\<close>; every
  block that was cut off is on \<open>G\<close>.
\<close>

definition cut_to :: "(int \<Rightarrow> 'a pblock option) \<Rightarrow> 'a snippet \<Rightarrow> 'a snippet \<Rightarrow> bool" where
  "cut_to G s s' \<longleftrightarrow> snippet_ok s' \<and> tailHeight s \<le> tailHeight s' \<and> headHeight s' = headHeight s \<and>
     headHash s' = headHash s \<and> chainId s' = chainId s \<and>
     (\<forall>h. heightBlocks s' h = (if h \<le> tailHeight s' then None else heightBlocks s h)) \<and>
     (\<exists>u. G (tailHeight s') = Some u \<and> Thash (block u) = tailHash s') \<and>
     (\<forall>h. tailHeight s < h \<and> h \<le> tailHeight s' \<longrightarrow> agrees_at G s h)"

lemma cut_to_refl:
  assumes "snippet_ok s" "G (tailHeight s) = Some u" "Thash (block u) = tailHash s"
  shows "cut_to G s s"
  using assms snippet_None [OF assms(1)] by (auto simp: cut_to_def)

lemma cut_to_trans:
  assumes "cut_to G s s1" "cut_to G s1 s2"
  shows "cut_to G s s2"
proof -
  have "agrees_at G s h" if "tailHeight s < h" "h \<le> tailHeight s2" for h
  proof (cases "h \<le> tailHeight s1")
    case False
    then have "agrees_at G s1 h" using assms(2) that by (simp add: cut_to_def)
    then show ?thesis using assms(1) False by (simp add: agrees_at_def cut_to_def)
  qed (use assms(1) that in \<open>simp add: cut_to_def\<close>)
  then show ?thesis using assms by (auto simp: cut_to_def)
qed

lemma forkPointLoop_spec:
  assumes get: "\<And>h. get h = Some (G h)" and "snippet_ok s" "Thash (block fp) = tailHash s"
    "G (tailHeight s) = Some u" "Thash (block u) = tailHash s"
  shows "\<exists>r s'. forkPointLoop get [tailHeight s + 1..headHeight s] fp s = Some (r, s') \<and> cut_to G s s' \<and>
    (case r of
       None \<Rightarrow> tailHeight s' = headHeight s \<or> G (tailHeight s' + 1) = None
     | Some p \<Rightarrow> Thash (block p) = tailHash s' \<and> parts_at G s (tailHeight s' + 1))"
  using assms(2-5)
proof (induction "nat (headHeight s - tailHeight s)" arbitrary: s fp u)
  case 0
  have "tailHeight s \<le> headHeight s" using "0.prems"(1) run_okD(1) by (auto simp: snippet_ok_def)
  then have e: "tailHeight s = headHeight s" using "0.hyps" by simp
  moreover have "cut_to G s s" using "0.prems" by (intro cut_to_refl)
  ultimately show ?case by auto
next
  case (Suc n)
  have lt: "tailHeight s + 1 \<le> headHeight s" using Suc.hyps(2) by simp
  have l: "[tailHeight s + 1..headHeight s] = (tailHeight s + 1) # [tailHeight s + 1 + 1..headHeight s]"
    using lt by (simp add: upto_rec1)
  have cs: "cut_to G s s" using Suc.prems(1,3,4) by (rule cut_to_refl)
  obtain w where w: "heightBlocks s (tailHeight s + 1) = Some w" "Theight (block w) = tailHeight s + 1"
    using snippet_get [OF Suc.prems(1), of "tailHeight s + 1"] lt by auto
  show ?case
  proof (cases "G (tailHeight s + 1)")
    case None
    then have "forkPointLoop get [tailHeight s + 1..headHeight s] fp s = Some (None, s)" by (simp add: l get)
    then show ?thesis using cs None by auto
  next
    case (Some v)
    show ?thesis
    proof (cases "Thash (block w) = Thash (block v)")
      case False
      then have "forkPointLoop get [tailHeight s + 1..headHeight s] fp s = Some (Some fp, s)"
        using Some w(1) by (simp add: l get)
      moreover have "parts_at G s (tailHeight s + 1)" using False Some w(1) by (auto simp: parts_at_def)
      ultimately show ?thesis using cs Suc.prems(2) by auto
    next
      case True
      let ?s = "deleteTail w s"
      note d = deleteTail_ok [OF Suc.prems(1) w(1)]
      have n: "n = nat (headHeight ?s - tailHeight ?s)" using Suc.hyps(2) d(2) by simp
      have G: "G (tailHeight ?s) = Some v" "Thash (block v) = tailHash ?s" using Some d(2) True by simp_all
      obtain r s' where r: "forkPointLoop get [tailHeight ?s + 1..headHeight ?s] w ?s = Some (r, s')" "cut_to G ?s s'"
        "case r of None \<Rightarrow> tailHeight s' = headHeight ?s \<or> G (tailHeight s' + 1) = None
         | Some p \<Rightarrow> Thash (block p) = tailHash s' \<and> parts_at G ?s (tailHeight s' + 1)"
        using Suc.hyps(1) [OF n d(1) _ G, of w] by auto
      have "forkPointLoop get [tailHeight s + 1..headHeight s] fp s = Some (r, s')"
        using r(1) Some w(1) True d(2) by (simp add: l get)
      moreover have hb: "heightBlocks ?s h = (if h = tailHeight s + 1 then None else heightBlocks s h)" for h
        using w(2) by (simp add: deleteTail_def)
      have "agrees_at G s h" if "tailHeight s < h" "h \<le> tailHeight ?s" for h
      proof -
        have "h = tailHeight s + 1" using that d(2) by simp
        then show ?thesis using Some w(1) True by (simp add: agrees_at_def)
      qed
      then have "cut_to G s ?s"
        using d G hb snippet_None [OF Suc.prems(1)] by (auto simp: cut_to_def)
      then have "cut_to G s s'" using r(2) by (rule cut_to_trans)
      moreover have "parts_at G ?s h \<Longrightarrow> parts_at G s h" for h
        using hb by (auto simp: parts_at_def split: if_splits)
      ultimately show ?thesis using r(3) by (fastforce split: option.splits)
    qed
  qed
qed

lemma findForkPoint_trims:
  assumes get: "\<And>h. get h = Some (G h)" and ok: "snippet_ok s"
  shows "\<exists>r s'. findForkPoint get s = Some (r, s') \<and>
    (if \<exists>u. G (tailHeight s) = Some u \<and> Thash (block u) = tailHash s
     then cut_to G s s' \<and> \<not> agrees_at G s (tailHeight s' + 1) \<and>
       (r \<noteq> None \<longleftrightarrow> parts_at G s (tailHeight s' + 1)) \<and> (\<forall>p. r = Some p \<longrightarrow> Thash (block p) = tailHash s')
     else r = None \<and> s' = s)"
proof (cases "G (tailHeight s)")
  case None
  then show ?thesis by (simp add: findForkPoint_def get)
next
  case (Some u)
  show ?thesis
  proof (cases "Thash (block u) = tailHash s")
    case False
    then show ?thesis using Some by (simp add: findForkPoint_def get)
  next
    case True
    obtain r s' where r: "forkPointLoop get [tailHeight s + 1..headHeight s] u s = Some (r, s')" "cut_to G s s'"
      "case r of None \<Rightarrow> tailHeight s' = headHeight s \<or> G (tailHeight s' + 1) = None
       | Some p \<Rightarrow> Thash (block p) = tailHash s' \<and> parts_at G s (tailHeight s' + 1)"
      using forkPointLoop_spec [of get G s u u, OF get ok True Some True] by blast
    have "heightBlocks s (headHeight s + 1) = None" using snippet_None [OF ok] by simp
    then have none: "\<not> parts_at G s (tailHeight s' + 1)" "\<not> agrees_at G s (tailHeight s' + 1)" if "r = None"
      using r(3) that by (auto simp: parts_at_def agrees_at_def)
    then have "r \<noteq> None \<longleftrightarrow> parts_at G s (tailHeight s' + 1)" using r(3) by (auto split: option.splits)
    moreover have "\<not> agrees_at G s (tailHeight s' + 1)" using calculation none(2) parts_not_agrees by blast
    moreover have "\<forall>p. r = Some p \<longrightarrow> Thash (block p) = tailHash s'" using r(3) by auto
    ultimately show ?thesis using r(1,2) Some True by (simp add: findForkPoint_def get)
  qed
qed

text \<open>
  C20. \<open>findForkPoint\<close> always returns on a well-formed snippet and trims it as far as possible:
  when the snippet hangs on the chain, exactly the blocks up to the last one that both share
  without a gap are cut off, that is every block cut off is on the chain and the next one is
  not; that last shared block is returned exactly when both go on with different blocks above
  it.  When the snippet does not hang on the chain it is left alone and nothing is returned.
\<close>

theorem findForkPoint_spec:
  assumes get: "\<And>h. get h = Some (G h)" and ok: "snippet_ok s"
  shows "\<exists>r s'. findForkPoint get s = Some (r, s') \<and>
    (if \<exists>u. G (tailHeight s) = Some u \<and> Thash (block u) = tailHash s
     then cut_to G s s' \<and> \<not> agrees_at G s (tailHeight s' + 1) \<and>
       (r \<noteq> None \<longleftrightarrow> parts_at G s (tailHeight s' + 1)) \<and> (\<forall>p. r = Some p \<longrightarrow> Thash (block p) = tailHash s')
     else r = None \<and> s' = s)"
  using assms by (rule findForkPoint_trims)

text \<open>The head block of every chain is the one that its head height and head hash describe.\<close>

definition heads_ok :: "(string \<rightharpoonup> 'a forked) \<Rightarrow> (int \<Rightarrow> 'a pblock option) \<Rightarrow> bool" where
  "heads_ok cs disk \<longleftrightarrow>
     (\<forall>cid c b. cs cid = Some c \<longrightarrow> Head_fc cs disk cid = Some (Some b) \<longrightarrow>
        Theight b = headHeight c \<and> Thash b = fcHeadHash c)"

lemma snippet_block_link:
  assumes "snippet_ok s" "heightBlocks s h = Some w" "heightBlocks s (h + 1) = Some v"
  shows "TpreHash (block v) = Thash (block w)"
proof -
  have run: "run_ok (own s) (tailHeight s) (headHeight s) (tailHash s) (headHash s)" using assms(1) by (simp add: snippet_ok_def)
  have o: "own s h = Some (block w)" "own s (h + 1) = Some (block v)" using assms(2,3) by (simp_all add: own_def)
  show ?thesis
    using linked_preHash [OF run_okD(3) [OF run] _ _ o] run_ok_height(2) [OF run o(1)] run_ok_height(3) [OF run o(2)] by simp
qed

lemma snippet_tail_link:
  assumes "snippet_ok s" "heightBlocks s (tailHeight s + 1) = Some v"
  shows "TpreHash (block v) = tailHash s"
  using assms run_okD(4) [of "own s" "tailHeight s" "headHeight s" "tailHash s" "headHash s" "block v"]
  by (simp add: snippet_ok_def own_def)

text \<open>A snippet that contains the head of a chain is cut there, and then continues the chain.\<close>

lemma cut_same_chain:
  assumes ok: "snippet_ok s" and heads: "heads_ok cs disk" and c: "cs cid = Some c"
    and same: "sameChain cs disk s cid = Some True" and lt: "headHeight c < headHeight s" "tailHeight s \<le> headHeight c"
  shows "\<exists>s'. cutSnippet (headHeight c) s = Some s' \<and> snippet_ok s' \<and> tailHeight s' = headHeight c \<and>
    tailHash s' = fcHeadHash c \<and> headHeight s' = headHeight s \<and> chainId s' = chainId s"
proof -
  obtain b w where b: "Head_fc cs disk cid = Some (Some b)" "heightBlocks s (Theight b) = Some w" "Thash (block w) = Thash b"
    using same by (auto simp: sameChain_def split: Option.bind_splits option.splits)
  have hb: "Theight b = headHeight c" "Thash b = fcHeadHash c" using heads c b(1) by (auto simp: heads_ok_def)
  have "tailHeight s < headHeight c"
    using lt(2) snippet_None [OF ok, of "tailHeight s"] b(2) hb(1) by (cases "tailHeight s = headHeight c") auto
  from cutSnippet_spec [OF ok this] lt(1)
  obtain s' where s': "cutSnippet (headHeight c) s = Some s'" "snippet_ok s'" "tailHeight s' = headHeight c"
    "headHeight s' = headHeight s" "chainId s' = chainId s"
    "\<And>h. heightBlocks s' h = (if h \<le> headHeight c then None else heightBlocks s h)" by auto
  obtain v where v: "heightBlocks s' (tailHeight s' + 1) = Some v"
    using snippet_get [OF s'(2), of "tailHeight s' + 1"] s'(3,4) lt(1) by auto
  then have "heightBlocks s (headHeight c + 1) = Some v" using s'(3,6) by simp
  then have "tailHash s' = fcHeadHash c"
    using snippet_block_link [OF ok, of "headHeight c" w v] snippet_tail_link [OF s'(2) v] b(2,3) hb by simp
  then show ?thesis using s' by blast
qed

lemma forkyLoop_insertable:
  assumes "snippet_ok s" "heads_ok cs disk" "forkyLoop cs disk order s = Some (Insertable cid, s')"
  shows "\<exists>c. cs cid = Some c \<and> snippet_ok s' \<and> tailHeight s' = headHeight c \<and> tailHash s' = fcHeadHash c \<and>
    headHeight s' = headHeight s \<and> chainId s' = chainId s"
  using assms(1,3)
proof (induction order arbitrary: s)
  case (Cons d order)
  obtain c where c: "cs d = Some c" using Cons.prems(2) by (auto split: Option.bind_splits)
  consider (fits) "tailHeight s = headHeight c \<and> tailHash s = fcHeadHash c"
    | (skip) "\<not> (tailHeight s = headHeight c \<and> tailHash s = fcHeadHash c)" "headHeight c < tailHeight s \<or> headHeight s \<le> headHeight c"
    | (cross) "\<not> (tailHeight s = headHeight c \<and> tailHash s = fcHeadHash c)" "tailHeight s \<le> headHeight c" "headHeight c < headHeight s"
    by linarith
  then show ?case
  proof cases
    case fits
    then have "cid = d" "s' = s" using Cons.prems(2) c by simp_all
    then show ?thesis using fits c Cons.prems(1) by simp
  next
    case skip
    then have "forkyLoop cs disk order s = Some (Insertable cid, s')" using Cons.prems(2) c by (auto split: if_splits)
    then show ?thesis using Cons.IH Cons.prems(1) by blast
  next
    case cross
    then obtain same where same: "sameChain cs disk s d = Some same"
      using Cons.prems(2) c by (auto split: Option.bind_splits if_splits)
    show ?thesis
    proof (cases same)
      case True
      then have "sameChain cs disk s d = Some True" using same by simp
      from cut_same_chain [OF Cons.prems(1) assms(2) c this cross(3,2)]
      obtain s1 where s1: "cutSnippet (headHeight c) s = Some s1" "snippet_ok s1" "tailHeight s1 = headHeight c"
          "tailHash s1 = fcHeadHash c" "headHeight s1 = headHeight s" "chainId s1 = chainId s"
        by blast
      then have "cid = d" "s' = s1" using Cons.prems(2) c cross same True by auto
      then show ?thesis using s1 c by simp
    next
      case False
      let ?get = "\<lambda>h. getBlock cs disk d h False"
      have get: "?get h = Some (heightBlocks c h)" for h using c by (simp add: getBlock_def)
      obtain r s1 where r: "findForkPoint ?get s = Some (r, s1)" "cut_to (heightBlocks c) s s1 \<or> s1 = s"
        using findForkPoint_trims [of ?get "heightBlocks c" s, OF get Cons.prems(1)] by (auto split: if_splits)
      have rest: "forkyLoop cs disk order s1 = Some (Insertable cid, s')"
        using Cons.prems(2) c cross same False r(1) by (auto split: if_splits)
      have s1: "snippet_ok s1" "headHeight s1 = headHeight s" "chainId s1 = chainId s"
        using r(2) Cons.prems(1) by (auto simp: cut_to_def)
      then show ?thesis using Cons.IH [OF s1(1) rest] by auto
    qed
  qed
qed simp

text \<open>
  C19. A snippet that \<open>forky\<close> declares insertable into a chain is appended to that chain as a
  whole: \<open>insertSnippet\<close> returns no error, the chain is well formed and ends at the head of the snippet,
  it holds its own blocks and those of the trimmed snippet, and the snippet leaves the table.
\<close>

theorem forky_insertable_appended:
  assumes "snippet_ok s" "heads_ok (chains cp) disk"
    and chains_ok: "\<And>d c. chains cp d = Some c \<Longrightarrow> \<exists>tH. forked_ok tH c"
    and "forky cp disk diskHead order s = Some (Insertable cid, s')"
  shows "\<exists>cp' c c' tH. insertSnippet cid s' cp = Some (None, cp') \<and> chains cp cid = Some c \<and>
    chains cp' = (chains cp)(cid \<mapsto> c') \<and> snippetChains cp' = (snippetChains cp)(chainId s := None) \<and>
    forked_ok tH c' \<and> headHeight c' = headHeight s \<and> heightBlocks c' = heightBlocks c ++ heightBlocks s'"
proof -
  have "forkyLoop (chains cp) disk order s = Some (Insertable cid, s')"
    using assms(4) by (auto simp: forky_def split: Option.bind_splits if_splits)
  then obtain c where c: "chains cp cid = Some c" "snippet_ok s'" "tailHeight s' = headHeight c"
      "tailHash s' = fcHeadHash c" "headHeight s' = headHeight s" "chainId s' = chainId s"
    using forkyLoop_insertable [OF assms(1,2)] by blast
  obtain tH where "forked_ok tH c" using chains_ok c(1) by blast
  from insertSnippet_spec [OF c(2,1) this c(3,4)] show ?thesis using c by (metis (no_types, lifting))
qed

section \<open>Fetching predecessors\<close>

lemma fetchDiff_pos: "0 < fetchDiff h p t"
  by (simp add: fetchDiff_def Let_def)

lemma fetchLoop_spec:
  "map (\<lambda>r. (frHeight r, frHash r)) (fetchLoop addr h prev ws) = map (\<lambda>w. (tailHeight w, tailHash w)) ws \<and>
   (\<forall>r\<in>set (fetchLoop addr h prev ws). 0 < frPrevCnt r \<and> frChain r = addr)"
  using fetchDiff_pos by (induction ws arbitrary: prev) (simp_all add: Let_def)

text \<open>
  For every snippet that waits in the pool exactly one request is sent, for the block at
  its tail, by hash and height, on the chain of the pool and with a positive count of
  predecessors, in the order of the tail heights.
\<close>

theorem loopFetchForSnippets_spec:
  assumes "chains (chainpool p) (current (chainpool p)) = Some c"
  shows "\<exists>reqs. loopFetchForSnippets addr snips p = Some (int (length snips), reqs) \<and>
    map (\<lambda>r. (frHeight r, frHash r)) reqs = map (\<lambda>w. (tailHeight w, tailHash w)) (sort_key tailHeight snips) \<and>
    (\<forall>r\<in>set reqs. 0 < frPrevCnt r \<and> frChain r = addr)"
proof (cases "snips = []")
  case True
  then show ?thesis by (simp add: loopFetchForSnippets_def)
next
  case False
  define reqs where "reqs = fetchLoop addr (headHeight c) (-1) (sort_key tailHeight snips)"
  note spec = fetchLoop_spec [of addr "headHeight c" "-1" "sort_key tailHeight snips", folded reqs_def]
  have "length reqs = length snips" using arg_cong [OF conjunct1 [OF spec], of length] by simp
  then have "loopFetchForSnippets addr snips p = Some (int (length snips), reqs)"
    using False assms by (simp add: loopFetchForSnippets_def reqs_def)
  then show ?thesis using spec by blast
qed

section \<open>Switching chains\<close>

text \<open>What a reader sees of a chain that hangs on a chain that hangs on the disk.\<close>

lemma GetBlock_two_levels:
  assumes "cs to = Some t" "referChain t = Fork from" "cs from = Some f" "referChain f = Disk"
  shows "GetBlock cs disk to h = Some (map_option block (case heightBlocks t h of Some b \<Rightarrow> Some b
    | None \<Rightarrow> (case heightBlocks f h of Some b \<Rightarrow> Some b | None \<Rightarrow> disk h)))"
  using assms
  by (simp add: GetBlock_def getBlock_def getBlockRefer.simps [of cs disk to] getBlockRefer.simps [of cs disk "from"]
      split: option.splits)

lemma GetBlock_one_level:
  assumes "cs cid = Some c" "referChain c = Disk"
  shows "GetBlock cs disk cid h = Some (map_option block (case heightBlocks c h of Some b \<Rightarrow> Some b | None \<Rightarrow> disk h))"
  using assms by (simp add: GetBlock_def getBlock_def getBlockRefer.simps split: option.splits)

lemma modifyRefer_level:
  assumes "cs from = Some f" "cs to = Some t" "from \<noteq> to" "tailHeight t \<le> tailHeight f"
  shows "modifyRefer from to cs = Some (cs(to \<mapsto> t\<lparr>referChain := referChain f\<rparr>, from \<mapsto> f\<lparr>referChain := Fork to\<rparr>))"
proof -
  have "modifyLoop from to (tailHeight t) cs = Some cs"
    using assms by (subst modifyLoop.simps) simp
  then show ?thesis using assms by (simp add: modifyRefer_def)
qed

text \<open>
  C22. After the current chain was rolled back to the block on which another chain forks off,
  the pool can switch to that chain: the switch succeeds, the new current chain refers to the
  disk, and readers of the new and of the old current chain see the same blocks as before, each
  up to the head of the chain it reads.
\<close>

theorem switch_after_rollback:
  assumes cur: "chains cp (current cp) = Some f" "referChain f = Disk" "forked_ok fH f"
    and to: "chains cp to = Some t" "referChain t = Fork (current cp)" "to \<noteq> current cp" "forked_ok tH t"
    and level: "tailHeight t = tailHeight f"
    and head: "Head_disk rw s = Some d" "Theight d = tailHeight f"
      "getBlock_disk rw ver s (Theight d) = Some w" "Thash (block w) = Thash d"
  shows "\<exists>cp' t'. currentModifyToChain rw ver to s cp = Some (None, cp') \<and> current cp' = to \<and>
    chains cp' to = Some t' \<and> referChain t' = Disk \<and>
    (\<forall>h. h \<le> headHeight t \<longrightarrow> GetBlock (chains cp') (getBlock_disk rw ver s) to h =
       GetBlock (chains cp) (getBlock_disk rw ver s) to h) \<and>
    (\<forall>h. h \<le> headHeight f \<longrightarrow> GetBlock (chains cp') (getBlock_disk rw ver s) (current cp) h =
       GetBlock (chains cp) (getBlock_disk rw ver s) (current cp) h)"
proof -
  let ?D = "getBlock_disk rw ver s" and ?from = "current cp"
  let ?t = "t\<lparr>referChain := Disk\<rparr>" and ?f = "f\<lparr>referChain := Fork to\<rparr>"
  let ?cs = "(chains cp)(to \<mapsto> ?t, ?from \<mapsto> ?f)"
  have tl: "heightBlocks t h = None" "heightBlocks f h = None" if "h \<le> tailHeight f" for h
    using forked_own_None [OF to(4)] forked_own_None [OF cur(3)] that level by simp_all
  have fs: "heightBlocks f h \<noteq> None" if "tailHeight f < h" "h \<le> headHeight f" for h
    using run_ok_get [OF cur(3) [unfolded forked_ok_def] that] by (auto simp: own_Some)
  have "getBlock (chains cp) ?D to (Theight d) True = Some (Some w)"
    using tl [of "Theight d"] head(2,3) cur(1,2) to(1,2)
    by (simp add: getBlock_def getBlockRefer.simps [of _ _ to] getBlockRefer.simps [of _ _ ?from])
  moreover have "referLoop to (chains cp) = Some ?cs"
  proof -
    have "modifyRefer ?from to (chains cp) = Some ?cs"
      using modifyRefer_level [OF cur(1) to(1) to(3) [symmetric]] level cur(2) by simp
    moreover have "referLoop to ?cs = Some ?cs" using to(3) by (subst referLoop.simps) simp
    ultimately show ?thesis using to(1,2) by (subst referLoop.simps) simp
  qed
  ultimately have sw: "currentModifyToChain rw ver to s cp = Some (None, cp\<lparr>chains := ?cs, current := to\<rparr>)"
    using head(1,4) by (simp add: currentModifyToChain_def)
  define ncs where "ncs = ?cs"
  have new: "ncs to = Some ?t" "ncs ?from = Some ?f" using to(3) by (simp_all add: ncs_def)
  have ts: "heightBlocks t h \<noteq> None" if "tailHeight f < h" "h \<le> headHeight t" for h
    using run_ok_get [OF to(4) [unfolded forked_ok_def], of h] that level by (auto simp: own_Some)
  have v1: "GetBlock ncs ?D to h = GetBlock (chains cp) ?D to h" if "h \<le> headHeight t" for h
    using GetBlock_one_level [of ncs to ?t ?D h] GetBlock_two_levels [of "chains cp" to t ?from f ?D h]
      new cur(1,2) to(1,2) tl [of h] ts [OF _ that]
    by (cases "h \<le> tailHeight f") auto
  have v2: "GetBlock ncs ?D ?from h = GetBlock (chains cp) ?D ?from h" if "h \<le> headHeight f" for h
    using GetBlock_two_levels [of ncs ?from ?f to ?t ?D h] GetBlock_one_level [of "chains cp" ?from f ?D h]
      new cur(1,2) tl [of h] fs [OF _ that]
    by (cases "h \<le> tailHeight f") auto
  have "chains (cp\<lparr>chains := ?cs, current := to\<rparr>) = ncs" by (simp add: ncs_def)
  then show ?thesis using sw v1 v2 new(1) by (intro exI [of _ "cp\<lparr>chains := ?cs, current := to\<rparr>"] exI [of _ ?t]) simp
qed

text \<open>
  When the chain to switch to hangs two or more blocks above the tail of the chain it
  hangs on, the switch loses blocks: \<open>modifyRefer\<close> moves only the topmost of the shared blocks, because
  taking it off the lower chain raises the bound of the loop, and a reader of the new chain then finds the disk below it, which has none of
  them.
\<close>

theorem modifyRefer_loses_blocks:
  assumes f: "cs from = Some f" "referChain f = Disk" "forked_ok fH f" and t: "cs to = Some t" "forked_ok tH t"
    and "from \<noteq> to" "referChain t = Fork from" "tailHeight f + 1 < tailHeight t" "tailHeight t \<le> headHeight f"
    and h: "tailHeight f < h" "h < tailHeight t" and disk: "disk h = None"
  shows "\<exists>cs' b. modifyRefer from to cs = Some cs' \<and> GetBlock cs disk to h = Some (Some b) \<and>
    GetBlock cs' disk to h = Some None"
proof -
  obtain w where w: "heightBlocks f (tailHeight t) = Some w" "Theight (block w) = tailHeight t"
    using run_ok_get [OF f(3) [unfolded forked_ok_def], of "tailHeight t"] assms(8,9) by (auto simp: own_Some)
  obtain v where v: "heightBlocks f h = Some v"
    using run_ok_get [OF f(3) [unfolded forked_ok_def], of h] h assms(9) by (auto simp: own_Some)
  let ?f = "removeTail w f" and ?t = "addTail w t"
  let ?cs = "cs(from \<mapsto> ?f, to \<mapsto> ?t)"
  have r: "tailHeight ?f = tailHeight t" "referChain ?f = Disk" using w(2) f(2) by (simp_all add: removeTail_def)
  have stop: "modifyLoop from to (tailHeight t - 1) ?cs = Some ?cs"
    using assms(6) r(1) by (subst modifyLoop.simps) simp
  have loop: "modifyLoop from to (tailHeight t) cs = Some ?cs"
    using f(1) t(1) w(1) assms(6,8) stop by (subst modifyLoop.simps) simp
  let ?cs' = "?cs(to \<mapsto> ?t\<lparr>referChain := Disk\<rparr>, from \<mapsto> ?f\<lparr>referChain := Fork to\<rparr>)"
  have m: "modifyRefer from to cs = Some ?cs'"
    using loop t(1) assms(6) r(2) by (simp add: modifyRefer_def)
  have "heightBlocks t h = None" using forked_own_None [OF t(2), of h] h by simp
  then have old: "GetBlock cs disk to h = Some (Some (block v))" and own: "heightBlocks ?t h = None"
    using GetBlock_two_levels [of cs to t "from" f disk h] t(1) assms(7) f(1,2) v h w(2) by (simp_all add: addTail_def)
  have "?cs' to = Some (?t\<lparr>referChain := Disk\<rparr>)" using assms(6) by simp
  then have "GetBlock ?cs' disk to h = Some None"
    using GetBlock_one_level [of ?cs' to "?t\<lparr>referChain := Disk\<rparr>" disk h] own disk by simp
  then show ?thesis using m old by blast
qed

section \<open>Witnesses\<close>

text \<open>
  A pool of plain blocks: the disk holds \<open>g\<close>, the current chain \<open>c\<close> holds \<open>a1\<close>, \<open>a2\<close> and
  \<open>a3\<close> above it, the chain \<open>d\<close> holds \<open>b2\<close> and \<open>b3\<close> and hangs on \<open>c\<close> above \<open>a1\<close>.
\<close>

definition pb :: "int \<Rightarrow> string \<Rightarrow> string \<Rightarrow> unit pblock" where
  "pb h hash pre = \<lparr>block = \<lparr>Theight = h, Thash = hash, TpreHash = pre, Tsigner = '''', Ttimestamp = 0\<rparr>, forkVersion = 0\<rparr>"

lemma pb_simps [simp]:
  "Theight (block (pb h hash pre)) = h" "Thash (block (pb h hash pre)) = hash" "TpreHash (block (pb h hash pre)) = pre"
  "block (pb h hash pre) = block (pb h' hash' pre') \<longleftrightarrow> h = h' \<and> hash = hash' \<and> pre = pre'"
  by (simp_all add: pb_def)

definition ex_disk :: "int \<Rightarrow> unit pblock option" where
  "ex_disk h = (if h = 0 then Some (pb 0 ''g'' '''') else None)"

definition ex_c :: "unit forked" where
  "ex_c = addHead (pb 3 ''a3'' ''a2'') (addHead (pb 2 ''a2'' ''a1'') (addHead (pb 1 ''a1'' ''g'')
     (init_fc ''c'' Disk (block (pb 0 ''g'' '''')))))"

definition ex_d :: "unit forked" where
  "ex_d = addHead (pb 3 ''b3'' ''b2'') (addHead (pb 2 ''b2'' ''a1'') (init_fc ''d'' (Fork ''c'') (block (pb 1 ''a1'' ''g''))))"

lemma addHead_ok: "forked_ok tH c \<Longrightarrow> Theight (block w) = headHeight c + 1 \<Longrightarrow> TpreHash (block w) = fcHeadHash c \<Longrightarrow>
  forked_ok tH (addHead w c)"
  using insert_fc_ok [of tH c w] by (simp add: insert_fc_def)

lemma ex_c_simps [simp]: "tailHeight ex_c = 0" "headHeight ex_c = 3" "referChain ex_c = Disk" "chainId ex_c = ''c''"
  "fcHeadHash ex_c = ''a3''"
  "heightBlocks ex_c h = (if h = 1 then Some (pb 1 ''a1'' ''g'') else if h = 2 then Some (pb 2 ''a2'' ''a1'')
     else if h = 3 then Some (pb 3 ''a3'' ''a2'') else None)"
  by (simp_all add: ex_c_def addHead_def init_fc_def)

lemma ex_d_simps [simp]: "tailHeight ex_d = 1" "headHeight ex_d = 3" "referChain ex_d = Fork ''c''" "chainId ex_d = ''d''"
  "fcHeadHash ex_d = ''b3''"
  "heightBlocks ex_d h = (if h = 2 then Some (pb 2 ''b2'' ''a1'') else if h = 3 then Some (pb 3 ''b3'' ''b2'') else None)"
  by (simp_all add: ex_d_def addHead_def init_fc_def)

lemma ex_c_ok: "forked_ok ''g'' ex_c"
proof -
  have "forked_ok ''g'' (init_fc ''c'' Disk (block (pb 0 ''g'' '''')))"
    using init_fc_ok [of "block (pb 0 ''g'' '''')"] by simp
  then show ?thesis unfolding ex_c_def by (intro addHead_ok) (simp_all add: addHead_def init_fc_def)
qed

lemma ex_d_ok: "forked_ok ''a1'' ex_d"
proof -
  have "forked_ok ''a1'' (init_fc ''d'' (Fork ''c'') (block (pb 1 ''a1'' ''g'')))"
    using init_fc_ok [of "block (pb 1 ''a1'' ''g'')"] by simp
  then show ?thesis unfolding ex_d_def by (intro addHead_ok) (simp_all add: addHead_def init_fc_def)
qed

definition ex_cp :: "unit cpool" where
  "ex_cp = \<lparr>poolId = ''p'', lastestChainIdx = 2, current = ''c'', snippetChains = Map.empty,
     chains = [''c'' \<mapsto> ex_c, ''d'' \<mapsto> ex_d]\<rparr>"

lemma ex_cp_simps [simp]: "current ex_cp = ''c''" "chains ex_cp = [''c'' \<mapsto> ex_c, ''d'' \<mapsto> ex_d]"
  by (simp_all add: ex_cp_def)

lemma ex_views:
  "GetBlock (chains ex_cp) ex_disk ''c'' h = Some (map_option block (case heightBlocks ex_c h of Some b \<Rightarrow> Some b | None \<Rightarrow> ex_disk h))"
  "GetBlock (chains ex_cp) ex_disk ''d'' h = Some (map_option block (case heightBlocks ex_d h of Some b \<Rightarrow> Some b
     | None \<Rightarrow> (case heightBlocks ex_c h of Some b \<Rightarrow> Some b | None \<Rightarrow> ex_disk h)))"
  using GetBlock_one_level [of "chains ex_cp" "''c''" ex_c ex_disk h]
    GetBlock_two_levels [of "chains ex_cp" "''d''" ex_d "''c''" ex_c ex_disk h] by simp_all

lemma upto3: "0 \<le> h \<Longrightarrow> h \<le> 3 \<Longrightarrow> h = 0 \<or> h = 1 \<or> h = 2 \<or> h = (3::int)"
  by arith

theorem getForkPoint_spec_witness:
  "\<exists>k b. getForkPoint (chains ex_cp) ex_disk ''d'' ''c'' = Some (Inr (k, b)) \<and> Thash b = ''a1''"
proof -
  define F where "F h = map_option block (case heightBlocks ex_d h of Some b \<Rightarrow> Some b
     | None \<Rightarrow> (case heightBlocks ex_c h of Some b \<Rightarrow> Some b | None \<Rightarrow> ex_disk h))" for h
  define G where "G h = map_option block (case heightBlocks ex_c h of Some b \<Rightarrow> Some b | None \<Rightarrow> ex_disk h)" for h
  have l: "linked F 0 3" "linked G 0 3"
    by (rule linkedI; drule (1) upto3 order.strict_implies_order [THEN upto3 [rotated]]; auto simp: F_def G_def ex_disk_def)+
  have "\<exists>k b. 0 \<le> k \<and> k \<le> headHeight ex_c \<and> getForkPoint (chains ex_cp) ex_disk ''d'' ''c'' = Some (Inr (F (k + 1), b)) \<and>
    F k = Some b \<and> (\<forall>h. 0 \<le> h \<longrightarrow> h \<le> k \<longrightarrow> F h = G h) \<and> (\<forall>h. k < h \<longrightarrow> h \<le> headHeight ex_c \<longrightarrow> F h \<noteq> G h)"
  proof (rule getForkPoint_spec)
    show "chains ex_cp ''c'' = Some ex_c" "0 \<le> headHeight ex_c" by simp_all
    show "GetBlock (chains ex_cp) ex_disk ''d'' h = Some (F h)" for h unfolding F_def by (rule ex_views(2))
    show "GetBlock (chains ex_cp) ex_disk ''c'' h = Some (G h)" for h unfolding G_def by (rule ex_views(1))
    show "linked F 0 (headHeight ex_c)" "linked G 0 (headHeight ex_c)" using l by simp_all
    show "same_hash (F 0) (G 0)" by (simp add: F_def G_def same_hash_def ex_disk_def)
    show "b = d" if "F h = Some b" "G h = Some d" "Thash b = Thash d" for h b d
      using that by (auto simp: F_def G_def ex_disk_def split: if_splits)
  qed
  then obtain k b where k: "0 \<le> k" "k \<le> 3" "getForkPoint (chains ex_cp) ex_disk ''d'' ''c'' = Some (Inr (F (k + 1), b))"
    "F k = Some b" "\<forall>h. 0 \<le> h \<longrightarrow> h \<le> k \<longrightarrow> F h = G h" "\<forall>h. k < h \<longrightarrow> h \<le> 3 \<longrightarrow> F h \<noteq> G h"
    by auto
  have "F 1 = G 1" "F 2 \<noteq> G 2" by (simp_all add: F_def G_def)
  then have "k = 1" using k(1,2,5,6) upto3 [of k] by force
  then show ?thesis using k(3,4) by (auto simp: F_def)
qed

theorem LongestChain_spec_witness: "LongestChain ex_cp [''c'', ''d''] = Some ''c''"
proof -
  have ids: "chainId c = cid" if "cid \<in> set [''c'', ''d'']" "chains ex_cp cid = Some c" for cid c
    using that by auto
  have cur: "chains ex_cp (current ex_cp) = Some ex_c" "chainId ex_c = current ex_cp" by simp_all
  have "headHeight c \<le> 3" if "cid \<in> set [''c'', ''d'']" "chains ex_cp cid = Some c" for cid c
    using that by auto
  then show ?thesis using LongestChain_spec [OF cur, of "[''c'', ''d'']", OF ids] by fastforce
qed

definition ex_sn :: "unit snippet" where
  "ex_sn = addTail_sn (pb 5 ''s5'' ''s4'') (addTail_sn (pb 6 ''s6'' ''s5'') (init_sn ''s'' (pb 7 ''s7'' ''s6'')))"

lemma ex_sn_simps [simp]: "tailHeight ex_sn = 4" "headHeight ex_sn = 7" "tailHash ex_sn = ''s4''"
  "heightBlocks ex_sn 6 = Some (pb 6 ''s6'' ''s5'')"
  by (simp_all add: ex_sn_def addTail_sn_def init_sn_def)

lemma ex_sn_ok: "snippet_ok ex_sn"
  unfolding ex_sn_def by (intro addTail_sn_ok init_sn_ok) (simp_all add: addTail_sn_def init_sn_def)

definition ex_bcp :: "unit bcpool" where
  "ex_bcp = \<lparr>Id = ''p'', blockpool = \<lparr>freeBlocks = Map.empty, compoundBlocks = Map.empty\<rparr>, chainpool = ex_cp\<rparr>"

theorem fork_block_dropped_witness:
  "\<exists>p'. loopGenSnippetChains [pb 6 ''x6'' ''x5''] [ex_sn] ex_bcp = Some (1, p') \<and>
     (\<forall>cid s h. snippetChains (chainpool p') cid = Some s \<longrightarrow> heightBlocks s h \<noteq> Some (pb 6 ''x6'' ''x5''))"
  using fork_block_dropped [OF ex_sn_ok, of "pb 6 ''x6'' ''x5''" "pb 6 ''s6'' ''s5''" ex_bcp 0] by auto

theorem loopFetchForSnippets_spec_witness:
  "\<exists>r. loopFetchForSnippets ''a'' [ex_sn] ex_bcp = Some (1, [r]) \<and> frHeight r = 4 \<and> frHash r = ''s4'' \<and> 0 < frPrevCnt r"
proof -
  have "chains (chainpool ex_bcp) (current (chainpool ex_bcp)) = Some ex_c" by (simp add: ex_bcp_def)
  from loopFetchForSnippets_spec [OF this, of "''a''" "[ex_sn]"] show ?thesis by auto
qed

definition ex_sn2 :: "unit snippet" where
  "ex_sn2 = addTail_sn (pb 2 ''a2'' ''a1'') (init_sn ''s'' (pb 3 ''x3'' ''a2''))"

theorem findForkPoint_spec_witness:
  "\<exists>p s'. findForkPoint (\<lambda>h. Some (heightBlocks ex_c h)) ex_sn2 = Some (Some p, s') \<and>
     tailHeight s' = 2 \<and> tailHash s' = ''a2'' \<and> Thash (block p) = ''a2''"
proof -
  have ok: "snippet_ok ex_sn2"
    unfolding ex_sn2_def by (intro addTail_sn_ok init_sn_ok) (simp_all add: init_sn_def)
  have t: "tailHeight ex_sn2 = 1" "tailHash ex_sn2 = ''a1''" "headHeight ex_sn2 = 3"
    and b: "heightBlocks ex_sn2 h = (if h = 2 then Some (pb 2 ''a2'' ''a1'') else if h = 3 then Some (pb 3 ''x3'' ''a2'') else None)" for h
    by (simp_all add: ex_sn2_def addTail_sn_def init_sn_def)
  obtain r s' where r: "findForkPoint (\<lambda>h. Some (heightBlocks ex_c h)) ex_sn2 = Some (r, s')"
      "cut_to (heightBlocks ex_c) ex_sn2 s'" "\<not> agrees_at (heightBlocks ex_c) ex_sn2 (tailHeight s' + 1)"
      "r \<noteq> None \<longleftrightarrow> parts_at (heightBlocks ex_c) ex_sn2 (tailHeight s' + 1)" "\<forall>p. r = Some p \<longrightarrow> Thash (block p) = tailHash s'"
    using findForkPoint_spec [of "\<lambda>h. Some (heightBlocks ex_c h)" "heightBlocks ex_c", OF _ ok] t by auto
  obtain u where u: "heightBlocks ex_c (tailHeight s') = Some u" "Thash (block u) = tailHash s'" "1 \<le> tailHeight s'"
      "\<And>h. 1 < h \<Longrightarrow> h \<le> tailHeight s' \<Longrightarrow> agrees_at (heightBlocks ex_c) ex_sn2 h"
    using r(2) t by (auto simp: cut_to_def)
  have "agrees_at (heightBlocks ex_c) ex_sn2 2" "\<not> agrees_at (heightBlocks ex_c) ex_sn2 3" by (simp_all add: agrees_at_def b)
  then have "tailHeight s' \<noteq> 1" "\<not> 3 \<le> tailHeight s'" using r(3) u(4) [of 3] by auto
  then have two: "tailHeight s' = 2" using u(3) by simp
  then have "parts_at (heightBlocks ex_c) ex_sn2 (tailHeight s' + 1)" "tailHash s' = ''a2''"
    using u(1,2) by (auto simp: parts_at_def b)
  then show ?thesis using r(1,4,5) two by auto
qed

theorem forky_insertable_appended_witness:
  "\<exists>cp'. insertSnippet ''c'' (init_sn ''s'' (pb 4 ''a4'' ''a3'')) ex_cp = Some (None, cp') \<and>
     (\<exists>c'. chains cp' ''c'' = Some c' \<and> headHeight c' = 4)"
proof -
  let ?s = "init_sn ''s'' (pb 4 ''a4'' ''a3'')"
  have heads: "heads_ok (chains ex_cp) ex_disk"
    unfolding heads_ok_def Head_fc_def using ex_views [of 3]
    by (auto split: if_splits simp del: ex_cp_simps(2) simp add: ex_cp_simps(2) [THEN fun_cong])
  have "forkyLoop (chains ex_cp) ex_disk [''c''] ?s = Some (Insertable ''c'', ?s)" by (simp add: init_sn_def)
  then have f: "forky ex_cp ex_disk 0 [''c''] ?s = Some (Insertable ''c'', ?s)" by (simp add: forky_def)
  have "\<exists>tH. forked_ok tH c" if "chains ex_cp d = Some c" for d c
    using that ex_c_ok ex_d_ok by (auto split: if_splits)
  from forky_insertable_appended [OF init_sn_ok heads this f] show ?thesis by (force simp: init_sn_def)
qed

theorem switch_after_rollback_witness:
  "\<exists>cp'. currentModifyToChain
      \<lparr>rwInsert = (\<lambda>b v s. Some (None, s)), rwRemove = (\<lambda>b s. Some (None, s)),
       rwHead = (\<lambda>s. Some (block (pb 1 ''a1'' ''g''))),
       rwGetBlock = (\<lambda>s h. Some (if h = 1 then Some (block (pb 1 ''a1'' ''g'')) else None))\<rparr> 0 ''d'' ()
      (ex_cp\<lparr>chains := [''c'' \<mapsto> addHead (pb 2 ''a2'' ''a1'') (init_fc ''c'' Disk (block (pb 1 ''a1'' ''g''))), ''d'' \<mapsto> ex_d]\<rparr>) =
     Some (None, cp') \<and> current cp' = ''d''"
proof -
  let ?f = "addHead (pb 2 ''a2'' ''a1'') (init_fc ''c'' Disk (block (pb 1 ''a1'' ''g'')))"
  have f: "forked_ok ''a1'' ?f"
    using init_fc_ok [of "block (pb 1 ''a1'' ''g'')" "''c''" Disk]
    by (intro addHead_ok) (simp_all add: init_fc_def)
  have ft: "tailHeight ?f = 1" "referChain ?f = Disk" by (simp_all add: addHead_def init_fc_def)
  let ?rw = "\<lparr>rwInsert = (\<lambda>b v s. Some (None, s)), rwRemove = (\<lambda>b s. Some (None, s)),
       rwHead = (\<lambda>s::unit. Some (block (pb 1 ''a1'' ''g''))),
       rwGetBlock = (\<lambda>s h. Some (if h = 1 then Some (block (pb 1 ''a1'' ''g'')) else None))\<rparr>"
  have h: "Head_disk ?rw () = Some (block (pb 1 ''a1'' ''g''))"
    "getBlock_disk ?rw 0 () 1 = Some (pb 1 ''a1'' ''g'')"
    by (simp add: Head_disk_def) (simp add: getBlock_disk_def pb_def)
  show ?thesis
    using switch_after_rollback [of "ex_cp\<lparr>chains := [''c'' \<mapsto> ?f, ''d'' \<mapsto> ex_d]\<rparr>" ?f "''a1''" "''d''" ex_d "''a1''"
        ?rw "()" "block (pb 1 ''a1'' ''g'')" 0 "pb 1 ''a1'' ''g''"] f ft h ex_d_ok
    by auto
qed

theorem modifyRefer_loses_blocks_witness:
  "\<exists>cs' b. modifyRefer ''c'' ''t'' [''c'' \<mapsto> ex_c, ''t'' \<mapsto> init_fc ''t'' (Fork ''c'') (block (pb 2 ''a2'' ''a1''))] = Some cs' \<and>
     GetBlock [''c'' \<mapsto> ex_c, ''t'' \<mapsto> init_fc ''t'' (Fork ''c'') (block (pb 2 ''a2'' ''a1''))] ex_disk ''t'' 1 = Some (Some b) \<and>
     GetBlock cs' ex_disk ''t'' 1 = Some None"
  by (rule modifyRefer_loses_blocks [where f = ex_c and t = "init_fc ''t'' (Fork ''c'') (block (pb 2 ''a2'' ''a1''))",
        OF _ _ ex_c_ok _ init_fc_ok]) (simp_all add: ex_disk_def init_fc_def)

theorem loopGenSnippetChains_total_witness:
  "\<exists>p'. loopGenSnippetChains [pb 7 ''s7'' ''s6''] [] ex_bcp = Some (1, p') \<and> AddBlock 0 (block (pb 7 ''s7'' ''s6'')) p' = p'"
  using loopGenSnippetChains_total [of "[pb 7 ''s7'' ''s6'']" "[]" ex_bcp 0] by auto

end
