(* ===== verification/Account_Pool.thy ===== *)
theory Account_Pool
  imports BC_Pool_Props
begin

text \<open>
  The pool of one account chain, \<open>pool/account_pool.go\<close>: compaction of arrived blocks,
  insertion of verified blocks into the account chain, and the queries that a rollback needs.

  Where the code ranges over a map, \<open>ord\<close> gives the order in which a set of keys is visited.
  The fork version does not change while an operation of this pool runs. A lock that is tried
  is an integer, as in \<open>common/lock.go\<close>; an operation that takes it releases it at its end.
\<close>

type_synonym aforked = "unit AccountStateBlock_ext forked"
type_synonym abcpool = "unit AccountStateBlock_ext bcpool"

section \<open>State\<close>

record accountPool =
  apAddress :: string
  apPool :: abcpool
  apTask :: "Task option"
  apLoopTime :: int
  compactLock :: int

definition newAccountPool :: "string \<Rightarrow> int \<Rightarrow> int \<Rightarrow> blockchain \<Rightarrow> (accountPool \<times> blockchain) option" where
  "newAccountPool addr ver now bc =
     do {
       p \<leftarrow> init_bcp (accountCh addr ver) (''accountChainPool-'' @ addr) bc;
       Some (\<lparr>apAddress = addr, apPool = p, apTask = None, apLoopTime = now, compactLock = 0\<rparr>, touch bc addr)
     }"

definition currentOf :: "accountPool \<Rightarrow> aforked option" where
  "currentOf ap = chains (chainpool (apPool ap)) (current (chainpool (apPool ap)))"

definition setCurrent :: "aforked \<Rightarrow> accountPool \<Rightarrow> accountPool" where
  "setCurrent c ap =
     ap\<lparr>apPool := (apPool ap)\<lparr>chainpool := (chainpool (apPool ap))\<lparr>chains :=
       (chains (chainpool (apPool ap)))(current (chainpool (apPool ap)) \<mapsto> c)\<rparr>\<rparr>\<rparr>"

section \<open>Inserting into the account chain\<close>

definition checkForkVersion :: "int \<Rightarrow> 'b PoolBlock \<Rightarrow> bool" where
  "checkForkVersion ver w = (forkVersion w = ver)"

definition reset :: "int \<Rightarrow> 'b PoolBlock \<Rightarrow> 'b PoolBlock" where
  "reset ver w = w\<lparr>forkVersion := ver\<rparr>"

fun tryInsertLoop ::
  "string \<Rightarrow> int \<Rightarrow> int \<Rightarrow> int list \<Rightarrow> blockchain \<Rightarrow> aforked \<Rightarrow> (Task \<times> blockchain \<times> aforked) option" where
  "tryInsertLoop addr ver now [] bc c = Some (NewSuccessTask, bc, c)"
| "tryInsertLoop addr ver now (i # is) bc c =
     do {
       w0 \<leftarrow> heightBlocks c i;
       let w = reset ver w0;
       let c1 = c\<lparr>heightBlocks := (heightBlocks c)(i \<mapsto> w)\<rparr>;
       (stat, bc1) \<leftarrow> VerifyReferred_ac ver now (block w) bc;
       if \<not> checkForkVersion ver w then Some (NewSuccessTask, bc1, c1)
       else case VerifyResult_ac stat of
         PENDING \<Rightarrow> Some (VTask (vtask stat), bc1, c1)
       | FAIL \<Rightarrow> Some (NewFailTask now, bc1, c1)
       | SUCCESS \<Rightarrow>
           if Theight (block w) = tailHeight c1 + 1 then
             do {
               (e, bc2, c2) \<leftarrow> writeToChain (accountCh addr ver) w bc1 c1;
               if e \<noteq> None then Some (NewFailTask now, bc2, c2)
               else tryInsertLoop addr ver now is bc2 c2
             }
           else Some (NewSuccessTask, bc1, c1)
     }"

definition tryInsert_ap ::
  "int \<Rightarrow> int \<Rightarrow> accountPool \<Rightarrow> blockchain \<Rightarrow> (Task \<times> accountPool \<times> blockchain) option" where
  "tryInsert_ap ver now ap bc =
     do {
       c \<leftarrow> currentOf ap;
       (task, bc1, c1) \<leftarrow> tryInsertLoop (apAddress ap) ver now [tailHeight c + 1..headHeight c] bc c;
       Some (task, setCurrent c1 ap, bc1)
     }"

definition TryInsert ::
  "int \<Rightarrow> int \<Rightarrow> accountPool \<Rightarrow> blockchain \<Rightarrow> (Task option \<times> accountPool \<times> blockchain) option" where
  "TryInsert ver now ap bc =
     do {
       c \<leftarrow> currentOf ap;
       if size_chain c \<le> 0 then Some (None, ap, bc)
       else if compactLock ap \<noteq> 0 then Some (None, ap, bc)
       else (let (done, ap1, bc1) =
               (case apTask ap of
                  None \<Rightarrow> (True, ap, bc)
                | Some t \<Rightarrow> (let (d, t1, bc1) = Task_Done ver now t bc in (d, ap\<lparr>apTask := Some t1\<rparr>, bc1)))
             in if \<not> done then Some (None, ap1, bc1)
                else do {
                  (task, ap2, bc2) \<leftarrow> tryInsert_ap ver now ap1 bc1;
                  Some (Some task, ap2\<lparr>apTask := Some task\<rparr>, bc2)
                })
     }"

section \<open>Compaction\<close>

definition valuesOf :: "(string set \<Rightarrow> string list) \<Rightarrow> (string \<rightharpoonup> 'v) \<Rightarrow> 'v list" where
  "valuesOf ord m = List.map_filter m (ord (dom m))"

definition Compact ::
  "(string set \<Rightarrow> string list) \<Rightarrow> int \<Rightarrow> int \<Rightarrow> accountPool \<Rightarrow> blockchain \<Rightarrow>
   (int \<times> FetchRequest list \<times> accountPool) option" where
  "Compact ord ver now ap bc =
     (let p = apPool ap in
      if dom (freeBlocks (blockpool p)) = {} then Some (0, [], ap)
      else if compactLock ap \<noteq> 0 then Some (0, [], ap)
      else if now > apLoopTime ap + 200000000 then
        do {
          (i, p1) \<leftarrow> loopGenSnippetChains (valuesOf ord (freeBlocks (blockpool p)))
                       (valuesOf ord (snippetChains (chainpool p))) p;
          (j, p2) \<leftarrow> loopAppendChains (accountCh (apAddress ap) ver) ver bc
                       (ord (dom (snippetChains (chainpool p1)))) (ord (dom (chains (chainpool p1)))) p1;
          (k, reqs) \<leftarrow> loopFetchForSnippets (apAddress ap) (valuesOf ord (snippetChains (chainpool p2))) p2;
          Some (i + j + k, reqs, ap\<lparr>apPool := p2, apLoopTime := now\<rparr>)
        }
      else Some (0, [], ap))"

section \<open>Queries for a rollback\<close>

definition TryRollback ::
  "int \<Rightarrow> int \<Rightarrow> string \<Rightarrow> accountPool \<Rightarrow> blockchain \<Rightarrow> (error + AccountStateBlock list) option" where
  "TryRollback ver rollbackHeight rollbackHash ap bc =
     (let rw = accountCh (apAddress ap) ver in
      if (case getBlock_disk rw ver bc rollbackHeight of
            None \<Rightarrow> True
          | Some w \<Rightarrow> Thash (block w) \<noteq> rollbackHash)
      then Some (Inl ErrorRollbackCmd)
      else do {
        head \<leftarrow> Head_disk rw bc;
        Some (Inr (filter (\<lambda>b. BlockTypeOf b = SEND)
          (map block (List.map_filter (getBlock_disk rw ver bc) (rev [rollbackHeight + 1..Theight head])))))
      })"

definition FindRollbackPointByReferSnapshot ::
  "int \<Rightarrow> int \<Rightarrow> string \<Rightarrow> accountPool \<Rightarrow> blockchain \<Rightarrow> (bool \<times> AccountStateBlock option) option" where
  "FindRollbackPointByReferSnapshot ver sHeight sHash ap bc =
     do {
       head \<leftarrow> Head_disk (accountCh (apAddress ap) ver) bc;
       if SnapshotHeight head < sHeight then Some (False, None)
       else do {
         (r, bc1) \<leftarrow> FindAccountAboveSnapshotHeight bc (apAddress ap) sHeight;
         Some (True, r)
       }
     }"

definition FindRollbackPointForAccountHashH ::
  "(string set \<Rightarrow> string list) \<Rightarrow> int \<Rightarrow> int \<Rightarrow> string \<Rightarrow> accountPool \<Rightarrow> blockchain \<Rightarrow>
   (error + ((AccountStateBlock \<times> string) option \<times> FetchRequest list)) option" where
  "FindRollbackPointForAccountHashH ord ver height hash ap bc =
     (let rw = accountCh (apAddress ap) ver; cp = chainpool (apPool ap) in
      do {
        (c, reqs) \<leftarrow> whichChain rw ver (apAddress ap) (ord (dom (chains cp))) height hash bc cp;
        case c of
          None \<Rightarrow> Some (Inr (None, reqs))
        | Some cid \<Rightarrow>
            if cid = current cp then Some (Inr (None, reqs))
            else do {
              r \<leftarrow> getForkPointByChains (chains cp) (getBlock_disk rw ver bc) cid (current cp);
              case r of
                Inl e \<Rightarrow> Some (Inl e)
              | Inr (key, forkPoint) \<Rightarrow> Some (Inr (Some (forkPoint, cid), reqs))
            }
      })"

definition FindInChain :: "(string set \<Rightarrow> string list) \<Rightarrow> string \<Rightarrow> int \<Rightarrow> accountPool \<Rightarrow> bool" where
  "FindInChain ord hash height ap =
     list_ex (\<lambda>c. case heightBlocks c height of None \<Rightarrow> False | Some b \<Rightarrow> Thash (block b) = hash)
       (valuesOf ord (chains (chainpool (apPool ap))))"

section \<open>Insertion keeps the chains\<close>

lemma chain_inv_same:
  assumes "same_chain bc bc'" "chain_inv bc"
  shows "chain_inv bc'"
proof -
  have s: "store bc' = store bc" "sc bc' = sc bc" "\<And>a. acOf bc' a = acOf bc a"
    using assms(1) by (simp_all add: same_chain_def)
  have "ac_wf bc'"
  proof -
    have "address c = a" if "ac bc' a = Some c" for a c
      using acOf_Some [OF that] s(3) [of a] ac_wf_address [OF chain_invD(1) [OF assms(2)], of a] by simp
    then show ?thesis by (simp add: ac_wf_def)
  qed
  then show ?thesis
    using assms(2) s by (simp add: chain_inv_def snapshot_ok_def account_ok_def HeadSnapshot_def)
qed

lemma rw_same:
  assumes "same_chain bc bc'"
  shows "current_ok (accountCh a ver) bc' c = current_ok (accountCh a ver) bc c"
    "poolView (accountCh a ver) bc' c h = poolView (accountCh a ver) bc c h"
proof -
  have "rwHead (accountCh a ver) bc' = rwHead (accountCh a ver) bc"
    "rwGetBlock (accountCh a ver) bc' = rwGetBlock (accountCh a ver) bc"
    using same_chainD [OF assms] by (simp_all add: fun_eq_iff accountCh_def GetAccountByHeight_bc_def)
  then show "current_ok (accountCh a ver) bc' c = current_ok (accountCh a ver) bc c"
    "poolView (accountCh a ver) bc' c h = poolView (accountCh a ver) bc c h"
    by (simp_all add: current_ok_def Head_disk_def poolView_def getBlock_disk_def split: option.split)
qed

text \<open>Resetting the version of a pool block changes neither the run nor the view.\<close>

lemma reset_frames:
  fixes ver :: int
  assumes "heightBlocks c i = Some w"
  defines "c1 \<equiv> c\<lparr>heightBlocks := (heightBlocks c)(i \<mapsto> reset ver w)\<rparr>"
  shows "own c1 = own c" "tailHeight c1 = tailHeight c" "headHeight c1 = headHeight c" "fcHeadHash c1 = fcHeadHash c"
    "current_ok rw s c1 = current_ok rw s c" "poolView rw s c1 h = poolView rw s c h"
proof -
  show o: "own c1 = own c" using assms(1) by (auto simp: fun_eq_iff own_def c1_def reset_def)
  show f: "tailHeight c1 = tailHeight c" "headHeight c1 = headHeight c" "fcHeadHash c1 = fcHeadHash c"
    by (simp_all add: c1_def)
  show "current_ok rw s c1 = current_ok rw s c" using o f by (simp add: current_ok_def forked_ok_def split: option.split)
  show "poolView rw s c1 h = poolView rw s c h" using assms(1) by (simp add: poolView_def c1_def reset_def)
qed

lemma writeToChain_account:
  assumes "writeToChain (accountCh a ver) w bc c = Some (None, bc', c')"
  shows "InsertAccountBlock a (block w) bc = Some (None, bc')"
  using assms by (auto simp: writeToChain_def accountCh_def split: Option.bind_splits if_splits)

lemma writeToChain_error:
  assumes "writeToChain (accountCh a ver) w bc c = Some (e, bc', c')" "e \<noteq> None"
  shows "bc' = bc \<and> c' = c"
  using assms InsertAccountBlock_Some(1) by (fastforce simp: writeToChain_def accountCh_def split: Option.bind_splits if_splits)

text \<open>What holds between the rounds of the loop.\<close>

definition pool_inv :: "string \<Rightarrow> int \<Rightarrow> blockchain \<Rightarrow> aforked \<Rightarrow> bool" where
  "pool_inv a ver bc c \<longleftrightarrow> chain_inv bc \<and> a \<noteq> snapshotHeadKey \<and> current_ok (accountCh a ver) bc c"

lemma write_step:
  assumes "pool_inv a ver bc c" "heightBlocks c (tailHeight c + 1) = Some w"
    "writeToChain (accountCh a ver) w bc c = Some (None, bc', c')"
  shows "pool_inv a ver bc' c'" "tailHeight c' = tailHeight c + 1" "acHead (acOf bc' a) = Some (block w)"
    "poolView (accountCh a ver) bc' c' h = poolView (accountCh a ver) bc c h"
proof -
  have i: "chain_inv bc" "a \<noteq> snapshotHeadKey" "current_ok (accountCh a ver) bc c"
    using assms(1) by (simp_all add: pool_inv_def)
  have wf: "ac_wf bc \<and> account_ok bc a" using chain_invD(1,4) [OF i(1)] i(2) by blast
  note v = account_rw.writeToChain_view [OF wf i(3) assms(2) TrueI assms(3)]
  obtain t where t: "Head_disk (accountCh a ver) bc = Some t" "tailHeight c = Theight t" "forked_ok (Thash t) c"
    using i(3) by (rule current_okE)
  have "extends (rwHead (accountCh a ver) bc) (block w)"
    using account_rw.Head_disk_extends [OF wf t(1)] forked_tail_preHash [OF t(3) assms(2)] forked_own_get(1) [OF t(3) assms(2)] t(2)
    by simp
  then have "extends (acHead (acOf bc a)) (block w)" by (simp add: accountCh_def)
  then have "chain_inv bc'"
    using chain_inv_InsertAccountBlock [OF i(1,2) _ writeToChain_account [OF assms(3)]] by blast
  then show "pool_inv a ver bc' c'" using v(2) i(2) by (simp add: pool_inv_def)
  show "tailHeight c' = tailHeight c + 1" "acHead (acOf bc' a) = Some (block w)"
    "poolView (accountCh a ver) bc' c' h = poolView (accountCh a ver) bc c h"
    using v(3,4,5) by (simp_all add: accountCh_def)
qed

text \<open>One round of the loop, with the two checks of the fork version resolved.\<close>

lemma tryInsertLoop_step:
  assumes "heightBlocks c i = Some w0" "VerifyReferred_ac ver now (block w0) bc = Some (stat, bc1)"
  defines "w \<equiv> reset ver w0"
  defines "c1 \<equiv> c\<lparr>heightBlocks := (heightBlocks c)(i \<mapsto> w)\<rparr>"
  shows "tryInsertLoop a ver now (i # is) bc c =
      (case VerifyResult_ac stat of
         PENDING \<Rightarrow> Some (VTask (vtask stat), bc1, c1)
       | FAIL \<Rightarrow> Some (NewFailTask now, bc1, c1)
       | SUCCESS \<Rightarrow>
           if Theight (block w) = tailHeight c1 + 1 then
             do {
               (e, bc2, c2) \<leftarrow> writeToChain (accountCh a ver) w bc1 c1;
               if e \<noteq> None then Some (NewFailTask now, bc2, c2)
               else tryInsertLoop a ver now is bc2 c2 }
           else Some (NewSuccessTask, bc1, c1))"
proof -
  have w: "block w = block w0" "checkForkVersion ver w" by (simp_all add: w_def reset_def checkForkVersion_def)
  then have v: "VerifyReferred_ac ver now (block w) bc = Some (stat, bc1)" using assms(2) by simp
  show ?thesis unfolding tryInsertLoop.simps
    by (simp only: assms(1) w_def [symmetric] bind.simps Let_def c1_def [symmetric] v split w(2) simp_thms if_True if_False)
qed

section \<open>The listener of a node\<close>

text \<open>
  A node installs its request pool as the listener before any account chain exists
  (\<open>ledger.Init\<close>), and the request pool panics on a receive block whose request it does not
  know. Since it files every send block, it knows the requests of all send blocks on the chain;
  the removal of a block changes the state of a request but never forgets one.
\<close>

definition on_chain :: "blockchain \<Rightarrow> AccountStateBlock set" where
  "on_chain bc = {b. \<exists>a h. GetAccountByHeight (store bc) a h = Some b}"

definition filed :: "blockchain \<Rightarrow> bool" where
  "filed bc \<longleftrightarrow> (\<forall>b \<in> on_chain bc. BlockTypeOf b = SEND \<longrightarrow> getReq (reqs bc) (To b) (Thash b) \<noteq> None)"

text \<open>A receive block is addressed like every block of a set that has the hash of its source.\<close>

definition addressed :: "AccountStateBlock set \<Rightarrow> AccountStateBlock \<Rightarrow> bool" where
  "addressed U b \<longleftrightarrow> (BlockTypeOf b = RECEIVED \<longrightarrow>
     (\<forall>s \<in> U. Thash s = SourceHash b \<longrightarrow> BlockTypeOf s = SEND \<and> To s = To b))"

lemma blockInsert_keeps_requests:
  assumes "blockInsert b p = Some p'" "getReq p a h \<noteq> None"
  shows "getReq p' a h \<noteq> None"
  using assms by (auto simp: blockInsert_def split: if_splits Option.bind_splits)

lemma InsertAccountBlock_reqPool:
  assumes "InsertAccountBlock a b bc = Some (e, bc')" "acListener (acOf bc a) = reqPoolListener"
  shows "blockInsert b (reqs bc) = Some (reqs bc')"
  using InsertAccountBlock_Some(5) [OF assms(1)] insertChain_ac_Some(2) assms(2) by fastforce

lemma on_chain_InsertAccountBlock:
  assumes "InsertAccountBlock a b bc = Some (e, bc')" "ac_wf bc"
  shows "on_chain bc' \<subseteq> insert b (on_chain bc)"
  using InsertAccountBlock_GetAccountByHeight [OF assms] by (auto simp: on_chain_def split: if_splits)

lemma filed_InsertAccountBlock:
  assumes "InsertAccountBlock a b bc = Some (e, bc')" "ac_wf bc" "acListener (acOf bc a) = reqPoolListener" "filed bc"
  shows "filed bc'"
  unfolding filed_def
proof (intro ballI impI)
  fix x
  assume x: "x \<in> on_chain bc'" "BlockTypeOf x = SEND"
  note r = InsertAccountBlock_reqPool [OF assms(1,3)]
  consider "x = b" | "x \<in> on_chain bc" using x(1) on_chain_InsertAccountBlock [OF assms(1,2)] by blast
  then show "getReq (reqs bc') (To x) (Thash x) \<noteq> None"
  proof cases
    case 1
    then have "reqs bc' = setReq (reqs bc) (To x) (Thash x) \<lparr>ReqHash = Thash x, reqAcc = None, reqState = 2,
        reqAmount = ModifiedAmount x, reqFrom = From x\<rparr>" using r x(2) by (simp add: blockInsert_send)
    then show ?thesis by simp
  next
    case 2
    then show ?thesis using blockInsert_keeps_requests [OF r] assms(4) x(2) by (simp add: filed_def)
  qed
qed

text \<open>Hence a block that the verifier accepts and that is addressed like its source is taken by the listener.\<close>

lemma InsertAccountBlock_accepted:
  assumes "VerifyReferred_ac ver now b bc = Some (stat, bc1)" "VerifyResult_ac stat = SUCCESS" "ac_wf bc"
    and "acListener (acOf bc a) = reqPoolListener" "filed bc" "addressed (on_chain bc) b"
  shows "\<exists>bc2. InsertAccountBlock a b bc1 = Some (None, bc2)"
proof -
  note s = same_chainD [OF VerifyReferred_ac_same [OF assms(1)]]
  have rq: "reqs bc1 = reqs bc" using VerifyReferred_ac_same [OF assms(1)] by (simp add: same_chain_def)
  have "blockInsert b (reqs bc1) \<noteq> None"
  proof (cases "BlockTypeOf b = RECEIVED")
    case True
    then have "from_ok bc b" using VerifyReferred_ac_SUCCESS_iff' [OF assms(1)] assms(2) by simp
    then obtain src where "GetBlockByHeight_ac (acOf bc (From b)) (store bc) (SourceHeight b) = Some src" "source_ok src b"
      using True by (auto simp: from_ok_def)
    then have "src \<in> on_chain bc" "Thash src = SourceHash b"
      by (auto simp: on_chain_def source_ok_def GetBlockByHeight_ac_def split: if_splits)
    then have "getReq (reqs bc) (To b) (SourceHash b) \<noteq> None"
      using assms(5,6) True by (auto simp: filed_def addressed_def)
    then show ?thesis using blockInsert_received_iff [OF True] rq by simp
  qed (simp add: blockInsert_def)
  then have "insertChain_ac b (acOf bc1 a) (store bc1) (reqs bc1) \<noteq> None"
    using assms(4) s(2) by (simp add: insertChain_ac_panics_iff)
  then show ?thesis by (auto simp: InsertAccountBlock_def)
qed

text \<open>A receive block without a request, for instance one whose \<open>To\<close> is not that of its source, panics.\<close>

lemma unfiled_receive_panics:
  assumes "BlockTypeOf b = RECEIVED" "acListener (acOf bc a) = reqPoolListener"
  shows "InsertAccountBlock a b bc = None \<longleftrightarrow> getReq (reqs bc) (To b) (SourceHash b) = None"
proof -
  have "InsertAccountBlock a b bc = None \<longleftrightarrow> insertChain_ac b (acOf bc a) (store bc) (reqs bc) = None"
    by (auto simp: InsertAccountBlock_def split: Option.bind_splits)
  then show ?thesis using blockInsert_received_iff [OF assms(1)] assms(2) by (simp add: insertChain_ac_panics_iff)
qed

section \<open>Runs of the insertion loop\<close>

text \<open>
  What the loop needs besides the invariant. The set \<open>U\<close> holds the blocks in play: those on the
  chain and those that wait in the pool. Every waiting receive block is addressed like its
  source, and no block is for the key of the snapshot head.
\<close>

definition pending :: "aforked \<Rightarrow> AccountStateBlock set" where
  "pending c = {b. \<exists>h w. heightBlocks c h = Some w \<and> block w = b}"

definition pending_ok :: "AccountStateBlock set \<Rightarrow> string \<Rightarrow> blockchain \<Rightarrow> aforked \<Rightarrow> bool" where
  "pending_ok U a bc c \<longleftrightarrow> acListener (acOf bc a) = reqPoolListener \<and> filed bc \<and> on_chain bc \<subseteq> U \<and> pending c \<subseteq> U \<and>
     (\<forall>b \<in> pending c. To b \<noteq> snapshotHeadKey \<and> addressed U b)"

lemma pendingI: "heightBlocks c h = Some w \<Longrightarrow> block w \<in> pending c"
  by (auto simp: pending_def)

lemma pending_upd:
  assumes "heightBlocks c i = Some w0" "block w = block w0"
  shows "pending (c\<lparr>heightBlocks := (heightBlocks c)(i \<mapsto> w)\<rparr>) \<subseteq> pending c"
  using assms pendingI by (fastforce simp: pending_def split: if_splits)

lemma pending_removeTail: "pending (removeTail w c) \<subseteq> pending c"
  by (auto simp: pending_def removeTail_def split: if_splits)

lemma addressed_mono: "addressed U b \<Longrightarrow> V \<subseteq> U \<Longrightarrow> addressed V b"
  by (auto simp: addressed_def)

lemma filed_same: "same_chain bc bc' \<Longrightarrow> filed bc' = filed bc"
  "same_chain bc bc' \<Longrightarrow> on_chain bc' = on_chain bc"
  by (simp_all add: filed_def on_chain_def same_chain_def)

lemma pending_ok_same:
  assumes "same_chain bc bc'" "pending c' \<subseteq> pending c" "pending_ok U a bc c"
  shows "pending_ok U a bc' c'"
  using assms filed_same [OF assms(1)] same_chainD(2) [OF assms(1)] by (auto simp: pending_ok_def)

lemma pending_ok_InsertAccountBlock:
  assumes "InsertAccountBlock a b bc = Some (e, bc')" "ac_wf bc" "pending_ok U a bc c" "b \<in> U" "pending c' \<subseteq> pending c"
  shows "pending_ok U a bc' c'"
proof -
  have "acListener (acOf bc' a) = reqPoolListener"
    using assms(3) InsertAccountBlock_Some(2) [OF assms(1)] by (simp add: pending_ok_def)
  moreover have "filed bc'" using filed_InsertAccountBlock [OF assms(1,2)] assms(3) by (simp add: pending_ok_def)
  ultimately show ?thesis
    using on_chain_InsertAccountBlock [OF assms(1,2)] assms(3-5) by (auto simp: pending_ok_def)
qed

text \<open>The first block of the current chain, and what verifying it leaves.\<close>

lemma tryInsertLoop_first:
  assumes "pool_inv a ver bc c" "pending_ok U a bc c" "tailHeight c < headHeight c"
  obtains w0 stat bc1 where "heightBlocks c (tailHeight c + 1) = Some w0" "Theight (block w0) = tailHeight c + 1"
    "VerifyReferred_ac ver now (block w0) bc = Some (stat, bc1)" "same_chain bc bc1"
proof -
  obtain tH where t: "forked_ok tH c" using assms(1) unfolding pool_inv_def by (meson current_okE)
  obtain w0 where w0: "heightBlocks c (tailHeight c + 1) = Some w0" "Theight (block w0) = tailHeight c + 1"
    using run_ok_get [OF t [unfolded forked_ok_def], of "tailHeight c + 1"] assms(3) by (auto simp: own_Some)
  have "chain_inv bc" "To (block w0) \<noteq> snapshotHeadKey"
    using assms(1,2) pendingI [OF w0(1)] by (auto simp: pool_inv_def pending_ok_def)
  then show thesis using that [OF w0] VerifyReferred_ac_returns by blast
qed

text \<open>An accepted first block is written, and the loop goes on above it.\<close>

lemma tryInsertLoop_write:
  assumes "pool_inv a ver bc c" "pending_ok U a bc c" "tailHeight c < headHeight c"
    "heightBlocks c (tailHeight c + 1) = Some w0" "Theight (block w0) = tailHeight c + 1"
    "VerifyReferred_ac ver now (block w0) bc = Some (stat, bc1)" "same_chain bc bc1" "VerifyResult_ac stat = SUCCESS"
  shows "\<exists>bc2 c2. tryInsertLoop a ver now [tailHeight c + 1..headHeight c] bc c =
      tryInsertLoop a ver now [tailHeight c2 + 1..headHeight c2] bc2 c2 \<and> pool_inv a ver bc2 c2 \<and> pending_ok U a bc2 c2 \<and>
    tailHeight c2 = tailHeight c + 1 \<and> headHeight c2 = headHeight c \<and> acHead (acOf bc2 a) = Some (block w0) \<and>
    (\<forall>h. poolView (accountCh a ver) bc2 c2 h = poolView (accountCh a ver) bc c h)"
proof -
  define w where "w = reset ver w0"
  define c1 where "c1 = c\<lparr>heightBlocks := (heightBlocks c)(tailHeight c + 1 \<mapsto> w)\<rparr>"
  have w: "block w = block w0" "forkVersion w = ver" by (simp_all add: w_def reset_def)
  note c1 = reset_frames [OF assms(4), where ver = ver, folded w_def, folded c1_def]
  note step = tryInsertLoop_step [OF assms(4,6), folded w_def, folded c1_def]
  have l: "[tailHeight c + 1..headHeight c] = (tailHeight c + 1) # [tailHeight c + 1 + 1..headHeight c]"
    using assms(3) by (simp add: upto_rec1)
  have inv1: "pool_inv a ver bc1 c1"
    using assms(1) chain_inv_same [OF assms(7)] rw_same(1) [OF assms(7)] by (simp add: pool_inv_def c1(5))
  have view1: "poolView (accountCh a ver) bc1 c1 h = poolView (accountCh a ver) bc c h" for h
    using rw_same(2) [OF assms(7)] by (simp add: c1(6))
  have b: "block w0 \<in> pending c" using assms(4) by (rule pendingI)
  have wf: "ac_wf bc" "ac_wf bc1" using assms(1) inv1 chain_invD(1) by (auto simp: pool_inv_def)
  have ad: "addressed (on_chain bc) (block w0)"
    by (rule addressed_mono [of U]) (use b assms(2) in \<open>auto simp: pending_ok_def\<close>)
  obtain bc2 where ins: "InsertAccountBlock a (block w) bc1 = Some (None, bc2)"
    using InsertAccountBlock_accepted [OF assms(6,8) wf(1), of a] ad assms(2) w(1) by (auto simp: pending_ok_def)
  define c2 where "c2 = removeTail w c1"
  have wr: "writeToChain (accountCh a ver) w bc1 c1 = Some (None, bc2, c2)"
    using ins w(2) by (simp add: writeToChain_def accountCh_def c2_def)
  have wc: "heightBlocks c1 (tailHeight c1 + 1) = Some w" using c1(2) by (simp add: c1_def)
  note s = write_step [OF inv1 wc wr]
  have hd2: "headHeight c2 = headHeight c" by (simp add: c2_def removeTail_def c1(3))
  have sub: "pending c1 \<subseteq> pending c" unfolding c1_def by (rule pending_upd [OF assms(4) w(1)])
  have "pending_ok U a bc2 c2"
    by (rule pending_ok_InsertAccountBlock [OF ins wf(2) pending_ok_same [OF assms(7) sub assms(2)]])
      (use b assms(2) w(1) pending_removeTail [of w c1] in \<open>auto simp: pending_ok_def c2_def\<close>)
  moreover have "tryInsertLoop a ver now [tailHeight c + 1..headHeight c] bc c =
      tryInsertLoop a ver now [tailHeight c2 + 1..headHeight c2] bc2 c2"
    unfolding l using step assms(5,8) w(1) c1(2) wr s(2) hd2 by simp
  moreover have "tailHeight c2 = tailHeight c + 1" using s(2) c1(2) by simp
  ultimately show ?thesis using s(1,3,4) hd2 view1 w(1) by metis
qed

text \<open>The loop never panics, and it keeps the invariant and the view.\<close>

lemma tryInsertLoop_safe:
  assumes "pool_inv a ver bc c" "pending_ok U a bc c"
  shows "\<exists>task bc' c'. tryInsertLoop a ver now [tailHeight c + 1..headHeight c] bc c = Some (task, bc', c') \<and>
    pool_inv a ver bc' c' \<and> pending_ok U a bc' c' \<and> tailHeight c \<le> tailHeight c' \<and> headHeight c' = headHeight c \<and>
    (\<forall>h. poolView (accountCh a ver) bc' c' h = poolView (accountCh a ver) bc c h)"
  using assms
proof (induction "nat (headHeight c - tailHeight c)" arbitrary: bc c)
  case 0
  then show ?case by auto
next
  case (Suc n)
  have lt: "tailHeight c < headHeight c" using Suc.hyps(2) by simp
  obtain w0 stat bc1 where w0: "heightBlocks c (tailHeight c + 1) = Some w0" "Theight (block w0) = tailHeight c + 1"
    "VerifyReferred_ac ver now (block w0) bc = Some (stat, bc1)" "same_chain bc bc1"
    using tryInsertLoop_first [OF Suc.prems lt] by blast
  show ?case
  proof (cases "VerifyResult_ac stat = SUCCESS")
    case False
    let ?c1 = "c\<lparr>heightBlocks := (heightBlocks c)(tailHeight c + 1 \<mapsto> reset ver w0)\<rparr>"
    have l: "[tailHeight c + 1..headHeight c] = (tailHeight c + 1) # [tailHeight c + 1 + 1..headHeight c]"
      using lt by (simp add: upto_rec1)
    note c1 = reset_frames [OF w0(1), where ver = ver]
    obtain task where "tryInsertLoop a ver now [tailHeight c + 1..headHeight c] bc c = Some (task, bc1, ?c1)"
      unfolding l using tryInsertLoop_step [OF w0(1,3)] False by (cases "VerifyResult_ac stat") auto
    moreover have "pool_inv a ver bc1 ?c1"
      using Suc.prems(1) chain_inv_same [OF w0(4)] rw_same(1) [OF w0(4)] c1(5) [where rw = "accountCh a ver" and s = bc] by (simp add: pool_inv_def)
    moreover have "pending_ok U a bc1 ?c1"
      by (rule pending_ok_same [OF w0(4) pending_upd [OF w0(1)] Suc.prems(2)]) (simp add: reset_def)
    ultimately show ?thesis using rw_same(2) [OF w0(4)] c1(2,3,6) by auto
  next
    case True
    obtain bc2 c2 where s: "tryInsertLoop a ver now [tailHeight c + 1..headHeight c] bc c =
        tryInsertLoop a ver now [tailHeight c2 + 1..headHeight c2] bc2 c2" "pool_inv a ver bc2 c2" "pending_ok U a bc2 c2"
      "tailHeight c2 = tailHeight c + 1" "headHeight c2 = headHeight c"
      "\<forall>h. poolView (accountCh a ver) bc2 c2 h = poolView (accountCh a ver) bc c h"
      using tryInsertLoop_write [OF Suc.prems lt w0 True] by blast
    have "n = nat (headHeight c2 - tailHeight c2)" using Suc.hyps(2) s(4,5) by simp
    from Suc.hyps(1) [OF this s(2,3)] show ?thesis unfolding s(1) using s(4,5,6) by fastforce
  qed
qed


text \<open>What a reader sees below the tail of the current chain is on the account chain.\<close>

lemma view_on_chain:
  assumes "pool_inv a ver bc c" "h \<le> tailHeight c" "poolView (accountCh a ver) bc c h = Some b"
  shows "GetAccountByHeight (store bc) a h = Some b"
proof -
  obtain tH where t: "forked_ok tH c" using assms(1) unfolding pool_inv_def by (meson current_okE)
  have "heightBlocks c h = None" using forked_own_None [OF t] assms(2) by simp
  then have "rwGetBlock (accountCh a ver) bc h = Some (Some b)" "0 \<le> h"
    using assms(3) by (auto simp: poolView_def getBlock_disk_def split: if_splits option.splits)
  then show ?thesis
    using ac_wf_address [OF chain_invD(1), of bc] assms(1)
    by (simp add: accountCh_def GetAccountByHeight_bc_def GetBlockByHeight_ac_def pool_inv_def)
qed


section \<open>What a rollback query returns\<close>

lemma map_filter_Some: "(\<And>x. x \<in> set xs \<Longrightarrow> f x = Some (g x)) \<Longrightarrow> List.map_filter f xs = map g xs"
  by (induction xs) (simp_all add: List.map_filter_simps)

lemma TryRollback_holds:
  assumes "chain_inv bc" "apAddress ap \<noteq> snapshotHeadKey"
  shows "\<exists>r. TryRollback ver h hash ap bc = Some r \<and>
    (case r of
       Inl e \<Rightarrow> e = ErrorRollbackCmd \<and> \<not> (\<exists>b. 0 \<le> h \<and> GetAccountByHeight (store bc) (apAddress ap) h = Some b \<and> Thash b = hash)
     | Inr bs \<Rightarrow> \<exists>b hd0. GetAccountByHeight (store bc) (apAddress ap) h = Some b \<and> Thash b = hash \<and>
         acHead (acOf bc (apAddress ap)) = Some hd0 \<and>
         bs = filter (\<lambda>b. BlockTypeOf b = SEND)
           (map (\<lambda>i. the (GetAccountByHeight (store bc) (apAddress ap) i)) (rev [h + 1..Theight hd0])))"
proof -
  let ?a = "apAddress ap" and ?rw = "accountCh (apAddress ap) ver"
  let ?get = "GetAccountByHeight (store bc) (apAddress ap)"
  have wf: "ac_wf bc \<and> account_ok bc ?a" using chain_invD(1,4) [OF assms(1)] assms(2) by blast
  have ok: "chain_ok ?get (acHead (acOf bc ?a))" using wf by (simp add: account_ok_def)
  have view: "getBlock_disk ?rw ver bc i = map_option (\<lambda>b. \<lparr>block = b, forkVersion = ver\<rparr>) (?get i)" for i
    using account_rw.get [OF wf, of i] chain_ok_negative [OF ok, of i]
    by (cases "?get i") (auto simp: getBlock_disk_def)
  show ?thesis
  proof (cases "\<exists>b. ?get h = Some b \<and> Thash b = hash")
    case False
    then have "TryRollback ver h hash ap bc = Some (Inl ErrorRollbackCmd)"
      by (auto simp: TryRollback_def Let_def view split: option.splits)
    then show ?thesis using False by auto
  next
    case True
    then obtain b where b: "?get h = Some b" "Thash b = hash" by blast
    then obtain hd0 where hd0: "acHead (acOf bc ?a) = Some hd0"
      using ok by (cases "acHead (acOf bc ?a)") (auto simp: chain_ok_def)
    then have ok': "chain_ok ?get (Some hd0)" using ok by simp
    have hh: "0 \<le> h" using chain_ok_negative [OF ok', of h] b(1) by (cases "0 \<le> h") auto
    have "?get i = Some (the (?get i))" if "i \<in> set (rev [h + 1..Theight hd0])" for i
      using chain_ok_Some [OF ok', of i] that hh by auto
    then have "map block (List.map_filter (getBlock_disk ?rw ver bc) (rev [h + 1..Theight hd0])) =
        map (\<lambda>i. the (?get i)) (rev [h + 1..Theight hd0])"
      by (subst map_filter_Some [where g = "\<lambda>i. \<lparr>block = the (?get i), forkVersion = ver\<rparr>"]) (auto simp: view)
    moreover have "Head_disk ?rw bc = Some hd0" using hd0 by (simp add: Head_disk_def accountCh_def)
    ultimately have "TryRollback ver h hash ap bc = Some (Inr (filter (\<lambda>b. BlockTypeOf b = SEND)
           (map (\<lambda>i. the (?get i)) (rev [h + 1..Theight hd0]))))"
      using b by (simp add: TryRollback_def Let_def view)
    then show ?thesis using b hd0 by auto
  qed
qed

text \<open>
  C24. \<open>TryRollback\<close> refuses a rollback point that is not a block of the account chain; for
  one that is, it returns exactly the send blocks of the chain above that block, from the head
  downwards.
\<close>

theorem TryRollback_spec:
  assumes "chain_inv bc" "apAddress ap \<noteq> snapshotHeadKey"
  shows "\<exists>r. TryRollback ver h hash ap bc = Some r \<and>
    (case r of
       Inl e \<Rightarrow> e = ErrorRollbackCmd \<and> \<not> (\<exists>b. 0 \<le> h \<and> GetAccountByHeight (store bc) (apAddress ap) h = Some b \<and> Thash b = hash)
     | Inr bs \<Rightarrow> \<exists>b hd0. GetAccountByHeight (store bc) (apAddress ap) h = Some b \<and> Thash b = hash \<and>
         acHead (acOf bc (apAddress ap)) = Some hd0 \<and>
         bs = filter (\<lambda>b. BlockTypeOf b = SEND)
           (map (\<lambda>i. the (GetAccountByHeight (store bc) (apAddress ap) i)) (rev [h + 1..Theight hd0])))"
  using assms by (rule TryRollback_holds)

section \<open>Witnesses\<close>

text \<open>The chain of a new ledger.\<close>

definition ex_new :: blockchain where
  "ex_new = SetChainListener (Some reqPoolListener) (ex0\<lparr>reqs := newReqPool\<rparr>)"

lemma ex_new_simps [simp]:
  "store ex_new = store ex0" "HeadSnapshot ex_new = Some genesisSnapshot" "acListener (acOf ex_new a) = reqPoolListener"
  by (simp_all add: ex_new_def SetChainListener_def HeadSnapshot_def ex0_simps(2) [unfolded HeadSnapshot_def] acOf_None)

lemma ex_new_head: "acHead (acOf ex_new a) = acHead (acOf ex0 a)"
  by (simp add: ex_new_def SetChainListener_def acOf_None newAccountChain_def)

lemma ex_new_inv: "chain_inv ex_new"
proof -
  have "acOf (ex0\<lparr>reqs := newReqPool\<rparr>) a = acOf ex0 a" for a by (simp add: acOf_None)
  then have "chain_inv (ex0\<lparr>reqs := newReqPool\<rparr>)"
    using ex_inv(1) by (simp add: chain_inv_def ac_wf_def snapshot_ok_def account_ok_def HeadSnapshot_def)
  then show ?thesis unfolding ex_new_def by (rule chain_inv_listener)
qed

text \<open>The chain of a node after the send block was inserted: its request is filed.\<close>

definition ex_filed :: blockchain where
  "ex_filed = snd (the (InsertAccountBlock ''viteshan'' ex_send ex_new))"

lemma ex_filed: "InsertAccountBlock ''viteshan'' ex_send ex_new = Some (None, ex_filed)"
  by (simp add: ex_filed_def InsertAccountBlock_def insertChain_ac_def Let_def blockInsert_send)

lemma ex_filed_inv: "chain_inv ex_filed"
  by (rule chain_inv_InsertAccountBlock [OF ex_new_inv _ _ ex_filed]) (simp_all add: ex_new_head ex0_head extends_def)

lemma ex_filed_simps [simp]:
  "GetAccountByHeight (store ex_filed) a h = GetAccountByHeight (store ex1) a h"
  "acHead (acOf ex_filed ''jie'') = Some (genesisAccountBlock ''jie'')"
  "GetAccountByHash (store ex_filed) ''send1'' = Some ex_send"
  "GetSnapshotByHeight (store ex_filed) = GetSnapshotByHeight (store ex0)"
  "acListener (acOf ex_filed a) = reqPoolListener" "HeadSnapshot ex_filed = Some genesisSnapshot"
proof -
  note wf = chain_invD(1) [OF ex_new_inv]
  show "GetAccountByHeight (store ex_filed) a h = GetAccountByHeight (store ex1) a h"
    using InsertAccountBlock_GetAccountByHeight [OF ex_filed wf] by (simp add: ex_get)
  show "acHead (acOf ex_filed ''jie'') = Some (genesisAccountBlock ''jie'')"
    using InsertAccountBlock_other_head [OF ex_filed wf, of "''jie''"] by (simp add: ex_new_head ex0_head)
  obtain c' where "insertChain_ac ex_send (acOf ex_new ''viteshan'') (store ex_new) (reqs ex_new) = Some (c', store ex_filed, reqs ex_filed)"
    using InsertAccountBlock_Some(5) [OF ex_filed] by blast
  from insertChain_ac_Some(7) [OF this] show "GetAccountByHash (store ex_filed) ''send1'' = Some ex_send" by simp
  show "GetSnapshotByHeight (store ex_filed) = GetSnapshotByHeight (store ex0)"
    using InsertAccountBlock_snapshots(1) [OF ex_filed] by simp
  have "ac ex_filed x = (if x = ''viteshan'' then Some ((acOf ex_new x)\<lparr>acHead := Some ex_send\<rparr>) else None)" for x
    using InsertAccountBlock_Some(2) [OF ex_filed] by (simp add: ex_new_def SetChainListener_def)
  then show "acListener (acOf ex_filed a) = reqPoolListener"
    using InsertAccountBlock_Some(4) [OF ex_filed] by (cases "a = ''viteshan''") (simp_all add: acOf_None ex_new_def SetChainListener_def)
  show "HeadSnapshot ex_filed = Some genesisSnapshot"
    using InsertAccountBlock_Some(3) [OF ex_filed] ex_new_simps(2) by (simp add: HeadSnapshot_def)
qed

lemma filed_new: "filed ex_new"
  by (auto simp: filed_def on_chain_def split: if_splits)

lemma filed_ex_filed: "filed ex_filed"
  by (rule filed_InsertAccountBlock [OF ex_filed chain_invD(1) [OF ex_new_inv]]) (simp_all add: filed_new)

text \<open>The blocks in play: those on that chain and the receive block.\<close>

definition ex_play :: "AccountStateBlock set" where
  "ex_play = insert ex_recv (on_chain ex_filed)"

lemma ex_addressed: "addressed ex_play ex_recv"
  by (auto simp: addressed_def ex_play_def on_chain_def ex_get split: if_splits)

lemma ex_recv_accepted_node:
  obtains stat bc1 where "VerifyReferred_ac 0 0 ex_recv ex_filed = Some (stat, bc1)" "VerifyResult_ac stat = SUCCESS"
proof -
  obtain stat bc1 where v: "VerifyReferred_ac 0 0 ex_recv ex_filed = Some (stat, bc1)"
    using VerifyReferred_ac_returns [OF ex_filed_inv, of ex_recv 0 0] by auto
  have "snapshot_known ex_filed ex_recv" "self_ok ex_filed ex_recv" "from_ok ex_filed ex_recv"
    by (rule ex_recv_conditions_on; simp add: ex_filed_inv)+
  then show thesis using VerifyReferred_ac_SUCCESS_iff' [OF v] that [OF v] by simp
qed

definition ex_ap :: accountPool where
  "ex_ap = \<lparr>apAddress = ''jie'',
     apPool = \<lparr>Id = ''accountChainPool-jie'', blockpool = \<lparr>freeBlocks = Map.empty, compoundBlocks = Map.empty\<rparr>,
       chainpool = \<lparr>poolId = ''accountChainPool-jie'', lastestChainIdx = 1, current = ''p-1'', snippetChains = Map.empty,
         chains = [''p-1'' \<mapsto> ex_pool_chain]\<rparr>\<rparr>,
     apTask = None, apLoopTime = 0, compactLock = 0\<rparr>"

lemma ex_ap_simps [simp]: "apAddress ex_ap = ''jie''" "currentOf ex_ap = Some ex_pool_chain"
  by (simp_all add: ex_ap_def currentOf_def)

lemma ex_pool_inv: "pool_inv ''jie'' 0 ex_filed ex_pool_chain"
  using ex_pool_chain_ok ex_filed_inv by (simp add: pool_inv_def current_ok_def Head_disk_def accountCh_def)

lemma ex_pending: "pending ex_pool_chain = {ex_recv}"
  by (auto simp: pending_def split: if_splits)

lemma ex_pending_ok: "pending_ok ex_play ''jie'' ex_filed ex_pool_chain"
  using ex_addressed by (auto simp: pending_ok_def ex_pending filed_ex_filed) (auto simp: ex_play_def)


theorem TryRollback_spec_witness:
  "TryRollback 0 0 (Thash (genesisAccountBlock ''viteshan'')) (ex_ap\<lparr>apAddress := ''viteshan''\<rparr>) ex2 = Some (Inr [ex_send])"
proof -
  let ?ap = "ex_ap\<lparr>apAddress := ''viteshan''\<rparr>" and ?h = "Thash (genesisAccountBlock ''viteshan'')"
  have g: "GetAccountByHeight (store ex2) ''viteshan'' 0 = Some (genesisAccountBlock ''viteshan'')"
    "GetAccountByHeight (store ex2) ''viteshan'' 1 = Some ex_send" by (simp_all add: ex_get)
  have "apAddress ?ap \<noteq> snapshotHeadKey" by simp
  from TryRollback_spec [OF ex_inv(3) this, of 0 0 ?h] obtain r where
    "TryRollback 0 0 ?h ?ap ex2 = Some r" and r: "case r of
       Inl e \<Rightarrow> e = ErrorRollbackCmd \<and> \<not> (\<exists>b. 0 \<le> (0::int) \<and> GetAccountByHeight (store ex2) (apAddress ?ap) 0 = Some b \<and> Thash b = ?h)
     | Inr bs \<Rightarrow> \<exists>b hd0. GetAccountByHeight (store ex2) (apAddress ?ap) 0 = Some b \<and> Thash b = ?h \<and>
         acHead (acOf ex2 (apAddress ?ap)) = Some hd0 \<and>
         bs = filter (\<lambda>b. BlockTypeOf b = SEND)
           (map (\<lambda>i. the (GetAccountByHeight (store ex2) (apAddress ?ap) i)) (rev [0 + 1..Theight hd0]))" by blast
  moreover have "r = Inr [ex_send]" using r g by (cases r) auto
  ultimately show ?thesis by simp
qed


end
