(* ===== verification/Pool_Top.thy ===== *)
theory Pool_Top
  imports Account_Pool
begin

text \<open>
  The block pool of the node: one pool per account chain and one for the snapshot chain
  (\<open>pool/pool.go\<close>, \<open>pool/snapshot_pool.go\<close>), and the fork version they share
  (\<open>version/version.go\<close>).

  The state holds the block chain behind the pools, the fork version, the clock that
  \<open>time.Now\<close> reads, and the requests handed to the network fetcher, oldest first. An
  operation runs under the locks that the code takes, as one step; a loop body that the code
  repeats under a ticker is one operation. Where the code ranges over a map, \<open>ord\<close> gives
  the order in which a set of keys is visited.
\<close>

section \<open>State\<close>

type_synonym sforked = "unit SnapshotBlock_ext forked"
type_synonym sbcpool = "unit SnapshotBlock_ext bcpool"
type_synonym ordering = "string set \<Rightarrow> string list"
type_synonym points = "string \<rightharpoonup> AccountHashH"

record pool =
  pBc :: blockchain
  pVer :: int
  pendingSc :: sbcpool
  pendingAc :: "string \<rightharpoonup> accountPool"
  pClock :: int
  pFetched :: "FetchRequest list"

definition Inc :: "int \<Rightarrow> int" where
  "Inc version = wrap32 (version + 1)"

definition NewPool :: "blockchain \<Rightarrow> int \<Rightarrow> pool option" where
  "NewPool bc now =
     do {
       sp \<leftarrow> init_bcp snapshotCh ''snapshotPool'' bc;
       Some \<lparr>pBc = bc, pVer = 0, pendingSc = sp, pendingAc = Map.empty, pClock = now, pFetched = []\<rparr>
     }"

definition Fetch :: "FetchRequest list \<Rightarrow> pool \<Rightarrow> pool" where
  "Fetch rs S = S\<lparr>pFetched := pFetched S @ rs\<rparr>"

definition setAc :: "string \<Rightarrow> accountPool \<Rightarrow> pool \<Rightarrow> pool" where
  "setAc addr p S = S\<lparr>pendingAc := (pendingAc S)(addr \<mapsto> p)\<rparr>"

definition selfPendingAc :: "string \<Rightarrow> pool \<Rightarrow> (accountPool \<times> pool) option" where
  "selfPendingAc addr S =
     (case pendingAc S addr of
        Some p \<Rightarrow> Some (p, S)
      | None \<Rightarrow>
          do {
            (p, bc) \<leftarrow> newAccountPool addr (pVer S) (pClock S) (pBc S);
            Some (p, setAc addr p (S\<lparr>pBc := bc\<rparr>))
          })"

section \<open>Blocks from the network and from the node itself\<close>

definition AddSnapshotBlock :: "SnapshotBlock \<Rightarrow> pool \<Rightarrow> pool" where
  "AddSnapshotBlock b S = S\<lparr>pendingSc := AddBlock (pVer S) b (pendingSc S)\<rparr>"

definition AddDirectSnapshotBlock :: "SnapshotBlock \<Rightarrow> pool \<Rightarrow> (err \<times> pool) option" where
  "AddDirectSnapshotBlock b S =
     do {
       let verify = (\<lambda>b bc. let (stat, bc1) = VerifyReferred_sn (pVer S) (pClock S) b bc
                            in Some (result stat, errMsg_sn stat, bc1));
       (e, bc, cp) \<leftarrow> AddDirectBlock snapshotCh verify (pVer S) b (pBc S) (chainpool (pendingSc S));
       Some (e, S\<lparr>pBc := bc, pendingSc := (pendingSc S)\<lparr>chainpool := cp\<rparr>\<rparr>)
     }"

definition AddAccountBlock :: "string \<Rightarrow> AccountStateBlock \<Rightarrow> pool \<Rightarrow> pool option" where
  "AddAccountBlock addr b S =
     do {
       (p, S1) \<leftarrow> selfPendingAc addr S;
       Some (setAc addr (p\<lparr>apPool := AddBlock (pVer S1) b (apPool p)\<rparr>) S1)
     }"

definition AddDirectAccountBlock :: "string \<Rightarrow> AccountStateBlock \<Rightarrow> pool \<Rightarrow> (err \<times> pool) option" where
  "AddDirectAccountBlock addr b S =
     do {
       (p, S1) \<leftarrow> selfPendingAc addr S;
       let verify = (\<lambda>b bc. do {
                       (stat, bc1) \<leftarrow> VerifyReferred_ac (pVer S1) (pClock S1) b bc;
                       Some (VerifyResult_ac stat, errMsg stat, bc1) });
       (e, bc, cp) \<leftarrow> AddDirectBlock (accountCh addr (pVer S1)) verify (pVer S1) b (pBc S1) (chainpool (apPool p));
       Some (e, setAc addr (p\<lparr>apPool := (apPool p)\<lparr>chainpool := cp\<rparr>\<rparr>) (S1\<lparr>pBc := bc\<rparr>))
     }"

definition ExistInPool :: "string \<Rightarrow> string \<Rightarrow> pool \<Rightarrow> bool option" where
  "ExistInPool addr requestHash S = None"

definition poolInfo :: "'a bcpool \<Rightarrow> string option" where
  "poolInfo p =
     do {
       c \<leftarrow> chains (chainpool p) (current (chainpool p));
       Some (''freeSize:'' @ itoa (int (card (dom (freeBlocks (blockpool p))))) @
             '', compoundSize:'' @ itoa (int (card (dom (compoundBlocks (blockpool p))))) @
             '', snippetSize:'' @ itoa (int (card (dom (snippetChains (chainpool p))))) @
             '', currentLen:'' @ itoa (size_chain c) @
             '', chainSize:'' @ itoa (int (card (dom (chains (chainpool p))))))
     }"

definition Info :: "string \<Rightarrow> pool \<Rightarrow> (string \<times> pool) option" where
  "Info addr S =
     (if addr = '''' then do { s \<leftarrow> poolInfo (pendingSc S); Some (s, S) }
      else do {
        (p, S1) \<leftarrow> selfPendingAc addr S;
        s \<leftarrow> poolInfo (apPool p);
        Some (s, S1)
      })"

section \<open>Rollback points of accounts\<close>

definition canAdd :: "points \<Rightarrow> AccountHashH \<Rightarrow> bool" where
  "canAdd hs h =
     (case hs (Addr h) of
        None \<Rightarrow> True
      | Some hashH \<Rightarrow> if Height h < Height hashH then True else False)"

definition addWaitRollback :: "AccountHashH \<Rightarrow> points \<Rightarrow> points" where
  "addWaitRollback h hs =
     (case hs (Addr h) of
        None \<Rightarrow> hs(Addr h \<mapsto> h)
      | Some hashH \<Rightarrow> if Height hashH < Height h then hs(Addr h \<mapsto> h) else hs)"

text \<open>The first inner loop: every task moves to the rollback points, and its send blocks are collected.\<close>

fun collectSends ::
  "string list \<Rightarrow> points \<Rightarrow> points \<Rightarrow> AccountStateBlock list \<Rightarrow> pool \<Rightarrow>
   (points \<times> AccountStateBlock list \<times> pool) option" where
  "collectSends [] ts wait sends S = Some (wait, sends, S)"
| "collectSends (k # ks) ts wait sends S =
     do {
       v \<leftarrow> ts k;
       let wait1 = (if canAdd wait v then wait(Addr v \<mapsto> v) else wait);
       let wait2 = addWaitRollback v wait1;
       (p, S1) \<leftarrow> selfPendingAc (Addr v) S;
       r \<leftarrow> TryRollback (pVer S1) (Height v) (Hash v) p (pBc S1);
       collectSends ks ts wait2 (case r of Inl e \<Rightarrow> sends | Inr tmpBlocks \<Rightarrow> sends @ tmpBlocks) S1
     }"

text \<open>
  The second inner loop: the receiver of every collected send block becomes a task. A send
  block that has no receiver is a nil pointer, dereferenced before it is tested.
\<close>

fun addReceivers :: "AccountStateBlock list \<Rightarrow> points \<Rightarrow> pool \<Rightarrow> (points \<times> pool) option" where
  "addReceivers [] ts S = Some (ts, S)"
| "addReceivers (v # vs) ts S =
     do {
       (r, bc) \<leftarrow> GetAccountBySourceHash_bc (pBc S) (To v) (Thash v);
       req \<leftarrow> r;
       let h = NewAccountHashH (Tsigner req) (Thash req) (Theight req);
       addReceivers vs (if canAdd ts h then ts(Addr h \<mapsto> h) else ts) (S\<lparr>pBc := bc\<rparr>)
     }"

partial_function (option) getWaitRollbackAccounts ::
  "ordering \<Rightarrow> points \<Rightarrow> points \<Rightarrow> pool \<Rightarrow> (points \<times> pool) option" where
  "getWaitRollbackAccounts ord ts wait S =
     do {
       (wait1, sends, S1) \<leftarrow> collectSends (ord (dom ts)) ts wait [] S;
       (ts1, S2) \<leftarrow> addReceivers sends Map.empty S1;
       if dom ts1 = {} then Some (wait1, S2) else getWaitRollbackAccounts ord ts1 wait1 S2
     }"

section \<open>Rolling accounts back and forking them\<close>

definition Rollback :: "AccountHashH \<Rightarrow> pool \<Rightarrow> (err \<times> pool) option" where
  "Rollback v S =
     do {
       (p, S1) \<leftarrow> selfPendingAc (Addr v) S;
       (e, bc, cp) \<leftarrow> rollback_cp (accountCh (Addr v) (pVer S1)) (Height v) (pVer S1) (pBc S1) (chainpool (apPool p));
       Some (e, setAc (Addr v) (p\<lparr>apPool := (apPool p)\<lparr>chainpool := cp\<rparr>\<rparr>) (S1\<lparr>pBc := bc\<rparr>))
     }"

fun rollbackUntilError :: "AccountHashH list \<Rightarrow> pool \<Rightarrow> (err \<times> pool) option" where
  "rollbackUntilError [] S = Some (None, S)"
| "rollbackUntilError (v # vs) S =
     do {
       (e, S1) \<leftarrow> Rollback v S;
       if e \<noteq> None then Some (e, S1) else rollbackUntilError vs S1
     }"

fun rollbackEach :: "AccountHashH list \<Rightarrow> pool \<Rightarrow> pool option" where
  "rollbackEach [] S = Some S"
| "rollbackEach (v # vs) S = do { (e, S1) \<leftarrow> Rollback v S; rollbackEach vs S1 }"

definition fetchAccount :: "AccountHashH \<Rightarrow> FetchRequest" where
  "fetchAccount h = \<lparr>frChain = Addr h, frHeight = Height h, frHash = Hash h, frPrevCnt = 5\<rparr>"

definition PendingAccountTo :: "ordering \<Rightarrow> AccountHashH \<Rightarrow> pool \<Rightarrow> (err \<times> pool) option" where
  "PendingAccountTo ord h S =
     do {
       (this, S1) \<leftarrow> selfPendingAc (Addr h) S;
       if \<not> FindInChain ord (Hash h) (Height h) this
       then Some (None, Fetch [fetchAccount h] S1)
       else Some (None, S1)
     }"

definition ForkAccountTo :: "ordering \<Rightarrow> AccountHashH \<Rightarrow> pool \<Rightarrow> (err \<times> pool) option" where
  "ForkAccountTo ord h S =
     do {
       (this, S1) \<leftarrow> selfPendingAc (Addr h) S;
       if \<not> FindInChain ord (Hash h) (Height h) this
       then Some (None, Fetch [fetchAccount h] S1)
       else do {
         r \<leftarrow> FindRollbackPointForAccountHashH ord (pVer S1) (Height h) (Hash h) this (pBc S1);
         case r of
           Inl e \<Rightarrow> Some (None, S1)
         | Inr (None, rqs) \<Rightarrow> Some (None, Fetch rqs S1)
         | Inr (Some (b, chain), rqs) \<Rightarrow>
             do {
               (wait, S2) \<leftarrow> getWaitRollbackAccounts ord
                  [Addr h \<mapsto> NewAccountHashH (Addr h) (Thash b) (Theight b)] Map.empty (Fetch rqs S1);
               S3 \<leftarrow> rollbackEach (valuesOf ord wait) S2;
               (this1, S4) \<leftarrow> selfPendingAc (Addr h) S3;
               (e, cp) \<leftarrow> currentModifyToChain (accountCh (Addr h) (pVer S4)) (pVer S4) chain (pBc S4)
                  (chainpool (apPool this1));
               Some (e, setAc (Addr h) (this1\<lparr>apPool := (apPool this1)\<lparr>chainpool := cp\<rparr>\<rparr>) S4)
             }
       }
     }"

fun forkEach :: "ordering \<Rightarrow> AccountHashH list \<Rightarrow> pool \<Rightarrow> pool option" where
  "forkEach ord [] S = Some S"
| "forkEach ord (v # vs) S = do { (e, S1) \<leftarrow> ForkAccountTo ord v S; forkEach ord vs S1 }"

text \<open>
  The tasks of \<open>ForkAccounts\<close>: the accounts that refer to a snapshot block above the fork
  point. The rollback point is dereferenced although it may be nil.
\<close>

fun forkTasks :: "SnapshotBlock \<Rightarrow> string list \<Rightarrow> points \<Rightarrow> pool \<Rightarrow> points option" where
  "forkTasks forkPoint [] ts S = Some ts"
| "forkTasks forkPoint (k # ks) ts S =
     do {
       a \<leftarrow> pendingAc S k;
       (ok, b) \<leftarrow> FindRollbackPointByReferSnapshot (pVer S) (Theight forkPoint) (Thash forkPoint) a (pBc S);
       if \<not> ok then forkTasks forkPoint ks ts S
       else do {
         blk \<leftarrow> b;
         let h = NewAccountHashH k (Thash blk) (Theight blk);
         forkTasks forkPoint ks (ts(Addr h \<mapsto> h)) S
       }
     }"

definition ForkAccounts :: "ordering \<Rightarrow> SnapshotBlock \<Rightarrow> SnapshotBlock \<Rightarrow> pool \<Rightarrow> (err \<times> pool) option" where
  "ForkAccounts ord keyPoint forkPoint S =
     do {
       ts \<leftarrow> forkTasks forkPoint (ord (dom (pendingAc S))) Map.empty S;
       (wait, S1) \<leftarrow> getWaitRollbackAccounts ord ts Map.empty S;
       (e, S2) \<leftarrow> rollbackUntilError (valuesOf ord wait) S1;
       if e \<noteq> None then Some (e, S2)
       else do { S3 \<leftarrow> forkEach ord (Accounts keyPoint) S2; Some (None, S3) }
     }"

fun UnLockAccounts ::
  "string list \<Rightarrow> (string \<rightharpoonup> SnapshotPoint) \<Rightarrow> (string \<rightharpoonup> SnapshotPoint) \<Rightarrow> pool \<Rightarrow> (err \<times> pool) option" where
  "UnLockAccounts [] startAcs endAcs S = Some (None, S)"
| "UnLockAccounts (k # ks) startAcs endAcs S =
     do {
       (e, bc) \<leftarrow> RollbackSnapshotPoint k (startAcs k) (endAcs k) (pBc S);
       if e \<noteq> None then Some (e, S\<lparr>pBc := bc\<rparr>)
       else UnLockAccounts ks startAcs endAcs (S\<lparr>pBc := bc\<rparr>)
     }"

section \<open>The loops over all account pools\<close>

text \<open>
  The requests of a task that the pools do not hold yet are fetched. The result lists, as the
  code builds it, one pointer to the loop variable per request that exists already: in the end
  all point to the last request.
\<close>

fun fetchLoop_task :: "FetchRequest list \<Rightarrow> nat \<Rightarrow> pool \<Rightarrow> (nat \<times> pool) option" where
  "fetchLoop_task [] n S = Some (n, S)"
| "fetchLoop_task (r # rs) n S =
     do {
       (exist, S1) \<leftarrow> (if frChain r = ''''
                       then do { e \<leftarrow> ExistInCurrent (chainpool (pendingSc S)) r; Some (e, S) }
                       else do {
                         (p, S1) \<leftarrow> selfPendingAc (frChain r) S;
                         e \<leftarrow> ExistInCurrent (chainpool (apPool p)) r;
                         Some (e, S1) });
       if \<not> exist then fetchLoop_task rs n (Fetch [r] S1) else fetchLoop_task rs (Suc n) S1
     }"

definition fetchForTask :: "Task \<Rightarrow> pool \<Rightarrow> (FetchRequest list \<times> pool) option" where
  "fetchForTask task S =
     (let rs = Requests task in
      if rs = [] then Some ([], S)
      else do {
        (n, S1) \<leftarrow> fetchLoop_task rs 0 S;
        Some (replicate n (last rs), S1)
      })"

fun tryInsertAll :: "string list \<Rightarrow> pool \<Rightarrow> (int \<times> pool) option" where
  "tryInsertAll [] S = Some (0, S)"
| "tryInsertAll (k # ks) S =
     do {
       p \<leftarrow> pendingAc S k;
       (t, p1, bc) \<leftarrow> TryInsert (pVer S) (pClock S) p (pBc S);
       let S1 = setAc k p1 (S\<lparr>pBc := bc\<rparr>);
       case t of
         None \<Rightarrow> tryInsertAll ks S1
       | Some task \<Rightarrow>
           do {
             (exists, S2) \<leftarrow> fetchForTask task S1;
             (n, S3) \<leftarrow> tryInsertAll ks S2;
             Some (n + 1, S3)
           }
     }"

definition accountsTryInsert :: "ordering \<Rightarrow> pool \<Rightarrow> (int \<times> pool) option" where
  "accountsTryInsert ord S = tryInsertAll (ord (dom (pendingAc S))) S"

fun compactAll :: "ordering \<Rightarrow> string list \<Rightarrow> pool \<Rightarrow> (int \<times> pool) option" where
  "compactAll ord [] S = Some (0, S)"
| "compactAll ord (k # ks) S =
     do {
       p \<leftarrow> pendingAc S k;
       (i, rqs, p1) \<leftarrow> Compact ord (pVer S) (pClock S) p (pBc S);
       (n, S1) \<leftarrow> compactAll ord ks (setAc k p1 (Fetch rqs S));
       Some (i + n, S1)
     }"

definition accountsCompact :: "ordering \<Rightarrow> pool \<Rightarrow> (int \<times> pool) option" where
  "accountsCompact ord S = compactAll ord (ord (dom (pendingAc S))) S"

section \<open>The snapshot pool: choosing a fork\<close>

text \<open>The newest (\<open>start\<close>) and the oldest (\<open>end\<close>) snapshot point of each account.\<close>

type_synonym snapPoints = "string \<rightharpoonup> SnapshotPoint"

definition pointOf :: "SnapshotBlock \<Rightarrow> AccountHashH \<Rightarrow> SnapshotPoint" where
  "pointOf b v = \<lparr>spSnapshotHeight = Theight b, spSnapshotHash = Thash b,
     spAccountHeight = Height v, spAccountHash = Hash v\<rparr>"

definition markPoint ::
  "SnapshotBlock \<Rightarrow> AccountHashH \<Rightarrow> snapPoints \<times> snapPoints \<Rightarrow> snapPoints \<times> snapPoints" where
  "markPoint b v m =
     (let start = fst m; fin = snd m
      in (if start (Addr v) = None then start(Addr v \<mapsto> pointOf b v) else start, fin(Addr v \<mapsto> pointOf b v)))"

definition accounts_sp :: "SnapshotBlock \<Rightarrow> snapPoints \<times> snapPoints \<Rightarrow> snapPoints \<times> snapPoints" where
  "accounts_sp b = fold (markPoint b) (Accounts b)"

definition getUnlockAccountSnapshot :: "SnapshotBlock \<Rightarrow> pool \<Rightarrow> (snapPoints \<times> snapPoints) option" where
  "getUnlockAccountSnapshot b S =
     do {
       head \<leftarrow> Head_disk snapshotCh (pBc S);
       Some (fold accounts_sp
               (map block (List.map_filter (getBlock_disk snapshotCh (pVer S) (pBc S))
                  (rev [Theight b + 1..Theight head - 1])))
               (accounts_sp head (Map.empty, Map.empty)))
     }"

definition setSc :: "unit SnapshotBlock_ext cpool \<Rightarrow> pool \<Rightarrow> pool" where
  "setSc cp S = S\<lparr>pendingSc := (pendingSc S)\<lparr>chainpool := cp\<rparr>\<rparr>"

definition snapshotFork :: "ordering \<Rightarrow> string \<Rightarrow> string \<Rightarrow> pool \<Rightarrow> pool option" where
  "snapshotFork ord longest cur S =
     do {
       r \<leftarrow> getForkPoint (chains (chainpool (pendingSc S))) (getBlock_disk snapshotCh (pVer S) (pBc S)) longest cur;
       case r of
         Inl e \<Rightarrow> Some S
       | Inr (k, forkPoint) \<Rightarrow>
           do {
             keyPoint \<leftarrow> k;
             (startAcs, endAcs) \<leftarrow> getUnlockAccountSnapshot forkPoint S;
             (e1, S1) \<leftarrow> UnLockAccounts (ord (dom startAcs)) startAcs endAcs S;
             if e1 \<noteq> None then Some S1
             else do {
               (e2, S2) \<leftarrow> ForkAccounts ord keyPoint forkPoint S1;
               if e2 \<noteq> None then Some S2
               else do {
                 (e3, bc, cp) \<leftarrow> rollback_cp snapshotCh (Theight forkPoint) (pVer S2) (pBc S2) (chainpool (pendingSc S2));
                 let S3 = setSc cp (S2\<lparr>pBc := bc\<rparr>);
                 if e3 \<noteq> None then Some S3
                 else do {
                   (e4, cp1) \<leftarrow> currentModifyToChain snapshotCh (pVer S3) longest (pBc S3) (chainpool (pendingSc S3));
                   let S4 = setSc cp1 S3;
                   if e4 \<noteq> None then Some S4 else Some (S4\<lparr>pVer := Inc (pVer S4)\<rparr>)
                 }
               }
             }
           }
     }"

definition checkFork :: "ordering \<Rightarrow> pool \<Rightarrow> pool option" where
  "checkFork ord S =
     do {
       let cp = chainpool (pendingSc S);
       longest \<leftarrow> LongestChain cp (ord (dom (chains cp)));
       if longest = current cp then Some S else snapshotFork ord longest (current cp) S
     }"

section \<open>The snapshot pool: inserting\<close>

definition resultOf :: "SnapshotBlockVerifyStat \<Rightarrow> string \<Rightarrow> VerifyResult" where
  "resultOf stat addr = (case results stat addr of None \<Rightarrow> PENDING | Some r \<Rightarrow> r)"

definition insertVerifyFail :: "ordering \<Rightarrow> SnapshotBlock \<Rightarrow> SnapshotBlockVerifyStat \<Rightarrow> pool \<Rightarrow> pool option" where
  "insertVerifyFail ord b stat S =
     do {
       S1 \<leftarrow> forkEach ord (filter (\<lambda>account. resultOf stat (Addr account) = FAIL) (Accounts b)) S;
       Some (S1\<lparr>pVer := Inc (pVer S1)\<rparr>)
     }"

fun pendingEach :: "ordering \<Rightarrow> AccountHashH list \<Rightarrow> pool \<Rightarrow> pool option" where
  "pendingEach ord [] S = Some S"
| "pendingEach ord (v # vs) S = do { (e, S1) \<leftarrow> PendingAccountTo ord v S; pendingEach ord vs S1 }"

definition insertVerifyPending :: "ordering \<Rightarrow> SnapshotBlock \<Rightarrow> SnapshotBlockVerifyStat \<Rightarrow> pool \<Rightarrow> pool option" where
  "insertVerifyPending ord b stat S =
     pendingEach ord (filter (\<lambda>account. resultOf stat (Addr account) = PENDING) (Accounts b)) S"

definition setSChain :: "string \<Rightarrow> sforked \<Rightarrow> pool \<Rightarrow> pool" where
  "setSChain cid c S =
     setSc ((chainpool (pendingSc S))\<lparr>chains := (chains (chainpool (pendingSc S)))(cid \<mapsto> c)\<rparr>) S"

fun snapshotInsertLoop :: "ordering \<Rightarrow> string \<Rightarrow> int list \<Rightarrow> pool \<Rightarrow> pool option" where
  "snapshotInsertLoop ord cid [] S = Some S"
| "snapshotInsertLoop ord cid (i # is) S =
     do {
       c \<leftarrow> chains (chainpool (pendingSc S)) cid;
       w0 \<leftarrow> heightBlocks c i;
       let w = (if \<not> checkForkVersion (pVer S) w0 then reset (pVer S) w0 else w0);
       let c1 = c\<lparr>heightBlocks := (heightBlocks c)(i \<mapsto> w)\<rparr>;
       let (stat, bc1) = VerifyReferred_sn (pVer S) (pClock S) (block w) (pBc S);
       let S1 = setSChain cid c1 (S\<lparr>pBc := bc1\<rparr>);
       if \<not> checkForkVersion (pVer S1) w then snapshotInsertLoop ord cid is S1
       else case result stat of
         PENDING \<Rightarrow> insertVerifyPending ord (block w) stat S1
       | FAIL \<Rightarrow> insertVerifyFail ord (block w) stat S1
       | SUCCESS \<Rightarrow>
           if Theight (block w) = tailHeight c1 + 1 then
             do {
               (e, bc2, c2) \<leftarrow> writeToChain snapshotCh w (pBc S1) c1;
               let S2 = setSChain cid c2 (S1\<lparr>pBc := bc2\<rparr>);
               if e \<noteq> None then Some S2 else snapshotInsertLoop ord cid is S2
             }
           else Some S1
     }"

definition snapshotTryInsert :: "ordering \<Rightarrow> pool \<Rightarrow> pool option" where
  "snapshotTryInsert ord S =
     do {
       let cp = chainpool (pendingSc S);
       c \<leftarrow> chains cp (current cp);
       snapshotInsertLoop ord (current cp) [tailHeight c + 1..headHeight c] S
     }"

definition loopCheckCurrentInsert :: "ordering \<Rightarrow> pool \<Rightarrow> pool option" where
  "loopCheckCurrentInsert ord S =
     do {
       let cp = chainpool (pendingSc S);
       c \<leftarrow> chains cp (current cp);
       if size_chain c = 0 then Some S else snapshotTryInsert ord S
     }"

text \<open>One round of the loop of the snapshot pool.\<close>

definition snapshotRound :: "ordering \<Rightarrow> pool \<Rightarrow> pool option" where
  "snapshotRound ord S =
     do {
       let p = pendingSc S;
       (i, p1) \<leftarrow> loopGenSnippetChains (valuesOf ord (freeBlocks (blockpool p)))
                    (valuesOf ord (snippetChains (chainpool p))) p;
       (j, p2) \<leftarrow> loopAppendChains snapshotCh (pVer S) (pBc S)
                    (ord (dom (snippetChains (chainpool p1)))) (ord (dom (chains (chainpool p1)))) p1;
       (k, rqs) \<leftarrow> loopFetchForSnippets '''' (valuesOf ord (snippetChains (chainpool p2))) p2;
       loopCheckCurrentInsert ord (Fetch rqs (S\<lparr>pendingSc := p2\<rparr>))
     }"

end
