(* ===== verification/Pool_Top_Props.thy ===== *)
theory Pool_Top_Props
  imports Pool_Top
begin

text \<open>
  Correctness of the pool of the node: the invariant that ties every account pool to its
  account chain, the insertion round over all accounts, the points that a fork of the snapshot
  chain unlocks, and the search for the accounts that have to be rolled back.
\<close>

section \<open>The invariant\<close>

text \<open>
  \<open>U\<close> holds the blocks in play: those on the chain and those that wait in the current chains of
  the pools. Receive blocks that wait are addressed like their sources.
\<close>

definition clean :: "AccountStateBlock set \<Rightarrow> aforked \<Rightarrow> bool" where
  "clean U c \<longleftrightarrow> pending c \<subseteq> U \<and>
     (\<forall>b \<in> pending c. To b \<noteq> snapshotHeadKey \<and> From b \<noteq> snapshotHeadKey \<and> addressed U b)"

definition account_pool_ok :: "AccountStateBlock set \<Rightarrow> int \<Rightarrow> blockchain \<Rightarrow> string \<Rightarrow> accountPool \<Rightarrow> bool" where
  "account_pool_ok U ver bc a p \<longleftrightarrow> apAddress p = a \<and> a \<noteq> snapshotHeadKey \<and>
     (\<exists>c. currentOf p = Some c \<and> current_ok (accountCh a ver) bc c \<and> clean U c)"

text \<open>The listener of all account chains is the request pool, which knows every send block on the chain.\<close>

definition bc_ok :: "AccountStateBlock set \<Rightarrow> blockchain \<Rightarrow> bool" where
  "bc_ok U bc \<longleftrightarrow> chain_inv bc \<and> (\<forall>a. acListener (acOf bc a) = reqPoolListener) \<and> filed bc \<and> on_chain bc \<subseteq> U"

definition pool_ok :: "AccountStateBlock set \<Rightarrow> pool \<Rightarrow> bool" where
  "pool_ok U S \<longleftrightarrow> bc_ok U (pBc S) \<and>
     (\<exists>c. chains (chainpool (pendingSc S)) (current (chainpool (pendingSc S))) = Some c) \<and>
     (\<forall>a p. pendingAc S a = Some p \<longrightarrow> account_pool_ok U (pVer S) (pBc S) a p)"

lemma pending_okI: "bc_ok U bc \<Longrightarrow> clean U c \<Longrightarrow> pending_ok U a bc c"
  by (auto simp: bc_ok_def clean_def pending_ok_def)

text \<open>What a reader of the current chain of an account sees.\<close>

definition accountView :: "pool \<Rightarrow> string \<Rightarrow> int \<Rightarrow> AccountStateBlock option" where
  "accountView S a h =
     do { p \<leftarrow> pendingAc S a; c \<leftarrow> currentOf p; poolView (accountCh a (pVer S)) (pBc S) c h }"

text \<open>Two block chains that agree on every account but one.\<close>

definition acc_frame :: "string \<Rightarrow> blockchain \<Rightarrow> blockchain \<Rightarrow> bool" where
  "acc_frame a bc bc' \<longleftrightarrow> (\<forall>b. acListener (acOf bc' b) = acListener (acOf bc b) \<and> address (acOf bc' b) = address (acOf bc b)) \<and>
     (\<forall>b. b \<noteq> a \<longrightarrow> acHead (acOf bc' b) = acHead (acOf bc b) \<and>
        GetAccountByHeight (store bc') b = GetAccountByHeight (store bc) b)"

lemma acc_frame_trans: "acc_frame a x y \<Longrightarrow> acc_frame a y z \<Longrightarrow> acc_frame a x z"
  by (simp add: acc_frame_def)

lemma acc_frame_same: "same_chain bc bc' \<Longrightarrow> acc_frame a bc bc'"
  by (simp add: acc_frame_def same_chain_def)

lemma acc_frame_InsertAccountBlock:
  assumes "InsertAccountBlock a b bc = Some (e, bc')" "ac_wf bc"
  shows "acc_frame a bc bc'"
proof -
  have "acListener (acOf bc' x) = acListener (acOf bc x)" for x
  proof (cases "x = a")
    case True
    then show ?thesis using InsertAccountBlock_Some(2) [OF assms(1)] by simp
  next
    case False
    then have "ac bc' x = ac bc x" using InsertAccountBlock_Some(2) [OF assms(1)] by simp
    then show ?thesis using InsertAccountBlock_Some(4) [OF assms(1)] by (cases "ac bc x") (simp_all add: acOf_None)
  qed
  then show ?thesis
    using InsertAccountBlock_other_head [OF assms] InsertAccountBlock_GetAccountByHeight [OF assms]
      ac_wf_address [OF assms(2)] ac_wf_address [OF InsertAccountBlock_ac_wf [OF assms]]
    by (simp add: acc_frame_def fun_eq_iff)
qed

lemma account_pool_frame:
  assumes "acc_frame a bc bc'" "b \<noteq> a" "ac_wf bc"
  shows "account_pool_ok U ver bc' b p = account_pool_ok U ver bc b p"
    "poolView (accountCh b ver) bc' c h = poolView (accountCh b ver) bc c h"
proof -
  have "rwHead (accountCh b ver) bc' = rwHead (accountCh b ver) bc"
    "rwGetBlock (accountCh b ver) bc' = rwGetBlock (accountCh b ver) bc"
    using assms ac_wf_address [OF assms(3)] by (simp_all add: acc_frame_def accountCh_def GetAccountByHeight_bc_def GetBlockByHeight_ac_def fun_eq_iff)
  then show "account_pool_ok U ver bc' b p = account_pool_ok U ver bc b p"
    "poolView (accountCh b ver) bc' c h = poolView (accountCh b ver) bc c h"
    by (simp_all add: account_pool_ok_def current_ok_def Head_disk_def poolView_def getBlock_disk_def split: option.split)
qed

lemma account_pool_ok_same: "same_chain bc bc' \<Longrightarrow> account_pool_ok U ver bc' b p = account_pool_ok U ver bc b p"
  by (simp add: account_pool_ok_def rw_same)

lemma bc_ok_same: "same_chain bc bc' \<Longrightarrow> bc_ok U bc \<Longrightarrow> bc_ok U bc'"
  using chain_inv_same same_chainD(2) filed_same by (simp add: bc_ok_def)

section \<open>What the insertion loop leaves alone\<close>

lemma verify_requests:
  assumes "VerifyReferred_ac ver now b bc = Some (stat, bc')" "r \<in> set (Requests (VTask (vtask stat)))"
  shows "frChain r = '''' \<or> frChain r = From b"
proof -
  let ?req = "\<lambda>st. \<forall>r \<in> set (Requests (VTask (vtask st))). frChain r = '''' \<or> frChain r = From b"
  have new: "?req (newVerifyStat_ac ver now)" by (simp add: newVerifyStat_ac_def)
  have gen: "?req (snd (verifyGenesis b (newVerifyStat_ac ver now)))"
    using new by (simp add: verifyGenesis_def)
  have sn: "?req (snd (verifySnapshot b (newVerifyStat_ac ver now) bc))"
    using new by (auto simp: verifySnapshot_def pendingSnapshot_def split: option.splits)
  have self: "?req st'" if "verifySelf b st bcx = Some (s, st', bcy)" "?req st" for st st' bcx bcy s
  proof -
    have c: "vtask st1 = vtask st" if "checkSelfAmount b st bcz = (x, st1, bcw)" for x st1 bcz bcw
      using that by (auto simp: checkSelfAmount_def split: prod.splits option.splits if_splits)
    have "vtask st' = vtask st"
      using that(1) c by (auto simp: verifySelf_def Let_def split: prod.splits if_splits Option.bind_splits)
    then show ?thesis using that(2) by simp
  qed
  have fr: "?req st'" if "verifyFrom b st bcx = (s, st', bcy)" "?req st" for st st' bcx bcy s
    using that by (auto simp: verifyFrom_def checkFromAmount_def Let_def pendingAccount_def
        split: prod.splits option.splits if_splits)
  have "?req stat"
    using assms(1) gen sn self fr
    by (auto simp: VerifyReferred_ac_def Let_def split: prod.splits if_splits Option.bind_splits)
  then show ?thesis using assms(2) by blast
qed

lemma clean_mono: "clean U c \<Longrightarrow> pending c' \<subseteq> pending c \<Longrightarrow> clean U c'"
  by (auto simp: clean_def)

lemma clean_upd:
  assumes "clean U c" "heightBlocks c i = Some w0" "block w = block w0"
  shows "clean U (c\<lparr>heightBlocks := (heightBlocks c)(i \<mapsto> w)\<rparr>)"
  using clean_mono [OF assms(1) pending_upd [OF assms(2,3)]] .

lemma clean_removeTail: "clean U c \<Longrightarrow> clean U (removeTail w c)"
  using clean_mono pending_removeTail by blast

lemma tryInsertLoop_frame:
  assumes "tryInsertLoop a ver now is bc c = Some (task, bc', c')" "ac_wf bc" "clean U c"
  shows "acc_frame a bc bc' \<and> clean U c' \<and> (\<forall>r \<in> set (Requests task). frChain r \<noteq> snapshotHeadKey)"
  using assms
proof (induction "is" arbitrary: bc c)
  case Nil
  then show ?case by (auto simp: NewSuccessTask_def acc_frame_same)
next
  case (Cons i "is")
  obtain w0 where w0: "heightBlocks c i = Some w0" using Cons.prems(1) by (cases "heightBlocks c i") auto
  define w where "w = reset ver w0"
  define c1 where "c1 = c\<lparr>heightBlocks := (heightBlocks c)(i \<mapsto> w)\<rparr>"
  have bw: "block w = block w0" by (simp add: w_def reset_def)
  obtain stat bc1 where v: "VerifyReferred_ac ver now (block w0) bc = Some (stat, bc1)"
    using Cons.prems(1) w0 bw by (auto simp: w_def Let_def split: Option.bind_splits)
  note run = Cons.prems(1) [unfolded tryInsertLoop_step [OF w0 v], folded w_def, folded c1_def]
  have s1: "same_chain bc bc1" by (rule VerifyReferred_ac_same [OF v])
  have cl1: "clean U c1" unfolding c1_def by (rule clean_upd [OF Cons.prems(3) w0 bw])
  have rq: "frChain r \<noteq> snapshotHeadKey" if "r \<in> set (Requests (VTask (vtask stat)))" for r
    using verify_requests [OF v that] Cons.prems(3) pendingI [OF w0] by (auto simp: clean_def snapshotHeadKey_def)
  have base: ?case if "bc' = bc1" "c' = c1" "task = VTask (vtask stat) \<or> Requests task = []"
    using that acc_frame_same [OF s1] cl1 rq by auto
  show ?case
  proof (cases "VerifyResult_ac stat = SUCCESS \<and> Theight (block w) = tailHeight c1 + 1")
    case False
    then show ?thesis using run base by (cases "VerifyResult_ac stat") (auto simp: NewSuccessTask_def NewFailTask_def split: if_splits)
  next
    case True
    then obtain e bc2 c2 where wr: "writeToChain (accountCh a ver) w bc1 c1 = Some (e, bc2, c2)"
      and rest: "(if e \<noteq> None then Some (NewFailTask now, bc2, c2) else tryInsertLoop a ver now is bc2 c2) = Some (task, bc', c')"
      using run by (auto split: Option.bind_splits)
    show ?thesis
    proof (cases "e = None")
      case False
      then show ?thesis using writeToChain_error [OF wr] rest base by (auto simp: NewFailTask_def)
    next
      case e: True
      have wf1: "ac_wf bc1"
        using Cons.prems(2) s1 by (metis acOf_Some ac_wf_address ac_wf_def same_chainD(2))
      have ins: "InsertAccountBlock a (block w) bc1 = Some (None, bc2)"
        using writeToChain_account wr e by blast
      have "c2 = removeTail w c1"
        using wr e by (auto simp: writeToChain_def split: Option.bind_splits if_splits)
      then have "clean U c2" using clean_removeTail [OF cl1] by simp
      with Cons.IH [of bc2 c2] rest e InsertAccountBlock_ac_wf [OF ins wf1]
      have "acc_frame a bc2 bc' \<and> clean U c' \<and> (\<forall>r \<in> set (Requests task). frChain r \<noteq> snapshotHeadKey)" by simp
      then show ?thesis
        using acc_frame_trans [OF acc_frame_same [OF s1] acc_frame_InsertAccountBlock [OF ins wf1]] acc_frame_trans by blast
    qed
  qed
qed

section \<open>One insertion attempt\<close>

lemma pendingDone_same: "pendingDone t bc = (d, t', bc') \<Longrightarrow> same_chain bc bc'"
  by (cases t) (auto simp: HeadAccount_def split: if_splits option.splits)

lemma allPendingDone_same: "allPendingDone ts bc = (d, ts', bc') \<Longrightarrow> same_chain bc bc'"
proof (induction ts arbitrary: bc bc' d ts')
  case (Cons t ts)
  obtain d1 t1 bc1 where p: "pendingDone t bc = (d1, t1, bc1)" by (cases "pendingDone t bc")
  obtain ds ts1 bc2 where a: "allPendingDone ts bc1 = (ds, ts1, bc2)" by (cases "allPendingDone ts bc1")
  show ?case
    using Cons.prems p a pendingDone_same [OF p] same_chain_trans [OF pendingDone_same [OF p] Cons.IH [OF a]]
    by (auto split: if_splits)
qed simp

lemma Task_Done_same: "Task_Done ver now t bc = (d, t', bc') \<Longrightarrow> same_chain bc bc'"
  by (cases t) (auto split: if_splits prod.splits dest: allPendingDone_same)

lemma account_pool_okE:
  assumes "account_pool_ok U ver bc a p" "bc_ok U bc"
  obtains c where "currentOf p = Some c" "pool_inv a ver bc c" "clean U c" "apAddress p = a"
  using assms unfolding account_pool_ok_def bc_ok_def pool_inv_def by blast

lemma currentOf_simps [simp]:
  "currentOf (setCurrent c p) = Some c" "currentOf (p\<lparr>apTask := t\<rparr>) = currentOf p"
  "apAddress (setCurrent c p) = apAddress p"
  by (simp_all add: currentOf_def setCurrent_def)

lemma TryInsert_ok:
  assumes "account_pool_ok U ver bc a p" "bc_ok U bc" "currentOf p = Some c"
  shows "\<exists>t p' bc' c'. TryInsert ver now p bc = Some (t, p', bc') \<and> account_pool_ok U ver bc' a p' \<and> bc_ok U bc' \<and>
     acc_frame a bc bc' \<and> (\<forall>task. t = Some task \<longrightarrow> (\<forall>r \<in> set (Requests task). frChain r \<noteq> snapshotHeadKey)) \<and>
     currentOf p' = Some c' \<and> (\<forall>h. poolView (accountCh a ver) bc' c' h = poolView (accountCh a ver) bc c h)"
proof -
  have stop: ?thesis if "TryInsert ver now p bc = Some (None, p\<lparr>apTask := tk\<rparr>, bc1)" "same_chain bc bc1" for tk bc1
  proof -
    have "account_pool_ok U ver bc1 a (p\<lparr>apTask := tk\<rparr>)"
      using assms(1) account_pool_ok_same [OF that(2), where p = p and b = a and ver = ver] by (simp add: account_pool_ok_def)
    then show ?thesis
      using that assms(3) bc_ok_same [OF that(2) assms(2)] acc_frame_same [OF that(2)] rw_same(2) [OF that(2)] by auto
  qed
  have id: "p\<lparr>apTask := apTask p\<rparr> = p" by simp
  obtain d tk bc1 where d: "(case apTask p of None \<Rightarrow> (True, p, bc)
        | Some t \<Rightarrow> (let (d, t1, bc1) = Task_Done ver now t bc in (d, p\<lparr>apTask := Some t1\<rparr>, bc1))) = (d, p\<lparr>apTask := tk\<rparr>, bc1)"
    "same_chain bc bc1"
  proof (cases "apTask p")
    case None
    then show thesis using that [of True None bc] id by simp
  next
    case (Some t)
    obtain d t1 bc1 where "Task_Done ver now t bc = (d, t1, bc1)" by (cases "Task_Done ver now t bc")
    then show thesis using that [of d "Some t1" bc1] Some Task_Done_same by fastforce
  qed
  let ?p = "p\<lparr>apTask := tk\<rparr>"
  have run: "TryInsert ver now p bc = (if size_chain c \<le> 0 \<or> compactLock p \<noteq> 0 then Some (None, p, bc)
      else if \<not> d then Some (None, ?p, bc1)
      else do { (task, ap2, bc2) \<leftarrow> tryInsert_ap ver now ?p bc1; Some (Some task, ap2\<lparr>apTask := Some task\<rparr>, bc2) })"
    unfolding TryInsert_def using assms(3) d(1) by (simp add: case_prod_beta)
  show ?thesis
  proof (cases "size_chain c \<le> 0 \<or> compactLock p \<noteq> 0")
    case True
    then show ?thesis using stop [of "apTask p" bc] run id by simp
  next
    case no: False
    show ?thesis
    proof (cases d)
      case False
      then show ?thesis using stop [OF _ d(2)] run no by simp
    next
      case True
      have ok1: "account_pool_ok U ver bc1 a p" "bc_ok U bc1"
        using assms(1,2) account_pool_ok_same [OF d(2)] bc_ok_same [OF d(2)] by simp_all
      have c: "pool_inv a ver bc1 c" "clean U c" "apAddress p = a"
        using account_pool_okE [OF ok1] assms(3) by auto
      obtain task bc' c' where l: "tryInsertLoop a ver now [tailHeight c + 1..headHeight c] bc1 c = Some (task, bc', c')"
        "pool_inv a ver bc' c'" "\<forall>h. poolView (accountCh a ver) bc' c' h = poolView (accountCh a ver) bc1 c h"
        "pending_ok U a bc' c'"
        using tryInsertLoop_safe [OF c(1) pending_okI [OF ok1(2) c(2)], where now = now] by blast
      have f: "acc_frame a bc1 bc'" "clean U c'" "\<forall>r \<in> set (Requests task). frChain r \<noteq> snapshotHeadKey"
        using tryInsertLoop_frame [OF l(1) _ c(2)] ok1(2) chain_invD(1) unfolding bc_ok_def by blast+
      let ?p' = "(setCurrent c' ?p)\<lparr>apTask := Some task\<rparr>"
      have "TryInsert ver now p bc = Some (Some task, ?p', bc')"
        using run no True l(1) assms(3) c(3) by (simp add: tryInsert_ap_def)
      moreover have "account_pool_ok U ver bc' a ?p'"
        using l(2) f(2) c(3) by (simp add: account_pool_ok_def pool_inv_def)
      moreover have "bc_ok U bc'" using l(2,4) f(1) ok1(2) by (simp add: bc_ok_def pool_inv_def pending_ok_def acc_frame_def)
      moreover have "acc_frame a bc bc'" using acc_frame_trans [OF acc_frame_same [OF d(2)] f(1)] .
      ultimately show ?thesis using f(3) l(3) rw_same(2) [OF d(2)] by auto
    qed
  qed
qed

section \<open>Pools that are created on demand\<close>

lemma Head_disk_account: "\<exists>t. Head_disk (accountCh a ver) bc = Some t"
  by (cases "acHead (acOf bc a)") (simp_all add: Head_disk_def accountCh_def)

lemma newAccountPool_ok:
  assumes "a \<noteq> snapshotHeadKey"
  shows "\<exists>p. newAccountPool a ver now bc = Some (p, touch bc a) \<and> account_pool_ok U ver (touch bc a) a p"
proof -
  obtain t where t: "Head_disk (accountCh a ver) bc = Some t" using Head_disk_account by blast
  have t': "Head_disk (accountCh a ver) (touch bc a) = Some t" using t by (simp add: Head_disk_def accountCh_def split: option.splits)
  have "clean U (init_fc cid Disk t)" for cid by (simp add: clean_def pending_def init_fc_def)
  moreover have "current_ok (accountCh a ver) (touch bc a) (init_fc cid Disk t)" for cid
    using t' init_fc_ok by (simp add: current_ok_def) (simp add: init_fc_def)
  ultimately show ?thesis
    using assms t by (simp add: newAccountPool_def init_bcp_def init_cp_def genChainId_def Let_def account_pool_ok_def currentOf_def)
qed

text \<open>What an operation that only creates pools keeps.\<close>

definition grows :: "pool \<Rightarrow> pool \<Rightarrow> bool" where
  "grows S S' \<longleftrightarrow> same_chain (pBc S) (pBc S') \<and> pVer S' = pVer S \<and> pClock S' = pClock S \<and>
     pendingSc S' = pendingSc S \<and> pendingAc S \<subseteq>\<^sub>m pendingAc S'"

lemma grows_refl [simp]: "grows S S"
  by (simp add: grows_def)

lemma grows_trans: "grows S S' \<Longrightarrow> grows S' S'' \<Longrightarrow> grows S S''"
  unfolding grows_def using same_chain_trans map_le_trans by fastforce

lemma grows_Fetch: "grows S S' \<Longrightarrow> grows S (Fetch rs S')" "pool_ok U (Fetch rs S) = pool_ok U S"
  by (simp_all add: grows_def pool_ok_def Fetch_def)

lemma accountView_grows:
  assumes "grows S S'" "a \<in> dom (pendingAc S)"
  shows "accountView S' a h = accountView S a h"
proof -
  obtain p where p: "pendingAc S a = Some p" using assms(2) by blast
  then have "pendingAc S' a = Some p" using assms(1) by (auto simp: grows_def map_le_def dom_def)
  then show ?thesis using p assms(1) rw_same(2) [of "pBc S" "pBc S'"]
    by (cases "currentOf p") (simp_all add: accountView_def grows_def)
qed

lemma selfPendingAc_ok:
  assumes "pool_ok U S" "a \<noteq> snapshotHeadKey"
  shows "\<exists>p S'. selfPendingAc a S = Some (p, S') \<and> pool_ok U S' \<and> grows S S' \<and> pendingAc S' a = Some p"
proof (cases "pendingAc S a")
  case (Some p)
  then show ?thesis using assms(1) by (simp add: selfPendingAc_def)
next
  case None
  obtain p where p: "newAccountPool a (pVer S) (pClock S) (pBc S) = Some (p, touch (pBc S) a)"
    "account_pool_ok U (pVer S) (touch (pBc S) a) a p" using newAccountPool_ok [OF assms(2)] by blast
  let ?S = "setAc a p (S\<lparr>pBc := touch (pBc S) a\<rparr>)"
  have s: "same_chain (pBc S) (touch (pBc S) a)" by simp
  have "pool_ok U ?S"
    using assms(1) p(2) bc_ok_same [OF s] account_pool_ok_same [OF s] by (simp add: pool_ok_def setAc_def)
  moreover have "grows S ?S" using None by (auto simp: grows_def setAc_def map_le_def)
  ultimately show ?thesis using p(1) None by (simp add: selfPendingAc_def) (simp add: setAc_def)
qed

section \<open>Fetching for a task\<close>

lemma pool_ok_ExistInCurrent:
  assumes "pool_ok U S"
  shows "\<exists>e. ExistInCurrent (chainpool (pendingSc S)) r = Some e"
    "pendingAc S a = Some p \<Longrightarrow> \<exists>e. ExistInCurrent (chainpool (apPool p)) r = Some e"
proof -
  show "\<exists>e. ExistInCurrent (chainpool (pendingSc S)) r = Some e"
    using assms by (auto simp: pool_ok_def ExistInCurrent_def)
  assume "pendingAc S a = Some p"
  then have "account_pool_ok U (pVer S) (pBc S) a p" "bc_ok U (pBc S)" using assms by (simp_all add: pool_ok_def)
  then obtain c where "currentOf p = Some c" by (rule account_pool_okE)
  then show "\<exists>e. ExistInCurrent (chainpool (apPool p)) r = Some e" by (simp add: ExistInCurrent_def currentOf_def)
qed

lemma fetchLoop_task_ok:
  assumes "pool_ok U S" "\<And>r. r \<in> set rs \<Longrightarrow> frChain r \<noteq> snapshotHeadKey"
  shows "\<exists>m S'. fetchLoop_task rs n S = Some (m, S') \<and> pool_ok U S' \<and> grows S S'"
  using assms
proof (induction rs arbitrary: n S)
  case Nil
  then show ?case by simp
next
  case (Cons r rs)
  have "\<exists>e S1. (if frChain r = ''''
       then do { e \<leftarrow> ExistInCurrent (chainpool (pendingSc S)) r; Some (e, S) }
       else do { (p, S1) \<leftarrow> selfPendingAc (frChain r) S; e \<leftarrow> ExistInCurrent (chainpool (apPool p)) r; Some (e, S1) }) =
       Some (e, S1) \<and> pool_ok U S1 \<and> grows S S1"
  proof (cases "frChain r = ''''")
    case True
    then show ?thesis using pool_ok_ExistInCurrent(1) [OF Cons.prems(1), of r] Cons.prems(1) by auto
  next
    case False
    obtain p S1 where p: "selfPendingAc (frChain r) S = Some (p, S1)" "pool_ok U S1" "grows S S1" "pendingAc S1 (frChain r) = Some p"
      using selfPendingAc_ok [OF Cons.prems(1)] Cons.prems(2) by (meson list.set_intros(1))
    then show ?thesis using False pool_ok_ExistInCurrent(2) [OF p(2,4), of r] by auto
  qed
  then obtain e S1 where e: "(if frChain r = ''''
       then do { e \<leftarrow> ExistInCurrent (chainpool (pendingSc S)) r; Some (e, S) }
       else do { (p, S1) \<leftarrow> selfPendingAc (frChain r) S; e \<leftarrow> ExistInCurrent (chainpool (apPool p)) r; Some (e, S1) }) =
       Some (e, S1)" "pool_ok U S1" "grows S S1" by blast
  have step: "fetchLoop_task (r # rs) n S = (if \<not> e then fetchLoop_task rs n (Fetch [r] S1) else fetchLoop_task rs (Suc n) S1)"
    using e(1) by simp
  have rs: "\<And>r. r \<in> set rs \<Longrightarrow> frChain r \<noteq> snapshotHeadKey" using Cons.prems(2) by simp
  show ?case
  proof (cases e)
    case True
    then show ?thesis using Cons.IH [of S1 "Suc n", OF e(2) rs] e(3) step grows_trans by fastforce
  next
    case False
    have "pool_ok U (Fetch [r] S1)" using e(2) grows_Fetch(2) by simp
    from Cons.IH [of "Fetch [r] S1" n, OF this rs] show ?thesis using grows_Fetch(1) [OF e(3)] False step grows_trans by fastforce
  qed
qed

lemma fetchForTask_ok:
  assumes "pool_ok U S" "\<And>r. r \<in> set (Requests task) \<Longrightarrow> frChain r \<noteq> snapshotHeadKey"
  shows "\<exists>rs S'. fetchForTask task S = Some (rs, S') \<and> pool_ok U S' \<and> grows S S'"
  using fetchLoop_task_ok [OF assms(1), of "Requests task" 0] assms by (auto simp: fetchForTask_def Let_def)

section \<open>The insertion round\<close>

lemma TryInsert_pool_ok:
  assumes "pool_ok U S" "pendingAc S k = Some p"
  shows "\<exists>t p' bc. TryInsert (pVer S) (pClock S) p (pBc S) = Some (t, p', bc) \<and>
     pool_ok U (setAc k p' (S\<lparr>pBc := bc\<rparr>)) \<and>
     (\<forall>task. t = Some task \<longrightarrow> (\<forall>r \<in> set (Requests task). frChain r \<noteq> snapshotHeadKey)) \<and>
     (\<forall>a h. accountView (setAc k p' (S\<lparr>pBc := bc\<rparr>)) a h = accountView S a h)"
proof -
  have ok: "account_pool_ok U (pVer S) (pBc S) k p" "bc_ok U (pBc S)" using assms by (simp_all add: pool_ok_def)
  obtain c where c: "currentOf p = Some c" using account_pool_okE [OF ok] by blast
  obtain t p' bc c' where r: "TryInsert (pVer S) (pClock S) p (pBc S) = Some (t, p', bc)"
    "account_pool_ok U (pVer S) bc k p'" "bc_ok U bc" "acc_frame k (pBc S) bc"
    "\<forall>task. t = Some task \<longrightarrow> (\<forall>r \<in> set (Requests task). frChain r \<noteq> snapshotHeadKey)"
    "currentOf p' = Some c'" "\<forall>h. poolView (accountCh k (pVer S)) bc c' h = poolView (accountCh k (pVer S)) (pBc S) c h"
    using TryInsert_ok [OF ok c, where now = "pClock S"] by blast
  have wf: "ac_wf (pBc S)" using ok(2) chain_invD(1) by (simp add: bc_ok_def)
  have "pool_ok U (setAc k p' (S\<lparr>pBc := bc\<rparr>))"
    using assms(1) r(2,3) account_pool_frame(1) [OF r(4) _ wf] by (auto simp: pool_ok_def setAc_def)
  moreover have "accountView (setAc k p' (S\<lparr>pBc := bc\<rparr>)) a h = accountView S a h" for a h
    using r(6,7) c assms(2) account_pool_frame(2) [OF r(4) _ wf] by (simp add: accountView_def setAc_def cong: Option.bind_cong)
  ultimately show ?thesis using r(1,5) by blast
qed

lemma tryInsertAll_ok:
  assumes "pool_ok U S" "set ks \<subseteq> dom (pendingAc S)"
  shows "\<exists>n S'. tryInsertAll ks S = Some (n, S') \<and> pool_ok U S' \<and> dom (pendingAc S) \<subseteq> dom (pendingAc S') \<and>
     (\<forall>a \<in> dom (pendingAc S). \<forall>h. accountView S' a h = accountView S a h)"
  using assms
proof (induction ks arbitrary: S)
  case Nil
  then show ?case by simp
next
  case (Cons k ks)
  obtain p where p: "pendingAc S k = Some p" using Cons.prems(2) by auto
  obtain t p' bc where r: "TryInsert (pVer S) (pClock S) p (pBc S) = Some (t, p', bc)"
    "pool_ok U (setAc k p' (S\<lparr>pBc := bc\<rparr>))"
    "\<forall>task. t = Some task \<longrightarrow> (\<forall>r \<in> set (Requests task). frChain r \<noteq> snapshotHeadKey)"
    "\<forall>a h. accountView (setAc k p' (S\<lparr>pBc := bc\<rparr>)) a h = accountView S a h"
    using TryInsert_pool_ok [OF Cons.prems(1) p] by blast
  let ?S1 = "setAc k p' (S\<lparr>pBc := bc\<rparr>)"
  have d1: "dom (pendingAc ?S1) = dom (pendingAc S)" using p by (auto simp: setAc_def)
  obtain S2 where S2: "pool_ok U S2" "grows ?S1 S2"
    and go: "tryInsertAll (k # ks) S = (case t of None \<Rightarrow> tryInsertAll ks S2
               | Some task \<Rightarrow> do { (n, S3) \<leftarrow> tryInsertAll ks S2; Some (n + 1, S3) })"
  proof (cases t)
    case None
    then show thesis using that [of ?S1] p r(1,2) by simp
  next
    case (Some task)
    obtain rs S2 where "fetchForTask task ?S1 = Some (rs, S2)" "pool_ok U S2" "grows ?S1 S2"
      using fetchForTask_ok [OF r(2), of task] r(3) Some by blast
    then show thesis using that [of S2] Some p r(1) by simp
  qed
  have d2: "dom (pendingAc S) \<subseteq> dom (pendingAc S2)"
    using d1 S2(2) map_le_implies_dom_le by (fastforce simp: grows_def)
  have view: "accountView S2 a h = accountView S a h" if "a \<in> dom (pendingAc S)" for a h
    using accountView_grows [OF S2(2), of a h] that d1 r(4) by simp
  obtain n S3 where S3: "tryInsertAll ks S2 = Some (n, S3)" "pool_ok U S3" "dom (pendingAc S2) \<subseteq> dom (pendingAc S3)"
    "\<forall>a \<in> dom (pendingAc S2). \<forall>h. accountView S3 a h = accountView S2 a h"
    using Cons.IH [OF S2(1)] d2 Cons.prems(2) by (metis list.set_intros(2) subset_iff)
  have "\<exists>m. tryInsertAll (k # ks) S = Some (m, S3)" unfolding go using S3(1) by (cases t) simp_all
  moreover have "dom (pendingAc S) \<subseteq> dom (pendingAc S3)" using S3(3) d2 by blast
  moreover have "\<forall>a \<in> dom (pendingAc S). \<forall>h. accountView S3 a h = accountView S a h"
    using S3(4) d2 view by (metis subset_iff)
  ultimately show ?case using S3(2) by blast
qed


section \<open>The points that a fork of the snapshot chain unlocks\<close>

text \<open>The snapshot points of an account in a list of snapshot blocks, in the order of the list.\<close>

definition pointsIn :: "SnapshotBlock list \<Rightarrow> string \<Rightarrow> SnapshotPoint list" where
  "pointsIn bs a = concat (map (\<lambda>b. map (pointOf b) (filter (\<lambda>v. Addr v = a) (Accounts b))) bs)"

definition ends_of :: "(string \<Rightarrow> SnapshotPoint list) \<Rightarrow> snapPoints \<times> snapPoints \<Rightarrow> bool" where
  "ends_of ps m \<longleftrightarrow> (\<forall>a. fst m a = (if ps a = [] then None else Some (hd (ps a))) \<and>
     snd m a = (if ps a = [] then None else Some (last (ps a))))"

lemma ends_of_fold:
  assumes "ends_of ps m"
  shows "ends_of (\<lambda>a. ps a @ map (pointOf b) (filter (\<lambda>v. Addr v = a) vs)) (fold (markPoint b) vs m)"
  using assms
proof (induction vs arbitrary: ps m)
  case (Cons v vs)
  let ?ps = "ps(Addr v := ps (Addr v) @ [pointOf b v])"
  have "ends_of ?ps (markPoint b v m)" using Cons.prems by (auto simp: ends_of_def markPoint_def)
  moreover have "(\<lambda>a. ?ps a @ map (pointOf b) (filter (\<lambda>v. Addr v = a) vs)) =
      (\<lambda>a. ps a @ map (pointOf b) (filter (\<lambda>v. Addr v = a) (v # vs)))" by auto
  ultimately show ?case using Cons.IH [of ?ps "markPoint b v m"] by (metis fold_simps(2))
qed simp

lemma ends_of_accounts_sp: "ends_of ps m \<Longrightarrow> ends_of (\<lambda>a. ps a @ pointsIn [b] a) (accounts_sp b m)"
  using ends_of_fold [of ps m b "Accounts b"] by (simp add: accounts_sp_def pointsIn_def)

lemma pointsIn_Cons: "pointsIn (b # bs) = (\<lambda>a. pointsIn [b] a @ pointsIn bs a)"
  by (simp add: pointsIn_def fun_eq_iff)

lemma ends_of_blocks: "ends_of ps m \<Longrightarrow> ends_of (\<lambda>a. ps a @ pointsIn bs a) (fold accounts_sp bs m)"
proof (induction bs arbitrary: ps m)
  case (Cons b bs)
  then show ?case using Cons.IH [OF ends_of_accounts_sp [OF Cons.prems, of b]] by (simp add: pointsIn_def)
qed (simp add: pointsIn_def)

text \<open>
  C27. \<open>getUnlockAccountSnapshot\<close> returns for every account the newest and the oldest of its
  snapshot points in the head of the snapshot chain and the blocks between the fork point and
  the head, and for no other account a point.  For a fork point below the head these are the
  points above the fork point; for any other one only the points of the head, which the code
  adds whether or not it is above the fork point.
\<close>

theorem getUnlockAccountSnapshot_spec:
  assumes "chain_inv (pBc S)" "HeadSnapshot (pBc S) = Some head" "0 \<le> Theight b"
  defines "ps \<equiv> pointsIn (map (\<lambda>h. the (GetSnapshotByHeight (store (pBc S)) h))
    (if Theight b < Theight head then rev [Theight b + 1..Theight head] else [Theight head]))"
  shows "\<exists>start fin. getUnlockAccountSnapshot b S = Some (start, fin) \<and>
    (\<forall>a. start a = (if ps a = [] then None else Some (hd (ps a))) \<and>
         fin a = (if ps a = [] then None else Some (last (ps a))))"
proof -
  let ?get = "GetSnapshotByHeight (store (pBc S))"
  have ok: "chain_ok ?get (Some head)" using chain_invD(2) [OF assms(1)] assms(2) by (simp add: snapshot_ok_def)
  have wf: "snapshot_ok (pBc S) \<and> HeadSnapshot (pBc S) \<noteq> None" using chain_invD(2) [OF assms(1)] assms(2) by simp
  have disk: "getBlock_disk snapshotCh (pVer S) (pBc S) h = Some \<lparr>block = the (?get h), forkVersion = pVer S\<rparr>"
    if "h \<in> set (rev [Theight b + 1..Theight head - 1])" for h
  proof -
    have "0 \<le> h" "h \<le> Theight head" using that assms(3) by auto
    then obtain x where x: "?get h = Some x" using chain_ok_Some [OF ok, of h] by auto
    then show ?thesis using that assms(3) snapshot_rw.get [OF wf, of h] by (auto simp: getBlock_disk_def)
  qed
  have blocks: "map block (List.map_filter (getBlock_disk snapshotCh (pVer S) (pBc S)) (rev [Theight b + 1..Theight head - 1])) =
      map (\<lambda>h. the (?get h)) (rev [Theight b + 1..Theight head - 1])"
    by (subst map_filter_Some [OF disk]) simp_all
  have hd0: "the (?get (Theight head)) = head" using ok by (simp add: chain_ok_def)
  have split: "(if Theight b < Theight head then rev [Theight b + 1..Theight head] else [Theight head]) =
      Theight head # rev [Theight b + 1..Theight head - 1]"
    by (simp add: upto_snoc)
  have "ends_of (\<lambda>a. []) (Map.empty, Map.empty)" by (simp add: ends_of_def)
  from ends_of_blocks [OF ends_of_accounts_sp [OF this, of head], of "map (\<lambda>h. the (?get h)) (rev [Theight b + 1..Theight head - 1])"]
  have "ends_of ps (fold accounts_sp (map (\<lambda>h. the (?get h)) (rev [Theight b + 1..Theight head - 1])) (accounts_sp head (Map.empty, Map.empty)))"
    unfolding ps_def split list.map(2) hd0 pointsIn_Cons [of head "map f xs" for f xs] by simp
  moreover have "Head_disk snapshotCh (pBc S) = Some head" using assms(2) by (simp add: Head_disk_def snapshotCh_def)
  then have "getUnlockAccountSnapshot b S = Some (fold accounts_sp (map (\<lambda>h. the (?get h)) (rev [Theight b + 1..Theight head - 1]))
      (accounts_sp head (Map.empty, Map.empty)))"
    by (simp add: getUnlockAccountSnapshot_def blocks)
  ultimately obtain m where "getUnlockAccountSnapshot b S = Some m" "ends_of ps m" by blast
  then show ?thesis by (intro exI [of _ "fst m"] exI [of _ "snd m"]) (simp add: ends_of_def)
qed

section \<open>Rollback points are overwritten\<close>

text \<open>
  However an account was already going to be rolled back, taking up a new task for it
  makes the new point the one that counts: the two tests of the loop together never keep the
  lower of two different heights, although the rollback has to go down to the lower one.
\<close>

theorem rollback_point_overwritten:
  assumes "collectSends [k] ts wait sends S = Some (wait', sends', S')" "ts k = Some v"
  shows "\<exists>u. wait' (Addr v) = Some u \<and> Height u = Height v"
  using assms
  by (auto simp: Let_def canAdd_def addWaitRollback_def split: option.splits if_splits Option.bind_splits sum.splits)

section \<open>Which accounts have to be rolled back\<close>

definition keyed :: "pool \<Rightarrow> bool" where
  "keyed S \<longleftrightarrow> (\<forall>a p. pendingAc S a = Some p \<longrightarrow> apAddress p = a)"

lemma selfPendingAc_keyed:
  assumes "keyed S"
  shows "\<exists>p S'. selfPendingAc a S = Some (p, S') \<and> keyed S' \<and> apAddress p = a \<and> same_chain (pBc S) (pBc S') \<and> pVer S' = pVer S"
proof (cases "pendingAc S a")
  case (Some p)
  then show ?thesis using assms by (simp add: selfPendingAc_def keyed_def)
next
  case None
  obtain t where "Head_disk (accountCh a (pVer S)) (pBc S) = Some t" using Head_disk_account by blast
  then have "\<exists>p. newAccountPool a (pVer S) (pClock S) (pBc S) = Some (p, touch (pBc S) a) \<and> apAddress p = a"
    by (simp add: newAccountPool_def init_bcp_def init_cp_def genChainId_def Let_def)
  then show ?thesis using None assms by (auto simp: selfPendingAc_def keyed_def setAc_def)
qed

lemma TryRollback_sends:
  assumes "chain_inv bc" "apAddress p = a" "a \<noteq> snapshotHeadKey"
  shows "\<exists>r. TryRollback ver h hash p bc = Some r \<and> (\<forall>bs s. r = Inr bs \<longrightarrow> s \<in> set bs \<longrightarrow>
     (\<exists>b i. GetAccountByHeight (store bc) a h = Some b \<and> h < i \<and> GetAccountByHeight (store bc) a i = Some s \<and> BlockTypeOf s = SEND))"
proof -
  let ?get = "GetAccountByHeight (store bc) a"
  obtain r where r: "TryRollback ver h hash p bc = Some r" and spec: "case r of
       Inl e \<Rightarrow> e = ErrorRollbackCmd \<and> \<not> (\<exists>b. 0 \<le> h \<and> ?get h = Some b \<and> Thash b = hash)
     | Inr bs \<Rightarrow> \<exists>b hd0. ?get h = Some b \<and> Thash b = hash \<and> acHead (acOf bc a) = Some hd0 \<and>
         bs = filter (\<lambda>b. BlockTypeOf b = SEND) (map (\<lambda>i. the (?get i)) (rev [h + 1..Theight hd0]))"
    using TryRollback_holds [of bc p ver h hash] assms by auto
  have "\<exists>b i. ?get h = Some b \<and> h < i \<and> ?get i = Some s \<and> BlockTypeOf s = SEND" if rb: "r = Inr bs" and sb: "s \<in> set bs" for bs s
  proof -
    obtain b hd0 where b: "?get h = Some b" "acHead (acOf bc a) = Some hd0"
      "bs = filter (\<lambda>b. BlockTypeOf b = SEND) (map (\<lambda>i. the (?get i)) (rev [h + 1..Theight hd0]))"
      using spec rb by auto
    have ok: "chain_ok ?get (Some hd0)" using chain_invD(4) [OF assms(1,3)] b(2) by (simp add: account_ok_def)
    have "0 \<le> h" using chain_ok_negative [OF ok, of h] b(1) by (cases "0 \<le> h") auto
    moreover obtain i where i: "h + 1 \<le> i" "i \<le> Theight hd0" "s = the (?get i)" "BlockTypeOf s = SEND" using sb b(3) by auto
    ultimately have "?get i = Some s" using chain_ok_Some [OF ok, of i] by auto
    moreover have "h < i" using i(1) by simp
    ultimately show ?thesis using b(1) i(4) by blast
  qed
  then show ?thesis using r by blast
qed

lemma collectSends_spec:
  assumes "chain_inv (pBc S)" "keyed S" "\<And>k. k \<in> set ks \<Longrightarrow> \<exists>v. ts k = Some v \<and> Addr v \<noteq> snapshotHeadKey"
  shows "\<exists>wait' sends' S'. collectSends ks ts wait sends S = Some (wait', sends @ sends', S') \<and>
     same_chain (pBc S) (pBc S') \<and> keyed S' \<and>
     (\<forall>s \<in> set sends'. \<exists>k v b i. ts k = Some v \<and> GetAccountByHeight (store (pBc S)) (Addr v) (Height v) = Some b \<and>
        Height v < i \<and> GetAccountByHeight (store (pBc S)) (Addr v) i = Some s \<and> BlockTypeOf s = SEND)"
  using assms
proof (induction ks arbitrary: wait sends S)
  case Nil
  then show ?case by simp
next
  case (Cons k ks)
  obtain v where v: "ts k = Some v" "Addr v \<noteq> snapshotHeadKey" using Cons.prems(3) [of k] by auto
  obtain p S1 where p: "selfPendingAc (Addr v) S = Some (p, S1)" "keyed S1" "apAddress p = Addr v"
    "same_chain (pBc S) (pBc S1)" using selfPendingAc_keyed [OF Cons.prems(2)] by blast
  have inv1: "chain_inv (pBc S1)" by (rule chain_inv_same [OF p(4) Cons.prems(1)])
  obtain r where r: "TryRollback (pVer S1) (Height v) (Hash v) p (pBc S1) = Some r"
    "\<forall>bs s. r = Inr bs \<longrightarrow> s \<in> set bs \<longrightarrow> (\<exists>b i. GetAccountByHeight (store (pBc S1)) (Addr v) (Height v) = Some b \<and>
       Height v < i \<and> GetAccountByHeight (store (pBc S1)) (Addr v) i = Some s \<and> BlockTypeOf s = SEND)"
    using TryRollback_sends [OF inv1 p(3) v(2)] by blast
  define new where "new = (case r of Inl e \<Rightarrow> [] | Inr bs \<Rightarrow> bs)"
  have eq: "(case r of Inl e \<Rightarrow> sends | Inr tmpBlocks \<Rightarrow> sends @ tmpBlocks) = sends @ new"
    by (simp add: new_def split: sum.split)
  have newD: "\<exists>b i. GetAccountByHeight (store (pBc S1)) (Addr v) (Height v) = Some b \<and> Height v < i \<and>
      GetAccountByHeight (store (pBc S1)) (Addr v) i = Some s \<and> BlockTypeOf s = SEND" if "s \<in> set new" for s
    using that r(2) by (auto simp: new_def split: sum.splits)
  have st: "store (pBc S1) = store (pBc S)" using same_chainD(1) [OF p(4)] .
  define wait2 where "wait2 = addWaitRollback v (if canAdd wait v then wait(Addr v \<mapsto> v) else wait)"
  obtain wait' sends' S' where IH: "collectSends ks ts wait2 (sends @ new) S1 = Some (wait', (sends @ new) @ sends', S')"
    "same_chain (pBc S1) (pBc S')" "keyed S'"
    "\<forall>s \<in> set sends'. \<exists>k v b i. ts k = Some v \<and> GetAccountByHeight (store (pBc S1)) (Addr v) (Height v) = Some b \<and>
        Height v < i \<and> GetAccountByHeight (store (pBc S1)) (Addr v) i = Some s \<and> BlockTypeOf s = SEND"
    using Cons.IH [OF inv1 p(2), of wait2 "sends @ new"] Cons.prems(3) by auto
  have "collectSends (k # ks) ts wait sends S = Some (wait', sends @ new @ sends', S')"
    using IH(1) v(1) p(1) r(1) by (simp add: Let_def wait2_def [symmetric] eq)
  moreover have "\<forall>s \<in> set (new @ sends'). \<exists>k v b i. ts k = Some v \<and> GetAccountByHeight (store (pBc S)) (Addr v) (Height v) = Some b \<and>
        Height v < i \<and> GetAccountByHeight (store (pBc S)) (Addr v) i = Some s \<and> BlockTypeOf s = SEND"
    using newD v(1) IH(4) st by (metis Un_iff set_append)
  ultimately show ?case using same_chain_trans [OF p(4) IH(2)] IH(3) by blast
qed

lemma GetAccountBySourceHash_same:
  assumes "same_chain bc bc'"
  shows "GetAccountBySourceHash_bc bc' a h = map_option (\<lambda>r. (fst r, touch bc' a)) (GetAccountBySourceHash_bc bc a h)"
  using same_chainD [OF assms] by (cases "getBySourceBlock (acOf bc a) (store bc) h") (auto simp: GetAccountBySourceHash_bc_def Let_def)

lemma addReceivers_spec:
  assumes "keyed S" "\<And>s. s \<in> set sends \<Longrightarrow> \<exists>b bc'. GetAccountBySourceHash_bc (pBc S) (To s) (Thash s) = Some (Some b, bc') \<and> P s b"
  shows "\<exists>ts' S'. addReceivers sends ts S = Some (ts', S') \<and> same_chain (pBc S) (pBc S') \<and> keyed S' \<and>
     (\<forall>k v. ts' k = Some v \<longrightarrow> ts k = Some v \<or> (\<exists>s \<in> set sends. \<exists>b bc'.
        GetAccountBySourceHash_bc (pBc S) (To s) (Thash s) = Some (Some b, bc') \<and> P s b \<and>
        v = NewAccountHashH (Tsigner b) (Thash b) (Theight b))) \<and> (finite (dom ts) \<longrightarrow> finite (dom ts'))"
  using assms
proof (induction sends arbitrary: ts S)
  case Nil
  then show ?case by simp
next
  case (Cons s sends)
  obtain b bc' where b: "GetAccountBySourceHash_bc (pBc S) (To s) (Thash s) = Some (Some b, bc')" "P s b"
    using Cons.prems(2) [of s] by auto
  have bc': "bc' = touch (pBc S) (To s)" using b(1) by (auto simp: GetAccountBySourceHash_bc_def Let_def split: Option.bind_splits if_splits)
  define h where "h = NewAccountHashH (Tsigner b) (Thash b) (Theight b)"
  define ts1 where "ts1 = (if canAdd ts h then ts(Addr h \<mapsto> h) else ts)"
  let ?S = "S\<lparr>pBc := bc'\<rparr>"
  have same: "same_chain (pBc S) (pBc ?S)" using bc' by simp
  have pre: "\<exists>b bc'. GetAccountBySourceHash_bc (pBc ?S) (To x) (Thash x) = Some (Some b, bc') \<and> P x b" if "x \<in> set sends" for x
    using Cons.prems(2) [of x] that GetAccountBySourceHash_same [OF same] by auto
  have key: "keyed ?S" using Cons.prems(1) by (simp add: keyed_def)
  obtain ts' S' where IH: "addReceivers sends ts1 ?S = Some (ts', S')" "same_chain (pBc ?S) (pBc S')" "keyed S'"
    "\<forall>k v. ts' k = Some v \<longrightarrow> ts1 k = Some v \<or> (\<exists>s \<in> set sends. \<exists>b bc'.
        GetAccountBySourceHash_bc (pBc ?S) (To s) (Thash s) = Some (Some b, bc') \<and> P s b \<and>
        v = NewAccountHashH (Tsigner b) (Thash b) (Theight b))" "finite (dom ts1) \<longrightarrow> finite (dom ts')"
    using Cons.IH [of ?S ts1, OF key pre] by blast
  have "addReceivers (s # sends) ts S = Some (ts', S')" using IH(1) b(1) by (auto simp: Let_def h_def [symmetric] ts1_def split: if_splits)
  moreover have "ts k = Some v \<or> (\<exists>s \<in> set (s # sends). \<exists>b bc'.
        GetAccountBySourceHash_bc (pBc S) (To s) (Thash s) = Some (Some b, bc') \<and> P s b \<and>
        v = NewAccountHashH (Tsigner b) (Thash b) (Theight b))" if tk: "ts' k = Some v" for k v
  proof -
    have "ts1 k = Some v \<or> (\<exists>s \<in> set sends. \<exists>b bc'. GetAccountBySourceHash_bc (pBc ?S) (To s) (Thash s) = Some (Some b, bc') \<and>
        P s b \<and> v = NewAccountHashH (Tsigner b) (Thash b) (Theight b))" using IH(4) tk by blast
    then consider "ts k = Some v" | "v = h" | x b1 bc1 where "x \<in> set sends" "P x b1"
      "GetAccountBySourceHash_bc (pBc ?S) (To x) (Thash x) = Some (Some b1, bc1)" "v = NewAccountHashH (Tsigner b1) (Thash b1) (Theight b1)"
      unfolding ts1_def by (auto split: if_splits)
    then show ?thesis
    proof cases
      case 2
      then show ?thesis using b by (auto simp: h_def)
    next
      case 3
      then have "\<exists>bc2. GetAccountBySourceHash_bc (pBc S) (To x) (Thash x) = Some (Some b1, bc2)"
        using GetAccountBySourceHash_same [OF same, of "To x" "Thash x"]
        by (cases "GetAccountBySourceHash_bc (pBc S) (To x) (Thash x)") auto
      then show ?thesis using 3(1,2,4) by (metis list.set_intros(2))
    qed simp
  qed
  moreover have "finite (dom ts) \<longrightarrow> finite (dom ts')" using IH(5) by (auto simp: ts1_def)
  ultimately show ?case using same_chain_trans [OF same IH(2)] IH(3) by blast
qed

text \<open>
  An order of the blocks in which a block comes after its predecessors and a receive block
  after its send block, such as the order of insertion; every send block has been received.
\<close>

definition causal :: "blockchain \<Rightarrow> (string \<Rightarrow> int \<Rightarrow> nat) \<Rightarrow> nat \<Rightarrow> bool" where
  "causal bc rank N \<longleftrightarrow>
     (\<forall>a h b. GetAccountByHeight (store bc) a h = Some b \<longrightarrow> rank a h < N) \<and>
     (\<forall>a h b i b'. GetAccountByHeight (store bc) a h = Some b \<longrightarrow> GetAccountByHeight (store bc) a i = Some b' \<longrightarrow>
        h < i \<longrightarrow> rank a h < rank a i) \<and>
     (\<forall>a h s. GetAccountByHeight (store bc) a h = Some s \<longrightarrow> BlockTypeOf s = SEND \<longrightarrow>
        (\<exists>b bc'. GetAccountBySourceHash_bc bc (To s) (Thash s) = Some (Some b, bc') \<and>
           Tsigner b \<noteq> snapshotHeadKey \<and> rank a h < rank (Tsigner b) (Theight b)))"

lemma causal_same:
  assumes "same_chain bc bc'" "causal bc rank N"
  shows "causal bc' rank N"
proof -
  have "store bc' = store bc" using same_chainD(1) [OF assms(1)] .
  moreover have "\<exists>bc1. GetAccountBySourceHash_bc bc' a h = Some (Some b, bc1)"
    if "GetAccountBySourceHash_bc bc a h = Some (Some b, bc2)" for a h b bc2
    using GetAccountBySourceHash_same [OF assms(1)] that by simp
  ultimately show ?thesis using assms(2) unfolding causal_def by metis
qed

lemma getWaitRollbackAccounts_returns:
  assumes "chain_inv (pBc S)" "keyed S" "causal (pBc S) rank N" "finite (dom ts)"
    "\<And>D. finite D \<Longrightarrow> set (ord D) \<subseteq> D"
    "\<And>k v. ts k = Some v \<Longrightarrow> Addr v \<noteq> snapshotHeadKey \<and>
       (\<forall>b. GetAccountByHeight (store (pBc S)) (Addr v) (Height v) = Some b \<longrightarrow> m \<le> rank (Addr v) (Height v))"
  shows "\<exists>wait' S'. getWaitRollbackAccounts ord ts wait S = Some (wait', S') \<and> same_chain (pBc S) (pBc S')"
  using assms(1-4,6)
proof (induction "N - m" arbitrary: m ts wait S rule: less_induct)
  case less
  let ?get = "GetAccountByHeight (store (pBc S))"
  have ks: "\<exists>v. ts k = Some v \<and> Addr v \<noteq> snapshotHeadKey" if "k \<in> set (ord (dom ts))" for k
    using that assms(5) [OF less.prems(4)] less.prems(5) by blast
  obtain wait1 sends S1 where c: "collectSends (ord (dom ts)) ts wait [] S = Some (wait1, sends, S1)"
    "same_chain (pBc S) (pBc S1)" "keyed S1"
    "\<forall>s \<in> set sends. \<exists>k v b i. ts k = Some v \<and> ?get (Addr v) (Height v) = Some b \<and>
        Height v < i \<and> ?get (Addr v) i = Some s \<and> BlockTypeOf s = SEND"
    using collectSends_spec [OF less.prems(1,2), where ks = "ord (dom ts)" and ts = ts and wait = wait and sends = "[]"] ks
    unfolding append_Nil by blast
  have cs: "causal (pBc S1) rank N" by (rule causal_same [OF c(2) less.prems(3)])
  have st: "store (pBc S1) = store (pBc S)" using same_chainD(1) [OF c(2)] .
  define P where "P s b \<longleftrightarrow> Tsigner b \<noteq> snapshotHeadKey \<and> m < rank (Tsigner b) (Theight b) \<and> m < N" for s b :: AccountStateBlock
  have snd0: "\<exists>b bc'. GetAccountBySourceHash_bc (pBc S1) (To s) (Thash s) = Some (Some b, bc') \<and> P s b" if s: "s \<in> set sends" for s
  proof -
    obtain k v b0 i where v: "ts k = Some v" "?get (Addr v) (Height v) = Some b0" "Height v < i"
      "?get (Addr v) i = Some s" "BlockTypeOf s = SEND" using c(4) s by blast
    obtain b bc' where b: "GetAccountBySourceHash_bc (pBc S1) (To s) (Thash s) = Some (Some b, bc')"
      "Tsigner b \<noteq> snapshotHeadKey" "rank (Addr v) i < rank (Tsigner b) (Theight b)"
      using cs v(4,5) st unfolding causal_def by metis
    have "m \<le> rank (Addr v) (Height v)" using less.prems(5) v(1,2) by blast
    moreover have "rank (Addr v) (Height v) < rank (Addr v) i" "rank (Addr v) i < N"
      using less.prems(3) v(2,3,4) unfolding causal_def by blast+
    ultimately show ?thesis using b by (auto simp: P_def)
  qed
  obtain ts1 S2 where a: "addReceivers sends Map.empty S1 = Some (ts1, S2)" "same_chain (pBc S1) (pBc S2)" "keyed S2"
    "\<forall>k v. ts1 k = Some v \<longrightarrow> (\<exists>s \<in> set sends. \<exists>b bc'. GetAccountBySourceHash_bc (pBc S1) (To s) (Thash s) = Some (Some b, bc') \<and>
       P s b \<and> v = NewAccountHashH (Tsigner b) (Thash b) (Theight b))" "finite (dom ts1)"
    using addReceivers_spec [OF c(3), where sends = sends and P = P and ts = Map.empty] snd0
    by (auto simp del: addReceivers.simps)
  have same: "same_chain (pBc S) (pBc S2)" by (rule same_chain_trans [OF c(2) a(2)])
  have run: "getWaitRollbackAccounts ord ts wait S =
      (if dom ts1 = {} then Some (wait1, S2) else getWaitRollbackAccounts ord ts1 wait1 S2)"
    by (subst getWaitRollbackAccounts.simps) (simp add: c(1) a(1))
  show ?case
  proof (cases "dom ts1 = {}")
    case True
    then show ?thesis using run same by simp
  next
    case False
    have ts1: "Addr v \<noteq> snapshotHeadKey \<and> m < rank (Addr v) (Height v) \<and> m < N" if tk: "ts1 k = Some v" for k v
    proof -
      obtain b s where "P s b" "v = NewAccountHashH (Tsigner b) (Thash b) (Theight b)" using a(4) tk by blast
      then show ?thesis by (simp add: P_def NewAccountHashH_def)
    qed
    moreover obtain k v where "ts1 k = Some v" using False by blast
    ultimately have "N - Suc m < N - m" using diff_less_mono2 by blast
    from less.hyps [OF this chain_inv_same [OF same less.prems(1)] a(3) causal_same [OF same less.prems(3)] a(5)] ts1
    obtain wait' S' where "getWaitRollbackAccounts ord ts1 wait1 S2 = Some (wait', S')" "same_chain (pBc S2) (pBc S')"
      by (metis Suc_leI)
    then show ?thesis using run False same_chain_trans [OF same] by simp
  qed
qed

text \<open>
  C28. The search for the accounts to roll back ends and leaves the chain as it was, for every
  set of rollback points and every visiting order, provided that blocks are ordered causally
  and every send block has been received.
\<close>

theorem getWaitRollbackAccounts_total:
  assumes "chain_inv (pBc S)" "keyed S" "causal (pBc S) rank N" "finite (dom ts)"
    "\<And>D. finite D \<Longrightarrow> set (ord D) \<subseteq> D" "\<And>k v. ts k = Some v \<Longrightarrow> Addr v \<noteq> snapshotHeadKey"
  shows "\<exists>wait' S'. getWaitRollbackAccounts ord ts wait S = Some (wait', S') \<and> same_chain (pBc S) (pBc S')"
  using getWaitRollbackAccounts_returns [OF assms(1-5), where m = 0] assms(6) by simp

text \<open>
  The second proviso is needed: when one send block above a rollback point has no receiver
  yet, the search dereferences a nil block and panics.
\<close>

theorem unreceived_send_panics:
  assumes "collectSends (ord (dom ts)) ts wait [] S = Some (wait1, sends, S1)" "s \<in> set sends"
    "GetAccountBySourceHash_bc (pBc S1) (To s) (Thash s) = Some (None, bc')"
  shows "getWaitRollbackAccounts ord ts wait S = None"
proof -
  have "addReceivers sends tt T = None" if "same_chain (pBc S1) (pBc T)" for tt T
    using assms(2) that
  proof (induction sends arbitrary: tt T)
    case (Cons x xs)
    show ?case
    proof (cases "x = s")
      case True
      then show ?thesis using assms(3) GetAccountBySourceHash_same [OF Cons.prems(2), of "To s" "Thash s"] by simp
    next
      case False
      then have "addReceivers xs tt' (T\<lparr>pBc := touch (pBc T) a\<rparr>) = None" for tt' a
        using Cons by simp
      moreover have "bc2 = touch (pBc T) (To x)" if "GetAccountBySourceHash_bc (pBc T) (To x) (Thash x) = Some (r, bc2)" for r bc2
        using that by (auto simp: GetAccountBySourceHash_bc_def Let_def split: Option.bind_splits if_splits)
      ultimately show ?thesis by (auto simp: Let_def split: Option.bind_splits)
    qed
  qed simp
  then show ?thesis by (subst getWaitRollbackAccounts.simps) (simp add: assms(1))
qed

section \<open>Witnesses\<close>

definition ex_pool :: "blockchain \<Rightarrow> (string \<rightharpoonup> accountPool) \<Rightarrow> pool" where
  "ex_pool bc acs = \<lparr>pBc = bc, pVer = 0,
     pendingSc = \<lparr>Id = ''snapshotPool'', blockpool = \<lparr>freeBlocks = Map.empty, compoundBlocks = Map.empty\<rparr>,
       chainpool = \<lparr>poolId = ''snapshotPool'', lastestChainIdx = 1, current = ''p-1'', snippetChains = Map.empty,
         chains = [''p-1'' \<mapsto> init_fc ''p-1'' Disk genesisSnapshot]\<rparr>\<rparr>,
     pendingAc = acs, pClock = 0, pFetched = []\<rparr>"

lemma ex_pool_simps [simp]: "pBc (ex_pool bc acs) = bc" "pendingAc (ex_pool bc acs) = acs" "pVer (ex_pool bc acs) = 0"
  by (simp_all add: ex_pool_def)

lemma ex_pool_keyed: "keyed (ex_pool bc Map.empty)"
  by (simp add: keyed_def)

lemma ex1_listener: "acListener (acOf ex1 a) = defaultChainListener"
  using acc_frame_InsertAccountBlock [OF ex1 chain_invD(1) [OF ex_inv(1)]] by (simp add: acc_frame_def acOf_None)

lemma bc_ok_ex_filed: "bc_ok ex_play ex_filed"
  using ex_filed_inv filed_ex_filed by (auto simp: bc_ok_def ex_play_def)

lemma ex_pool_ok: "pool_ok ex_play (ex_pool ex_filed [''jie'' \<mapsto> ex_ap])"
proof -
  have "clean ex_play ex_pool_chain" using ex_addressed by (auto simp: clean_def ex_pending ex_play_def)
  then show ?thesis
    using bc_ok_ex_filed ex_pool_inv by (simp add: pool_ok_def account_pool_ok_def pool_inv_def) (simp add: ex_pool_def)
qed


theorem getUnlockAccountSnapshot_spec_witness:
  "\<exists>start fin. getUnlockAccountSnapshot genesisSnapshot (ex_pool ex3 Map.empty) = Some (start, fin) \<and>
     start ''jie'' = Some (pointOf ex_snap (NewAccountHashH ''jie'' ''recv1'' 1)) \<and> fin ''jie'' = start ''jie'' \<and> start ''bob'' = None"
proof -
  let ?ps = "pointsIn (map (\<lambda>h. the (GetSnapshotByHeight (store (pBc (ex_pool ex3 Map.empty))) h))
     (if Theight genesisSnapshot < Theight ex_snap then rev [Theight genesisSnapshot + 1..Theight ex_snap] else [Theight ex_snap]))"
  have "GetSnapshotByHeight (store ex3) 1 = Some ex_snap"
    using chain_invD(2) [OF ex3(2)] ex3(3) by (simp add: snapshot_ok_def chain_ok_def)
  then have ps: "?ps ''jie'' = [pointOf ex_snap (NewAccountHashH ''jie'' ''recv1'' 1)]" "?ps ''bob'' = []"
    by (simp_all add: pointsIn_def NewAccountHashH_def)
  obtain start fin where r: "getUnlockAccountSnapshot genesisSnapshot (ex_pool ex3 Map.empty) = Some (start, fin)"
    "\<forall>a. start a = (if ?ps a = [] then None else Some (hd (?ps a))) \<and> fin a = (if ?ps a = [] then None else Some (last (?ps a)))"
    using getUnlockAccountSnapshot_spec [of "ex_pool ex3 Map.empty" ex_snap genesisSnapshot] ex3(2,3) by auto
  then show ?thesis using r(2) [rule_format, of "''jie''"] r(2) [rule_format, of "''bob''"] ps by auto
qed

theorem rollback_point_overwritten_witness:
  "\<exists>wait' sends' S' u. collectSends [''viteshan''] [''viteshan'' \<mapsto> NewAccountHashH ''viteshan'' ''send1'' 1]
     [''viteshan'' \<mapsto> NewAccountHashH ''viteshan'' ''old'' 0] [] (ex_pool ex2 Map.empty) = Some (wait', sends', S') \<and>
     wait' ''viteshan'' = Some u \<and> Height u = 1"
proof -
  let ?v = "NewAccountHashH ''viteshan'' ''send1'' 1" and ?w = "[''viteshan'' \<mapsto> NewAccountHashH ''viteshan'' ''old'' 0]"
  have v: "Addr ?v = ''viteshan''" "Height ?v = 1" by (simp_all add: NewAccountHashH_def)
  obtain wait' sends' S' where r: "collectSends [''viteshan''] [''viteshan'' \<mapsto> ?v] ?w [] (ex_pool ex2 Map.empty) = Some (wait', sends', S')"
    using collectSends_spec [of "ex_pool ex2 Map.empty" "[''viteshan'']" "[''viteshan'' \<mapsto> ?v]" ?w "[]"] ex_inv(3) ex_pool_keyed v(1)
    by auto
  then show ?thesis using rollback_point_overwritten [OF r, of ?v] v by auto
qed

definition ex_rank :: "string \<Rightarrow> int \<Rightarrow> nat" where
  "ex_rank a h = (if h = 0 then 0 else if a = ''jie'' then 2 else 1)"

lemma ex2_received: "GetAccountBySourceHash_bc ex2 ''jie'' ''send1'' = Some (Some ex_recv, touch ex2 ''jie'')"
proof -
  obtain r where "getBySourceBlock (acOf ex2 ''jie'') (store ex2) ''send1'' = Some r" and r: "case r of
       None \<Rightarrow> \<forall>h b. 1 \<le> h \<longrightarrow> GetAccountByHeight (store ex2) ''jie'' h = Some b \<longrightarrow> \<not> (BlockTypeOf b = RECEIVED \<and> SourceHash b = ''send1'')
     | Some b \<Rightarrow> GetAccountByHeight (store ex2) ''jie'' (Theight b) = Some b \<and> 1 \<le> Theight b \<and>
         BlockTypeOf b = RECEIVED \<and> SourceHash b = ''send1''"
    using getBySourceBlock_spec [OF ex_inv(3) key_neq(2), of "''send1''"] by blast
  moreover have "r = Some ex_recv" using r by (cases r) (auto simp: ex_get split: if_splits)
  ultimately show ?thesis by (simp add: GetAccountBySourceHash_bc_def)
qed

lemma ex2_causal: "causal ex2 ex_rank 3"
  using ex2_received by (auto simp: causal_def ex_get ex_rank_def split: if_splits)

theorem getWaitRollbackAccounts_total_witness:
  "\<exists>wait' S'. getWaitRollbackAccounts sorted_list_of_set [''viteshan'' \<mapsto> NewAccountHashH ''viteshan'' (Thash (genesisAccountBlock ''viteshan'')) 0]
     Map.empty (ex_pool ex2 Map.empty) = Some (wait', S') \<and> same_chain ex2 (pBc S')"
proof -
  let ?ts = "[''viteshan'' \<mapsto> NewAccountHashH ''viteshan'' (Thash (genesisAccountBlock ''viteshan'')) 0]"
  have adr: "Addr v \<noteq> snapshotHeadKey" if "?ts k = Some v" for k v
    using that by (auto simp: NewAccountHashH_def split: if_splits)
  show ?thesis
    using getWaitRollbackAccounts_total [of "ex_pool ex2 Map.empty" ex_rank 3 ?ts sorted_list_of_set Map.empty, OF _ _ _ _ _ adr]
      ex_inv(3) ex_pool_keyed ex2_causal by simp
qed

theorem unreceived_send_panics_witness:
  "getWaitRollbackAccounts sorted_list_of_set [''viteshan'' \<mapsto> NewAccountHashH ''viteshan'' (Thash (genesisAccountBlock ''viteshan'')) 0]
     Map.empty (ex_pool ex1 Map.empty) = None"
proof -
  let ?v = "NewAccountHashH ''viteshan'' (Thash (genesisAccountBlock ''viteshan'')) 0"
  obtain p S1 where p: "selfPendingAc ''viteshan'' (ex_pool ex1 Map.empty) = Some (p, S1)" "apAddress p = ''viteshan''"
    "same_chain ex1 (pBc S1)" using selfPendingAc_keyed [of "ex_pool ex1 Map.empty" "''viteshan''"] ex_pool_keyed by auto
  have inv: "chain_inv (pBc S1)" by (rule chain_inv_same [OF p(3) ex_inv(2)])
  have get: "GetAccountByHeight (store (pBc S1)) a h = GetAccountByHeight (store ex1) a h" for a h
    using same_chainD(1) [OF p(3)] by simp
  have "TryRollback (pVer S1) 0 (Thash (genesisAccountBlock ''viteshan'')) p (pBc S1) = Some (Inr [ex_send])"
    using TryRollback_holds [OF inv, of p "pVer S1" 0 "Thash (genesisAccountBlock ''viteshan'')"] p(2) same_chainD(2) [OF p(3)]
    by (auto simp: get ex_get split: sum.splits) (metis sum.exhaust)
  then have c: "collectSends (sorted_list_of_set (dom [''viteshan'' \<mapsto> ?v])) [''viteshan'' \<mapsto> ?v] Map.empty [] (ex_pool ex1 Map.empty) =
      Some (addWaitRollback ?v [''viteshan'' \<mapsto> ?v], [ex_send], S1)"
    using p(1) by (simp add: Let_def canAdd_def NewAccountHashH_def)
  have "getBySourceBlock (acOf ex1 ''jie'') (store ex1) ''send1'' = Some None"
    using getBySourceBlock_spec [OF ex_inv(2) key_neq(2), of "''send1''"] by (auto simp: ex_get split: option.splits if_splits)
  then have "GetAccountBySourceHash_bc ex1 ''jie'' ''send1'' = Some (None, touch ex1 ''jie'')" by (simp add: GetAccountBySourceHash_bc_def)
  then have "GetAccountBySourceHash_bc (pBc S1) (To ex_send) (Thash ex_send) = Some (None, touch (pBc S1) ''jie'')"
    using GetAccountBySourceHash_same [OF p(3)] by simp
  from unreceived_send_panics [where ord = sorted_list_of_set, OF c _ this] show ?thesis by simp
qed

end
