(* ===== verification/Ledger.thy ===== *)
theory Ledger
  imports Pool_Top_Props
begin

text \<open>
  The ledger, \<open>ledger/ledger.go\<close>: what a node does on its own account - mining snapshot
  blocks, sending and receiving - and its listings. The state is the pool with the block chain
  behind it, and the blocks handed to the network sender, oldest first. A block is stamped
  with the second of the clock. The request pool that \<open>Init\<close> installs as the listener of the
  chain is part of the block chain state.

  The ledger and the pool share one \<open>sync.RWMutex\<close>. An operation starts when it gets the lock,
  so a lock matters only where it is taken while the same goroutine holds it already: the
  result \<open>Blocks\<close> is such a wait without end.
\<close>

section \<open>State\<close>

datatype broadcast =
    BroadcastSnapshotBlocks "SnapshotBlock list"
  | BroadcastAccountBlocks string "AccountStateBlock list"

record ledger =
  bpool :: pool
  sent :: "broadcast list"

definition NewLedger :: "blockchain \<Rightarrow> int \<Rightarrow> ledger option" where
  "NewLedger bc now =
     do {
       p \<leftarrow> NewPool (SetChainListener (Some reqPoolListener) (bc\<lparr>reqs := newReqPool\<rparr>)) now;
       Some \<lparr>bpool = p, sent = []\<rparr>
     }"

definition clockSec :: "ledger \<Rightarrow> int" where
  "clockSec L = pClock (bpool L) div second"

section \<open>Operations\<close>

datatype 'a outcome = Returns 'a | Blocks

record RWMutex =
  writer :: bool
  readers :: nat

text \<open>Taking the read lock, for a goroutine that would have to wait for itself.\<close>

definition RLock :: "RWMutex \<Rightarrow> RWMutex outcome" where
  "RLock m = (if writer m then Blocks else Returns (m\<lparr>readers := Suc (readers m)\<rparr>))"

definition AddDirectSnapshotBlock_locked :: "RWMutex \<Rightarrow> SnapshotBlock \<Rightarrow> pool \<Rightarrow> (err \<times> pool) outcome option" where
  "AddDirectSnapshotBlock_locked m b S =
     (case RLock m of
        Blocks \<Rightarrow> Some Blocks
      | Returns m1 \<Rightarrow> map_option Returns (AddDirectSnapshotBlock b S))"

text \<open>The block that mining builds.\<close>

definition nextSnapshotBlock :: "string list \<Rightarrow> string \<Rightarrow> int \<Rightarrow> blockchain \<Rightarrow> SnapshotBlock option" where
  "nextSnapshotBlock order addr timestamp bc =
     do {
       (hashH, accs) \<leftarrow> NextAccountSnapshot bc order;
       let b0 = NewSnapshotBlock (Height hashH + 1) '''' (Hash hashH) addr timestamp accs;
       Some (SetHash (CalculateSnapshotHash b0) b0)
     }"

text \<open>The lock is taken for writing first, and held to the end.\<close>

definition MiningSnapshotBlock :: "string list \<Rightarrow> string \<Rightarrow> int \<Rightarrow> ledger \<Rightarrow> (err \<times> ledger) outcome option" where
  "MiningSnapshotBlock order addr timestamp L =
     do {
       let m = \<lparr>writer = True, readers = 0\<rparr>;
       b \<leftarrow> nextSnapshotBlock order addr timestamp (pBc (bpool L));
       r \<leftarrow> AddDirectSnapshotBlock_locked m b (bpool L);
       Some (case r of
               Blocks \<Rightarrow> Blocks
             | Returns (e, p) \<Rightarrow>
                 Returns (if e \<noteq> None then (e, L\<lparr>bpool := p\<rparr>)
                          else (None, L\<lparr>bpool := p, sent := sent L @ [BroadcastSnapshotBlocks [b]]\<rparr>)))
     }"

text \<open>The block that a request builds.\<close>

definition sendBlock :: "AccountStateBlock option \<Rightarrow> SnapshotBlock \<Rightarrow> int \<Rightarrow> string \<Rightarrow> string \<Rightarrow> int \<Rightarrow> AccountStateBlock" where
  "sendBlock headAccount headSnapshot now fro to amount =
     (let b0 = NewAccountBlockFrom headAccount fro now amount headSnapshot SEND fro to '''' (-1)
      in SetHash (CalculateAccountHash b0) b0)"

definition RequestAccountBlock :: "string \<Rightarrow> string \<Rightarrow> int \<Rightarrow> ledger \<Rightarrow> (err \<times> ledger) option" where
  "RequestAccountBlock fro to amount L =
     do {
       let (headAccount, bc) = HeadAccount (pBc (bpool L)) fro;
       headSnapshot \<leftarrow> HeadSnapshot bc;
       let b = sendBlock headAccount headSnapshot (clockSec L) fro to amount;
       (e, p) \<leftarrow> AddDirectAccountBlock fro b ((bpool L)\<lparr>pBc := bc\<rparr>);
       Some (e, if e = None then L\<lparr>bpool := p, sent := sent L @ [BroadcastAccountBlocks fro [b]]\<rparr> else L\<lparr>bpool := p\<rparr>)
     }"

definition ResponseAccountBlock :: "string \<Rightarrow> string \<Rightarrow> string \<Rightarrow> ledger \<Rightarrow> (err \<times> ledger) option" where
  "ResponseAccountBlock fro to reqHash L =
     (let (b, bc) = GetAccountByHash_bc (pBc (bpool L)) fro reqHash;
          L1 = L\<lparr>bpool := (bpool L)\<lparr>pBc := bc\<rparr>\<rparr>
      in case b of
           None \<Rightarrow> Some (Some (BlockNotExist fro reqHash), L1)
         | Some reqBlock \<Rightarrow>
             if Thash reqBlock \<noteq> reqHash then Some (Some GetByHashError, L1)
             else do {
               let (prev, bc1) = HeadAccount bc to;
               let prevHeight = (case prev of None \<Rightarrow> -1 | Some p \<Rightarrow> Theight p);
               let prevHash = (case prev of None \<Rightarrow> '''' | Some p \<Rightarrow> Thash p);
               let prevAmount = (case prev of None \<Rightarrow> 0 | Some p \<Rightarrow> Amount p);
               snapshotBlock \<leftarrow> HeadSnapshot bc1;
               let modifiedAmount = wrap64 (- ModifiedAmount reqBlock);
               let b0 = NewAccountBlock (prevHeight + 1) '''' prevHash to (clockSec L)
                          (wrap64 (prevAmount + modifiedAmount)) modifiedAmount (Theight snapshotBlock) (Thash snapshotBlock)
                          RECEIVED fro to reqHash (Theight reqBlock);
               let blk = SetHash (CalculateAccountHash b0) b0;
               (e, p) \<leftarrow> AddDirectAccountBlock to blk ((bpool L1)\<lparr>pBc := bc1\<rparr>);
               Some (e, if e = None then L1\<lparr>bpool := p, sent := sent L1 @ [BroadcastAccountBlocks to [blk]]\<rparr> else L1\<lparr>bpool := p\<rparr>)
             })"

definition GetAccountBalance :: "string \<Rightarrow> ledger \<Rightarrow> int \<times> ledger" where
  "GetAccountBalance addr L =
     (let (head, bc) = HeadAccount (pBc (bpool L)) addr
      in (case head of None \<Rightarrow> 0 | Some h \<Rightarrow> Amount h, L\<lparr>bpool := (bpool L)\<lparr>pBc := bc\<rparr>\<rparr>))"

definition ListRequest :: "string \<Rightarrow> string list \<Rightarrow> ledger \<Rightarrow> Req list" where
  "ListRequest addr order L = getReqs (reqs (pBc (bpool L))) addr order"

text \<open>Both listings read every height below the head, and then take the head itself.\<close>

definition ListSnapshotBlock :: "ledger \<Rightarrow> SnapshotBlock option list option" where
  "ListSnapshotBlock L =
     (let bc = pBc (bpool L) in
      case HeadSnapshot bc of
        None \<Rightarrow> Some []
      | Some head \<Rightarrow>
          do {
            bs \<leftarrow> those (map (GetSnapshotByHeight_bc bc) [0..Theight head - 1]);
            Some (bs @ (if Theight head \<ge> 0 then [Some head] else []))
          })"

definition ListAccountBlock :: "string \<Rightarrow> ledger \<Rightarrow> AccountStateBlock option list \<times> ledger" where
  "ListAccountBlock addr L =
     (let (head, bc) = HeadAccount (pBc (bpool L)) addr; L1 = L\<lparr>bpool := (bpool L)\<lparr>pBc := bc\<rparr>\<rparr>
      in case head of
           None \<Rightarrow> ([], L1)
         | Some h \<Rightarrow> (map (\<lambda>i. fst (GetAccountByHeight_bc bc addr i)) [0..Theight h - 1] @
                      (if Theight h \<ge> 0 then [Some h] else []), L1))"

section \<open>Listings\<close>

text \<open>A listing is the whole chain, lowest block first.\<close>

lemma ListAccountBlock_all:
  assumes "chain_inv (pBc (bpool L))" "addr \<noteq> snapshotHeadKey" "acHead (acOf (pBc (bpool L)) addr) = Some h"
  shows "fst (ListAccountBlock addr L) = map (GetAccountByHeight (store (pBc (bpool L))) addr) [0..Theight h]"
proof -
  let ?bc = "pBc (bpool L)"
  have ok: "chain_ok (GetAccountByHeight (store ?bc) addr) (Some h)"
    using chain_invD(4) [OF assms(1,2)] assms(3) by (simp add: account_ok_def)
  have a: "address (acOf ?bc addr) = addr" using ac_wf_address [OF chain_invD(1) [OF assms(1)]] .
  have "[0..Theight h] = [0..Theight h - 1] @ [Theight h]" using chain_okD(1) [OF ok] by (rule upto_snoc)
  then show ?thesis
    using assms(3) chain_okD(1,2) [OF ok] a
    by (simp add: ListAccountBlock_def HeadAccount_def GetAccountByHeight_bc_def GetBlockByHeight_ac_def)
qed

section \<open>Mining\<close>

lemma touch_Some: "ac bc a = Some c \<Longrightarrow> touch bc a = bc"
  by (cases bc) (auto simp: touch_def acOf_def selfAc_def fun_upd_idem split: option.splits)

lemma verifyAccountsLoop_known:
  assumes "\<And>v. v \<in> set as \<Longrightarrow> ac bc (Addr v) \<noteq> None"
  shows "snd (snd (snd (snd (verifyAccountsLoop as i task st bc)))) = bc"
  using assms
proof (induction as arbitrary: i task st)
  case (Cons v vs)
  then have t: "touch bc (Addr v) = bc" using touch_Some by (metis list.set_intros(1) option.exhaust)
  have IH: "snd (snd (snd (snd (verifyAccountsLoop vs i task st bc)))) = bc" for i task st
    using Cons by simp
  show ?case using IH by (auto simp: GetAccountByHeight_bc_def t split: option.split)
qed simp

lemma VerifyReferred_sn_known:
  assumes "\<And>v. v \<in> set (Accounts b) \<Longrightarrow> ac bc (Addr v) \<noteq> None"
  shows "snd (VerifyReferred_sn ver now b bc) = bc"
  using verifyAccountsLoop_known [OF assms, where i = 0 and st = "newVerifyStat_sn b"]
  by (simp add: VerifyReferred_sn_def case_prod_beta)

lemma insertNotify_returns:
  assumes "chains cp (current cp) = Some c"
  shows "\<exists>cp'. insertNotify head cp = Some cp'"
  using assms by (simp add: insertNotify_def)

lemma mined_block_holds:
  assumes "chain_inv (pBc S)" "NextAccountSnapshot (pBc S) order = Some (hh, as)"
    "distinct order" "snapshotHeadKey \<notin> set order"
    "\<And>a c q. ac (pBc S) a = Some c \<Longrightarrow> q \<in> set (snapshotPoint c) \<Longrightarrow> spSnapshotHeight q \<le> Height hh"
    "chains (chainpool (pendingSc S)) (current (chainpool (pendingSc S))) = Some cur"
  shows "\<exists>b S'. nextSnapshotBlock order addr t (pBc S) = Some b \<and> AddDirectSnapshotBlock b S = Some (None, S') \<and>
    HeadSnapshot (pBc S') = Some b \<and>
    Theight b = Height hh + 1 \<and> TpreHash b = Hash hh \<and> Tsigner b = addr \<and> Ttimestamp b = t \<and> Accounts b = as \<and>
    Thash b = CalculateSnapshotHash b \<and>
    NextAccountSnapshot (pBc S') order = Some (\<lparr>Hash = Thash b, Height = Theight b\<rparr>, [])"
proof -
  let ?bc = "pBc S" and ?S = "S"
  define b0 where "b0 = NewSnapshotBlock (Height hh + 1) '''' (Hash hh) addr t as"
  define b where "b = SetHash (CalculateSnapshotHash b0) b0"
  have b: "b = NewSnapshotBlock (Height hh + 1) (CalculateSnapshotHash b0) (Hash hh) addr t as"
    by (simp add: b_def b0_def SetHash_def NewSnapshotBlock_def)
  have f: "Theight b = Height hh + 1" "TpreHash b = Hash hh" "Tsigner b = addr" "Accounts b = as" "Ttimestamp b = t" "Thash b = CalculateSnapshotHash b"
    using b by (simp_all add: NewSnapshotBlock_def) (simp add: b_def [symmetric, unfolded b] CalculateSnapshotHash_def blockStr_def b0_def NewSnapshotBlock_def)
  obtain bc' where ins: "InsertSnapshotBlock b ?bc = Some (None, bc')"
    "NextAccountSnapshot bc' order = Some (\<lparr>Hash = CalculateSnapshotHash b0, Height = Height hh + 1\<rparr>, [])"
    using snapshot_round_holds [OF assms(1-4) _ b] assms(5) by blast
  have un: "Addr h \<in> set order \<and> (\<exists>c x. ac ?bc (Addr h) = Some c \<and> unsnapped c x \<and> Height h = Theight x \<and> Hash h = Thash x)"
    if "h \<in> set as" for h
    using nextAccounts_unsnapped [of "ac ?bc" order as] assms(2,3) that
    by (auto simp: NextAccountSnapshot_def split: Option.bind_splits)
  have conf: "confirmedAcc ?bc v" if v: "v \<in> set (Accounts b)" for v
  proof -
    obtain c x where c: "ac ?bc (Addr v) = Some c" "unsnapped c x" "Height v = Theight x" "Hash v = Thash x" "Addr v \<noteq> snapshotHeadKey"
      using un [of v] v f(4) assms(4) by metis
    have ok: "chain_ok (GetAccountByHeight (store ?bc) (Addr v)) (Some x)"
      using chain_invD(4) [OF assms(1) c(5)] c(1,2) by (simp add: account_ok_def unsnapped_def)
    show ?thesis
      using chain_okD(1,2) [OF ok] c ac_wf_address [OF chain_invD(1) [OF assms(1)], of "Addr v"]
      by (auto simp: confirmedAcc_def accountBlock_def GetBlockByHeight_ac_def)
  qed
  obtain st where st: "VerifyReferred_sn (pVer ?S) (pClock ?S) b ?bc = (st, ?bc)"
    using VerifyReferred_sn_known [of b ?bc "pVer ?S" "pClock ?S"] un f(4) by (metis option.distinct(1) prod.collapse)
  have ok: "result st = SUCCESS" using VerifyReferred_sn_holds [OF st] conf by blast
  have hd0: "HeadSnapshot bc' = Some b" using InsertSnapshotBlock_Some(1) [OF ins(1)] by (simp add: HeadSnapshot_def)
  obtain cp' where cp': "insertNotify b (chainpool (pendingSc ?S)) = Some cp'" using insertNotify_returns [OF assms(6)] by blast
  have "Head_disk snapshotCh bc' = Some b" using hd0 by (simp add: Head_disk_def snapshotCh_def)
  then have "AddDirectSnapshotBlock b ?S = Some (None, ?S\<lparr>pBc := bc', pendingSc := (pendingSc ?S)\<lparr>chainpool := cp'\<rparr>\<rparr>)"
    using st ok ins(1) cp' by (simp add: AddDirectSnapshotBlock_def AddDirectBlock_def snapshotCh_def)
  moreover have "nextSnapshotBlock order addr t ?bc = Some b"
    using assms(2) by (simp add: nextSnapshotBlock_def b0_def [symmetric] b_def [symmetric])
  moreover have "Thash b = CalculateSnapshotHash b0" by (simp add: b_def SetHash_def)
  ultimately show ?thesis using hd0 f ins(2) by (intro exI [of _ b] exI) auto
qed

text \<open>
  C32. The block that mining builds is right: on a well-formed chain without snapshot points above
  the snapshot head (a fork can leave such points behind) it takes the state of every account
  that moved since its last snapshot, and, handed to the pool without the lock of the ledger,
  it is never refused by the verifier, becomes the head of the snapshot chain, and no account
  is left to snapshot.  The caller in the code keeps the lock, see \<open>MiningSnapshotBlock\<close> below.
\<close>

theorem mined_block_accepted:
  assumes "chain_inv (pBc S)" "NextAccountSnapshot (pBc S) order = Some (hh, as)"
    "distinct order" "snapshotHeadKey \<notin> set order"
    "\<And>a c q. ac (pBc S) a = Some c \<Longrightarrow> q \<in> set (snapshotPoint c) \<Longrightarrow> spSnapshotHeight q \<le> Height hh"
    "chains (chainpool (pendingSc S)) (current (chainpool (pendingSc S))) = Some cur"
  shows "\<exists>b S'. nextSnapshotBlock order addr t (pBc S) = Some b \<and> AddDirectSnapshotBlock b S = Some (None, S') \<and>
    HeadSnapshot (pBc S') = Some b \<and>
    Theight b = Height hh + 1 \<and> TpreHash b = Hash hh \<and> Tsigner b = addr \<and> Ttimestamp b = t \<and> Accounts b = as \<and>
    Thash b = CalculateSnapshotHash b \<and>
    NextAccountSnapshot (pBc S') order = Some (\<lparr>Hash = Thash b, Height = Theight b\<rparr>, [])"
  by (rule mined_block_holds) (fact assms)+

text \<open>
  C33. Yet mining never gets there: it holds the lock of the ledger for writing while the pool
  takes the same lock for reading, so whenever a next block can be built the call waits for
  itself, for ever, and the lock is never given back.
\<close>

theorem MiningSnapshotBlock_blocks:
  assumes "NextAccountSnapshot (pBc (bpool L)) order = Some (hh, as)"
  shows "MiningSnapshotBlock order addr t L = Some Blocks"
  using assms by (simp add: MiningSnapshotBlock_def nextSnapshotBlock_def AddDirectSnapshotBlock_locked_def RLock_def Let_def)

section \<open>A new ledger\<close>

text \<open>
  The pool that a ledger builds on a new chain satisfies the invariant of the insertion rounds:
  its listener is the request pool, which has nothing to know yet.
\<close>

lemma NewLedger_pool_ok:
  "\<exists>bc L. NewChain = Some bc \<and> NewLedger bc now = Some L \<and> pool_ok (on_chain (pBc (bpool L))) (bpool L)"
proof -
  have "init_bcp snapshotCh ''snapshotPool'' ex_new \<noteq> None"
    by (simp add: init_bcp_def init_cp_def genChainId_def Head_disk_def snapshotCh_def Let_def)
  then obtain p where p: "init_bcp snapshotCh ''snapshotPool'' ex_new = Some p" by blast
  then have "\<exists>c. chains (chainpool p) (current (chainpool p)) = Some c"
    by (auto simp: init_bcp_def init_cp_def genChainId_def Let_def split: Option.bind_splits)
  then show ?thesis
    using p ex0 ex_new_inv filed_new
    by (intro exI [of _ ex0]) (auto simp: NewLedger_def NewPool_def ex_new_def [symmetric] pool_ok_def bc_ok_def)
qed

section \<open>Receiving\<close>

text \<open>A block added directly to an account is inserted when the verifier accepts it and the listener takes it.\<close>

lemma AddDirectAccountBlock_accepts:
  assumes "VerifyReferred_ac (pVer S) (pClock S) b (touch (pBc S) a) = Some (stat, bc1)" "VerifyResult_ac stat = SUCCESS"
    "InsertAccountBlock a b bc1 = Some (None, bc2)"
    "pendingAc S a = None \<or> (\<exists>p c. pendingAc S a = Some p \<and> currentOf p = Some c \<and> touch (pBc S) a = pBc S)"
  shows "\<exists>S'. AddDirectAccountBlock a b S = Some (None, S') \<and> pBc S' = bc2 \<and> (\<forall>x. x \<noteq> a \<longrightarrow> pendingAc S' x = pendingAc S x) \<and>
    pendingAc S' a \<noteq> None"
proof -
  obtain p S1 c where p: "selfPendingAc a S = Some (p, S1)" "currentOf p = Some c" "pBc S1 = touch (pBc S) a"
    "pVer S1 = pVer S" "pClock S1 = pClock S" "\<forall>x. x \<noteq> a \<longrightarrow> pendingAc S1 x = pendingAc S x"
  proof (cases "pendingAc S a")
    case None
    obtain t where "Head_disk (accountCh a (pVer S)) (pBc S) = Some t" using Head_disk_account by blast
    then show thesis using None that
      by (simp add: selfPendingAc_def newAccountPool_def init_bcp_def init_cp_def genChainId_def Let_def setAc_def currentOf_def)
  next
    case (Some p)
    then show thesis using assms(4) that [of p S] by (auto simp: selfPendingAc_def)
  qed
  obtain cp' where cp': "insertNotify b (chainpool (apPool p)) = Some cp'"
    using insertNotify_returns p(2) unfolding currentOf_def by blast
  have "Head_disk (accountCh a (pVer S)) bc2 = Some b"
    using InsertAccountBlock_head [OF assms(3)] by (simp add: Head_disk_def accountCh_def)
  then show ?thesis
    using p assms(1,2,3) cp'
    by (simp add: AddDirectAccountBlock_def AddDirectBlock_def) (simp add: accountCh_def setAc_def)
qed

text \<open>What becomes of a block that is added directly: it is inserted or refused, as the verifier decides.\<close>

lemma AddDirectAccountBlock_taken:
  assumes "touch (pBc S) a = pBc S" "chain_inv (pBc S)" "To b \<noteq> snapshotHeadKey" "BlockTypeOf b \<noteq> GENESIS"
    "snapshot_known (pBc S) b" "self_ok (pBc S) b" "from_ok (pBc S) b"
    "AccountInsertCallback (acListener (acOf (pBc S) a)) b (reqs (pBc S)) = Some r"
    "\<And>p. pendingAc S a = Some p \<Longrightarrow> currentOf p \<noteq> None"
  shows "\<exists>S' bc. AddDirectAccountBlock a b S = Some (None, S') \<and> same_chain (pBc S) bc \<and> InsertAccountBlock a b bc = Some (None, pBc S') \<and>
    reqs (pBc S') = r \<and> (\<forall>x. x \<noteq> a \<longrightarrow> pendingAc S' x = pendingAc S x) \<and> pendingAc S' a \<noteq> None"
proof -
  obtain stat bc where v: "VerifyReferred_ac (pVer S) (pClock S) b (pBc S) = Some (stat, bc)" "same_chain (pBc S) bc"
    using VerifyReferred_ac_returns [OF assms(2,3)] by blast
  have ok: "VerifyResult_ac stat = SUCCESS" using VerifyReferred_ac_SUCCESS_iff' [OF v(1) assms(4)] assms(5-7) by simp
  have rq: "reqs bc = reqs (pBc S)" using v(2) by (simp add: same_chain_def)
  then have cb: "AccountInsertCallback (acListener (acOf bc a)) b (reqs bc) = Some r" using assms(8) same_chainD(2) [OF v(2)] by simp
  then have "insertChain_ac b (acOf bc a) (store bc) (reqs bc) \<noteq> None" by (simp add: insertChain_ac_panics_iff)
  then obtain bc' where ins: "InsertAccountBlock a b bc = Some (None, bc')" by (auto simp: InsertAccountBlock_def)
  have "reqs bc' = r" using InsertAccountBlock_Some(5) [OF ins] insertChain_ac_Some(2) cb by fastforce
  then show ?thesis
    using AddDirectAccountBlock_accepts [of S b a stat bc bc'] v ok ins assms(1,9) by (cases "pendingAc S a") auto
qed

lemma AddDirectAccountBlock_refused:
  assumes "touch (pBc S) a = pBc S" "chain_inv (pBc S)" "To b \<noteq> snapshotHeadKey" "BlockTypeOf b \<noteq> GENESIS"
    "\<not> (snapshot_known (pBc S) b \<and> self_ok (pBc S) b \<and> from_ok (pBc S) b)"
  shows "\<exists>e S'. AddDirectAccountBlock a b S = Some (Some e, S') \<and> same_chain (pBc S) (pBc S')"
proof -
  obtain stat bc where v: "VerifyReferred_ac (pVer S) (pClock S) b (pBc S) = Some (stat, bc)" "same_chain (pBc S) bc"
    using VerifyReferred_ac_returns [OF assms(2,3)] by blast
  have no: "VerifyResult_ac stat \<noteq> SUCCESS" using VerifyReferred_ac_SUCCESS_iff' [OF v(1) assms(4)] assms(5) by simp
  obtain p S1 where p: "selfPendingAc a S = Some (p, S1)" "pBc S1 = pBc S" "pVer S1 = pVer S" "pClock S1 = pClock S"
  proof (cases "pendingAc S a")
    case None
    obtain t where "Head_disk (accountCh a (pVer S)) (pBc S) = Some t" using Head_disk_account by blast
    then show thesis using None that assms(1)
      by (simp add: selfPendingAc_def newAccountPool_def init_bcp_def init_cp_def genChainId_def Let_def setAc_def)
  qed (use that in \<open>simp add: selfPendingAc_def\<close>)
  show ?thesis using p v no by (cases "VerifyResult_ac stat") (simp_all add: AddDirectAccountBlock_def AddDirectBlock_def setAc_def)
qed

lemma snapshot_known_head:
  assumes "chain_inv bc" "HeadSnapshot bc = Some sn" "SnapshotHeight b = Theight sn" "SnapshotHash b = Thash sn"
  shows "snapshot_known bc b"
proof -
  have "chain_ok (GetSnapshotByHeight (store bc)) (Some sn)"
    using chain_invD(2) [OF assms(1)] assms(2) by (simp add: snapshot_ok_def)
  from chain_okD(1,2) [OF this] show ?thesis using assms(3,4) by (simp add: snapshot_known_def)
qed

lemma HeadSnapshot_touch [simp]: "HeadSnapshot (touch bc a) = HeadSnapshot bc"
  by (simp add: HeadSnapshot_def)

lemma ResponseAccountBlock_holds:
  assumes "chain_inv (pBc (bpool L))" "fro \<noteq> snapshotHeadKey" "to \<noteq> snapshotHeadKey"
    and src: "GetAccountByHash (store (pBc (bpool L))) req = Some src" "Thash src = req"
      "GetAccountByHeight (store (pBc (bpool L))) fro (Theight src) = Some src"
    and fresh: "\<forall>h b. 1 \<le> h \<longrightarrow> GetAccountByHeight (store (pBc (bpool L))) to h = Some b \<longrightarrow> BlockTypeOf b = RECEIVED \<longrightarrow> SourceHash b \<noteq> req"
    and prev: "acHead (acOf (pBc (bpool L)) to) = Some prev"
    and sn: "HeadSnapshot (pBc (bpool L)) = Some sn" "SnapshotHeight src \<le> Theight sn" "SnapshotHeight prev \<le> Theight sn"
    and amount: "- (2 ^ 63) < ModifiedAmount src" "ModifiedAmount src \<le> 0" "0 < Amount prev - ModifiedAmount src"
      "Amount prev - ModifiedAmount src < 2 ^ 63"
    and listen: "acListener (acOf (pBc (bpool L)) to) = defaultChainListener \<or> getReq (reqs (pBc (bpool L))) to req \<noteq> None"
    and pools: "\<forall>p. pendingAc (bpool L) to = Some p \<longrightarrow> currentOf p \<noteq> None"
  shows "\<exists>L' b bc. ResponseAccountBlock fro to req L = Some (None, L') \<and> sent L' = sent L @ [BroadcastAccountBlocks to [b]] \<and>
    same_chain (pBc (bpool L)) bc \<and> InsertAccountBlock to b bc = Some (None, pBc (bpool L')) \<and>
    AccountInsertCallback (acListener (acOf (pBc (bpool L)) to)) b (reqs (pBc (bpool L))) = Some (reqs (pBc (bpool L'))) \<and>
    BlockTypeOf b = RECEIVED \<and> To b = to \<and> SourceHash b = req \<and> Theight b = Theight prev + 1 \<and> TpreHash b = Thash prev \<and>
    Amount b = Amount prev - ModifiedAmount src"
proof -
  let ?bc = "pBc (bpool L)"
  define bc1 where "bc1 = touch (touch ?bc fro) to"
  have same1: "same_chain ?bc bc1" by (simp add: bc1_def)
  have inv1: "chain_inv bc1" by (rule chain_inv_same [OF same1 assms(1)])
  have pw: "address (acOf ?bc a) = a" for a using ac_wf_address [OF chain_invD(1) [OF assms(1)]] .
  have neg: "wrap64 (- ModifiedAmount src) = - ModifiedAmount src"
    "wrap64 (Amount prev + - ModifiedAmount src) = Amount prev - ModifiedAmount src"
    using amount by (simp_all add: wrap64_id int64_range_def)
  define b0 where "b0 = NewAccountBlock (Theight prev + 1) '''' (Thash prev) to (clockSec L)
      (Amount prev - ModifiedAmount src) (- ModifiedAmount src) (Theight sn) (Thash sn) RECEIVED fro to req (Theight src)"
  define b where "b = SetHash (CalculateAccountHash b0) b0"
  have b: "Theight b = Theight prev + 1" "TpreHash b = Thash prev" "Tsigner b = to" "Amount b = Amount prev - ModifiedAmount src"
    "ModifiedAmount b = - ModifiedAmount src" "SnapshotHeight b = Theight sn" "SnapshotHash b = Thash sn" "BlockTypeOf b = RECEIVED"
    "From b = fro" "To b = to" "SourceHash b = req" "SourceHeight b = Theight src"
    by (simp_all add: b_def b0_def SetHash_def NewAccountBlock_def)
  have ok: "chain_ok (GetAccountByHeight (store ?bc) to) (Some prev)"
    using chain_invD(4) [OF assms(1,3)] prev by (simp add: account_ok_def)
  have okf: "chain_ok (GetAccountByHeight (store ?bc) fro) (acHead (acOf ?bc fro))"
    using chain_invD(4) [OF assms(1,2)] by (simp add: account_ok_def)
  have h0: "0 \<le> Theight src" using chain_ok_negative [OF okf, of "Theight src"] src(3) by (cases "0 \<le> Theight src") auto
  let ?S = "(bpool L)\<lparr>pBc := bc1\<rparr>"
  have st: "store bc1 = store ?bc" "acOf bc1 a = acOf ?bc a" "HeadSnapshot bc1 = HeadSnapshot ?bc" "reqs bc1 = reqs ?bc" for a
    by (simp_all add: bc1_def)
  have known: "snapshot_known bc1 b" using snapshot_known_head [OF inv1] sn(1) st(3) b(6,7) by simp
  have "getBySourceBlock (acOf bc1 to) (store bc1) req = Some None"
    using getBySourceBlock_spec [OF inv1 assms(3), of req] fresh st(1) by (auto split: option.splits)
  then have self: "self_ok bc1 b"
    using prev st b sn(3) amount neg(2) chain_okD(1) [OF ok] by (simp add: self_ok_def opens_account_def follows_def)
  have fr: "from_ok bc1 b"
    using src st b sn(2) h0 pw by (simp add: from_ok_def source_ok_def GetBlockByHeight_ac_def wrap64_def)
  have "AccountInsertCallback (acListener (acOf ?bc to)) b (reqs ?bc) \<noteq> None"
    using listen b(10,11) blockInsert_received_iff [OF b(8)] by (cases "acListener (acOf ?bc to)") auto
  then obtain r where r: "AccountInsertCallback (acListener (acOf ?bc to)) b (reqs ?bc) = Some r" by blast
  have tch: "touch bc1 to = bc1" by (simp add: bc1_def)
  obtain S' bc where S': "AddDirectAccountBlock to b ?S = Some (None, S')" "same_chain bc1 bc"
    "InsertAccountBlock to b bc = Some (None, pBc S')" "reqs (pBc S') = r"
    using AddDirectAccountBlock_taken [of ?S to b r] inv1 known self fr r st b assms(3) pools tch by auto
  define L' where "L' = L\<lparr>bpool := S', sent := sent L @ [BroadcastAccountBlocks to [b]]\<rparr>"
  have "ResponseAccountBlock fro to req L = Some (None, L')"
    using src prev sn(1) S'(1) neg pw
    by (simp add: ResponseAccountBlock_def GetAccountByHash_bc_def GetBlockByHash_ac_def HeadAccount_def clockSec_def
        bc1_def [symmetric] b0_def [symmetric, unfolded clockSec_def] b_def [symmetric] L'_def)
  moreover have "same_chain ?bc bc" by (rule same_chain_trans [OF same1 S'(2)])
  ultimately show ?thesis using S'(3,4) r b by (intro exI [of _ L'] exI [of _ b] exI [of _ bc]) (simp add: L'_def)
qed

text \<open>
  A node that answers a send block of the chain which was not received yet produces a
  receive block that its own verifier accepts and its chain inserts: the response is broadcast,
  the balance of the receiver grows by exactly what the send block took, and the request is
  filed as confirmed when the request pool is the listener.
\<close>

theorem ResponseAccountBlock_credits:
  assumes "chain_inv (pBc (bpool L))" "fro \<noteq> snapshotHeadKey" "to \<noteq> snapshotHeadKey"
    and src: "GetAccountByHash (store (pBc (bpool L))) req = Some src" "Thash src = req"
      "GetAccountByHeight (store (pBc (bpool L))) fro (Theight src) = Some src"
    and fresh: "\<forall>h b. 1 \<le> h \<longrightarrow> GetAccountByHeight (store (pBc (bpool L))) to h = Some b \<longrightarrow> BlockTypeOf b = RECEIVED \<longrightarrow> SourceHash b \<noteq> req"
    and prev: "acHead (acOf (pBc (bpool L)) to) = Some prev"
    and sn: "HeadSnapshot (pBc (bpool L)) = Some sn" "SnapshotHeight src \<le> Theight sn" "SnapshotHeight prev \<le> Theight sn"
    and amount: "- (2 ^ 63) < ModifiedAmount src" "ModifiedAmount src \<le> 0" "0 < Amount prev - ModifiedAmount src"
      "Amount prev - ModifiedAmount src < 2 ^ 63"
    and listen: "acListener (acOf (pBc (bpool L)) to) = defaultChainListener \<or> getReq (reqs (pBc (bpool L))) to req \<noteq> None"
    and pools: "\<forall>p. pendingAc (bpool L) to = Some p \<longrightarrow> currentOf p \<noteq> None"
  shows "\<exists>L' b. ResponseAccountBlock fro to req L = Some (None, L') \<and> sent L' = sent L @ [BroadcastAccountBlocks to [b]] \<and>
    fst (GetAccountBalance to L') = Amount prev - ModifiedAmount src \<and>
    (acListener (acOf (pBc (bpool L)) to) = reqPoolListener \<longrightarrow>
       confirmed (reqs (pBc (bpool L'))) to req = Some (NewAccountHashH to (Thash b) (Theight b)))"
proof -
  let ?bc = "pBc (bpool L)"
  obtain L' b bc where L': "ResponseAccountBlock fro to req L = Some (None, L')" "sent L' = sent L @ [BroadcastAccountBlocks to [b]]"
    "InsertAccountBlock to b bc = Some (None, pBc (bpool L'))"
    "AccountInsertCallback (acListener (acOf ?bc to)) b (reqs ?bc) = Some (reqs (pBc (bpool L')))"
    "BlockTypeOf b = RECEIVED" "To b = to" "SourceHash b = req" "Amount b = Amount prev - ModifiedAmount src"
    using ResponseAccountBlock_holds [OF assms] by (elim exE conjE) (rule that)
  have "fst (GetAccountBalance to L') = Amount prev - ModifiedAmount src"
    using InsertAccountBlock_head [OF L'(3)] L'(8) by (simp add: GetAccountBalance_def HeadAccount_def)
  moreover have "confirmed (reqs (pBc (bpool L'))) to req = Some (NewAccountHashH to (Thash b) (Theight b))"
    if "acListener (acOf ?bc to) = reqPoolListener"
    using blockInsert_received_confirms [OF L'(5), of "reqs ?bc"] L'(4,6,7) that by simp
  ultimately show ?thesis using L'(1,2) by blast
qed

section \<open>Witnesses\<close>

definition ex_ledger :: "blockchain \<Rightarrow> ledger" where
  "ex_ledger bc = \<lparr>bpool = ex_pool bc Map.empty, sent = []\<rparr>"

lemma ex_ledger_simps [simp]: "bpool (ex_ledger bc) = ex_pool bc Map.empty" "sent (ex_ledger bc) = []"
  by (simp_all add: ex_ledger_def)

lemma ex_ledger_next:
  "NextAccountSnapshot (pBc (bpool (ex_ledger ex2))) [''viteshan'', ''jie''] = Some (\<lparr>Hash = Thash genesisSnapshot, Height = 0\<rparr>,
     [NewAccountHashH ''viteshan'' ''send1'' 1, NewAccountHashH ''jie'' ''recv1'' 1])"
  using ex2_next by simp

theorem mined_block_accepted_witness:
  "\<exists>b S'. nextSnapshotBlock [''viteshan'', ''jie''] ''miner'' 1533550900 (pBc (ex_pool ex2 Map.empty)) = Some b \<and>
     AddDirectSnapshotBlock b (ex_pool ex2 Map.empty) = Some (None, S') \<and> HeadSnapshot (pBc S') = Some b \<and> Theight b = 1"
proof -
  let ?S = "ex_pool ex2 Map.empty"
  have pts: "spSnapshotHeight q \<le> Height \<lparr>Hash = Thash genesisSnapshot, Height = 0\<rparr>"
    if "ac (pBc ?S) a = Some c" "q \<in> set (snapshotPoint c)" for a c q
    using ex2_points that by simp
  have cur: "chains (chainpool (pendingSc ?S)) (current (chainpool (pendingSc ?S))) = Some (init_fc ''p-1'' Disk genesisSnapshot)"
    by (simp add: ex_pool_def)
  have nxt: "NextAccountSnapshot (pBc ?S) [''viteshan'', ''jie''] = Some (\<lparr>Hash = Thash genesisSnapshot, Height = 0\<rparr>,
     [NewAccountHashH ''viteshan'' ''send1'' 1, NewAccountHashH ''jie'' ''recv1'' 1])" using ex2_next by simp
  have inv: "chain_inv (pBc ?S)" using ex_inv(3) by simp
  show ?thesis
    using mined_block_accepted [of ?S, OF inv nxt _ _ _ cur, of "''miner''" 1533550900] pts by auto
qed

theorem MiningSnapshotBlock_blocks_witness:
  "MiningSnapshotBlock [''viteshan'', ''jie''] ''miner'' 1533550900 (ex_ledger ex2) = Some Blocks"
  by (rule MiningSnapshotBlock_blocks [OF ex_ledger_next])

theorem ResponseAccountBlock_credits_witness:
  "\<exists>L' b. ResponseAccountBlock ''viteshan'' ''jie'' ''send1'' (ex_ledger ex1) = Some (None, L') \<and>
     sent L' = [BroadcastAccountBlocks ''jie'' [b]] \<and> fst (GetAccountBalance ''jie'' L') = 210"
proof -
  have "\<exists>L' b. ResponseAccountBlock ''viteshan'' ''jie'' ''send1'' (ex_ledger ex1) = Some (None, L') \<and>
    sent L' = sent (ex_ledger ex1) @ [BroadcastAccountBlocks ''jie'' [b]] \<and>
    fst (GetAccountBalance ''jie'' L') = Amount (genesisAccountBlock ''jie'') - ModifiedAmount ex_send \<and>
    (acListener (acOf (pBc (bpool (ex_ledger ex1))) ''jie'') = reqPoolListener \<longrightarrow>
       confirmed (reqs (pBc (bpool L'))) ''jie'' ''send1'' = Some (NewAccountHashH ''jie'' (Thash b) (Theight b)))"
    by (rule ResponseAccountBlock_credits [where sn = genesisSnapshot])
      (use ex_inv(2) ex1_hash ex1_listener in \<open>auto simp: ex_get split: if_splits\<close>)
  then show ?thesis by auto
qed

end
