(* ===== verification/Consensus.thy ===== *)
theory Consensus
  imports Common_Types "HOL-Library.Signed_Division"
begin

text \<open>
  The election of snapshot producers, \<open>consensus/hdpos.go\<close>: time is cut into rounds, a round
  gives every member one slot, and a snapshot block is valid when its signer made it at the
  start of its own slot.

  Times are Unix seconds: the genesis time is the timestamp of the genesis snapshot block and
  a block is checked by its second, so every difference is a whole number of seconds, which
  \<open>Duration.Seconds\<close> returns exactly. \<open>Time.Sub\<close> saturates at the limits of a 64-bit count of
  nanoseconds. Rounds are numbered with 32 bits. \<^const>\<open>None\<close> is the panic of a division by
  zero.
\<close>

section \<open>Rounds and plans\<close>

definition DefaultMembers :: "string list" where
  "DefaultMembers =
     [''vite_2ad661b3b5fa90af7703936ba36f8093ef4260aaaeb5f15cf8'',
      ''vite_1cb2ab2738cd913654658e879bef8115eb1aa61a9be9d15c3a'',
      ''vite_2ad1b8f936f015fc80a2a5857dffb84b39f7675ab69ae31fc8'',
      ''vite_85e8adb768aed85f2445eb1d71b933370d2980916baa3c1f3c'',
      ''vite_93dd41694edd756512da7c4af429f3e875c374a53bfd217e00'']"

record membersInfo =
  genesisTime :: int
  memberCnt :: int
  interval :: int

record memberPlan =
  planTime :: int
  member :: string

record electionResult =
  plans :: "memberPlan list"
  sTime :: int
  eTime :: int
  electIndex :: int

text \<open>The loop over the members: each plan starts one interval after the one before.\<close>

fun genPlans :: "int \<Rightarrow> int \<Rightarrow> string list \<Rightarrow> memberPlan list \<times> int" where
  "genPlans step t [] = ([], t)"
| "genPlans step t (m # ms) =
     (let (ps, end) = genPlans step (t + step) ms in (\<lparr>planTime = t, member = m\<rparr> # ps, end))"

definition genPlan :: "membersInfo \<Rightarrow> int \<Rightarrow> string list \<Rightarrow> electionResult" where
  "genPlan info index members =
     (let planInterval = wrap32 (interval info * memberCnt info);
          t0 = genesisTime info + wrap32 (planInterval * index);
          (ps, end) = genPlans (interval info) t0 members
      in \<lparr>plans = ps, sTime = t0, eTime = end, electIndex = index\<rparr>)"

text \<open>The seconds of \<open>t.Sub(g)\<close>, which saturates.\<close>

definition subSec :: "int \<Rightarrow> int \<Rightarrow> int" where
  "subSec t g =
     (let d = (t - g) * 1000000000
      in if d > 2 ^ 63 - 1 then 9223372036 else if d < - (2 ^ 63) then -9223372036 else t - g)"

definition time2Index :: "membersInfo \<Rightarrow> int \<Rightarrow> int option" where
  "time2Index info t =
     (let planInterval = wrap32 (interval info * memberCnt info)
      in if planInterval = 0 then None
         else Some (wrap32 (subSec t (genesisTime info) sdiv planInterval)))"

section \<open>The teller and the committee\<close>

record teller =
  info :: membersInfo
  electionHis :: "int \<rightharpoonup> electionResult"

definition newTeller :: "int \<Rightarrow> int \<Rightarrow> int \<Rightarrow> teller" where
  "newTeller genesis itv cnt =
     \<lparr>info = \<lparr>genesisTime = genesis, memberCnt = cnt, interval = itv\<rparr>, electionHis = Map.empty\<rparr>"

definition voteResults :: "string list" where
  "voteResults = DefaultMembers"

definition electionIndex :: "int \<Rightarrow> teller \<Rightarrow> electionResult \<times> teller" where
  "electionIndex index t =
     (case electionHis t index of
        Some r \<Rightarrow> (r, t)
      | None \<Rightarrow> (let r = genPlan (info t) index voteResults
                 in (r, t\<lparr>electionHis := (electionHis t)(index \<mapsto> r)\<rparr>)))"

definition electionTime :: "int \<Rightarrow> teller \<Rightarrow> (electionResult \<times> teller) option" where
  "electionTime time t = do { index \<leftarrow> time2Index (info t) time; Some (electionIndex index t) }"

definition removePrevious :: "int \<Rightarrow> int list \<Rightarrow> teller \<Rightarrow> int \<times> teller" where
  "removePrevious rtime order t =
     fold (\<lambda>k (i, t). case electionHis t k of
              Some v \<Rightarrow> if eTime v < rtime then (wrap32 (i + 1), t\<lparr>electionHis := (electionHis t)(k := None)\<rparr>) else (i, t)
            | None \<Rightarrow> (i, t)) order (0, t)"

definition verifyProducer :: "SnapshotBlock \<Rightarrow> teller \<Rightarrow> (bool \<times> teller) option" where
  "verifyProducer header t =
     do {
       (r, t1) \<leftarrow> electionTime (Ttimestamp header) t;
       Some (case find (\<lambda>p. member p = Tsigner header) (plans r) of
               None \<Rightarrow> False
             | Some p \<Rightarrow> planTime p = Ttimestamp header, t1)
     }"

definition Verify :: "SnapshotBlock \<Rightarrow> teller \<Rightarrow> (bool \<times> teller) option" where
  "Verify header t =
     do { (res, t1) \<leftarrow> verifyProducer header t; Some (if res then True else False, t1) }"

record Committee =
  committeeTeller :: teller
  subscribeMem :: "string option"
  lastIndex :: int
  lastRemoveTime :: int

definition NewCommittee :: "int \<Rightarrow> int \<Rightarrow> int \<Rightarrow> int \<Rightarrow> Committee" where
  "NewCommittee genesis itv cnt now =
     \<lparr>committeeTeller = newTeller genesis itv cnt, subscribeMem = None, lastIndex = -1, lastRemoveTime = now\<rparr>"

definition Subscribe :: "string option \<Rightarrow> Committee \<Rightarrow> Committee" where
  "Subscribe mem c = c\<lparr>subscribeMem := mem\<rparr>"

text \<open>
  One round of the goroutine that tells the miner when to work, with the clock read in whole
  seconds. \<open>now\<close> is the time at its start
  and \<open>later\<close> the time at its end; \<open>taken\<close> says whether the miner took the notification
  before the end of the round. The result lists the notification, if one was offered, and the
  time until which the round sleeps.
\<close>

definition update_round ::
  "int \<Rightarrow> int \<Rightarrow> bool \<Rightarrow> int list \<Rightarrow> Committee \<Rightarrow> (int option \<times> int \<times> Committee) option" where
  "update_round now later taken order c =
     do {
       (r, t1) \<leftarrow> electionTime now (committeeTeller c);
       let c1 = c\<lparr>committeeTeller := t1\<rparr>;
       if electIndex r \<le> lastIndex c1 then Some (None, eTime r, c1)
       else case subscribeMem c1 of
         None \<Rightarrow> Some (None, eTime r, c1)
       | Some mem \<Rightarrow>
           (let cur = find (\<lambda>p. member p = mem) (plans r);
                clear = (\<lambda>c. if lastRemoveTime c < later - 3600
                             then c\<lparr>committeeTeller := snd (removePrevious (later - 3600) order (committeeTeller c)),
                                    lastRemoveTime := later - 3600\<rparr>
                             else c)
            in case cur of
                 Some p \<Rightarrow>
                   if lastIndex c1 \<noteq> -1 then
                     if taken then Some (Some (planTime p), eTime r, clear (c1\<lparr>lastIndex := electIndex r\<rparr>))
                     else Some (None, eTime r, c1)
                   else Some (None, eTime r, clear (c1\<lparr>lastIndex := electIndex r\<rparr>))
               | None \<Rightarrow> Some (None, eTime r, clear (c1\<lparr>lastIndex := electIndex r\<rparr>)))
     }"

section \<open>Rounds that do not panic\<close>

text \<open>
  What the goroutine and the other users of the committee do to it: rounds, subscriptions and
  checks of blocks, in any order.
\<close>

inductive update_run :: "Committee \<Rightarrow> Committee \<Rightarrow> bool" for c where
  here: "update_run c c"
| round: "update_run c c1 \<Longrightarrow> update_round now later taken order c1 = Some (x, e, c2) \<Longrightarrow> update_run c c2"
| subscribe: "update_run c c1 \<Longrightarrow> update_run c (Subscribe mem c1)"
| check: "update_run c c1 \<Longrightarrow> verifyProducer b (committeeTeller c1) = Some (r, t) \<Longrightarrow> update_run c (c1\<lparr>committeeTeller := t\<rparr>)"

lemma info_electionIndex [simp]: "info (snd (electionIndex i t)) = info t"
  by (simp add: electionIndex_def Let_def split: option.split)

lemma info_electionTime: "electionTime now t = Some (r, t') \<Longrightarrow> info t' = info t"
  by (auto simp: electionTime_def electionIndex_def Let_def split: Option.bind_splits option.splits)

lemma info_removePrevious [simp]: "info (snd (removePrevious rtime order t)) = info t"
proof -
  have "info (snd (fold (\<lambda>k (i, t). case electionHis t k of
              Some v \<Rightarrow> if eTime v < rtime then (wrap32 (i + 1), t\<lparr>electionHis := (electionHis t)(k := None)\<rparr>) else (i, t)
            | None \<Rightarrow> (i, t)) order (i, t))) = info t" for i
    by (induction order arbitrary: i t) (auto split: option.split)
  then show ?thesis by (simp add: removePrevious_def)
qed

lemma info_update_round:
  "update_round now later taken order c = Some (x, e, c') \<Longrightarrow> info (committeeTeller c') = info (committeeTeller c)"
  by (auto simp: update_round_def Let_def split: if_splits option.splits Option.bind_splits dest!: info_electionTime)

lemma update_run_info: "update_run c c' \<Longrightarrow> info (committeeTeller c') = info (committeeTeller c)"
proof (induction rule: update_run.induct)
  case (round c1 now later taken order x e c2)
  then show ?case using info_update_round by simp
next
  case (check c1 b r t)
  then show ?case by (auto simp: verifyProducer_def split: Option.bind_splits dest!: info_electionTime)
qed (simp_all add: Subscribe_def)

text \<open>A round panics exactly when the length of a round of the election is 0 in 32 bits.\<close>

lemma update_round_panics_iff:
  "update_round now later taken order c = None \<longleftrightarrow>
     wrap32 (interval (info (committeeTeller c)) * memberCnt (info (committeeTeller c))) = 0"
proof (cases "time2Index (info (committeeTeller c)) now")
  case None
  then show ?thesis by (simp add: update_round_def electionTime_def time2Index_def Let_def split: if_splits)
next
  case (Some idx)
  then have "update_round now later taken order c \<noteq> None"
    by (simp add: update_round_def electionTime_def Let_def case_prod_beta split: option.split)
  moreover have "wrap32 (interval (info (committeeTeller c)) * memberCnt (info (committeeTeller c))) \<noteq> 0"
    using Some by (auto simp: time2Index_def Let_def)
  ultimately show ?thesis by simp
qed

text \<open>With an interval or a member count of 0 the first round panics, at whatever time.\<close>

lemma zero_interval_panics:
  assumes "itv = 0 \<or> cnt = 0"
  shows "update_round now later taken order (NewCommittee genesis itv cnt start) = None"
  unfolding update_round_panics_iff using assms by (auto simp: NewCommittee_def newTeller_def wrap32_def)

section \<open>Who may produce when\<close>

lemma genPlans_nth:
  "length (fst (genPlans step t ms)) = length ms \<and> snd (genPlans step t ms) = t + step * int (length ms) \<and>
   (\<forall>i < length ms. fst (genPlans step t ms) ! i = \<lparr>planTime = t + step * int i, member = ms ! i\<rparr>)"
proof (induction ms arbitrary: t)
  case (Cons m ms)
  have "fst (genPlans step t (m # ms)) = \<lparr>planTime = t, member = m\<rparr> # fst (genPlans step (t + step) ms)"
    "snd (genPlans step t (m # ms)) = snd (genPlans step (t + step) ms)" by (simp_all add: case_prod_beta)
  then show ?case using Cons.IH [of "t + step"] by (auto simp: nth_Cons algebra_simps split: nat.split)
qed simp

text \<open>The history never holds anything but the plan of its round.\<close>

definition history_ok :: "teller \<Rightarrow> bool" where
  "history_ok t \<longleftrightarrow> (\<forall>i r. electionHis t i = Some r \<longrightarrow> r = genPlan (info t) i voteResults)"

lemma history_newTeller [simp]: "history_ok (newTeller g i c)"
  by (simp add: history_ok_def newTeller_def)

lemma electionIndex_ok:
  assumes "history_ok t"
  shows "fst (electionIndex i t) = genPlan (info t) i voteResults" "history_ok (snd (electionIndex i t))"
    "info (snd (electionIndex i t)) = info t"
  using assms by (auto simp: electionIndex_def history_ok_def Let_def split: option.split)

lemma distinct_members: "distinct DefaultMembers" "length DefaultMembers = 5"
  by (simp_all add: DefaultMembers_def)

lemma find_nth:
  assumes "distinct (map f xs)" "i < length xs"
  shows "find (\<lambda>x. f x = f (xs ! i)) xs = Some (xs ! i)"
  using assms
proof (induction xs arbitrary: i)
  case (Cons x xs)
  show ?case
  proof (cases i)
    case (Suc j)
    then have "f (xs ! j) \<in> set (map f xs)" using Cons.prems(2) by simp
    then have "f x \<noteq> f (xs ! j)" using Cons.prems(1) by auto
    then show ?thesis using Cons Suc by simp
  qed simp
qed simp

text \<open>The reference: the members take turns, one interval each, from the genesis time on.\<close>

definition on_turn :: "membersInfo \<Rightarrow> int \<Rightarrow> string \<Rightarrow> bool" where
  "on_turn mi t who \<longleftrightarrow> interval mi dvd (t - genesisTime mi) \<and>
     who = DefaultMembers ! nat ((t - genesisTime mi) div interval mi mod memberCnt mi)"

text \<open>The plan of a member in the list of plans of a round.\<close>

lemma plan_find:
  assumes "i < 5"
  shows "find (\<lambda>p. member p = DefaultMembers ! i) (plans (genPlan mi idx voteResults)) =
     Some \<lparr>planTime = sTime (genPlan mi idx voteResults) + interval mi * int i, member = DefaultMembers ! i\<rparr>"
proof -
  let ?t = "genesisTime mi + wrap32 (wrap32 (interval mi * memberCnt mi) * idx)"
  let ?ps = "fst (genPlans (interval mi) ?t DefaultMembers)"
  note g = genPlans_nth [of "interval mi" ?t DefaultMembers]
  note len = distinct_members(2)
  have "map member ?ps = DefaultMembers" using g by (intro nth_equalityI) auto
  then have "distinct (map member ?ps)" using distinct_members(1) by simp
  moreover have p: "?ps ! i = \<lparr>planTime = ?t + interval mi * int i, member = DefaultMembers ! i\<rparr>" using g assms len by simp
  ultimately have "find (\<lambda>p. member p = DefaultMembers ! i) ?ps = Some (?ps ! i)"
    using find_nth [of member ?ps i] g assms len by simp
  then show ?thesis by (simp add: genPlan_def Let_def voteResults_def case_prod_beta p)
qed

lemma plan_find_None:
  assumes "who \<notin> set DefaultMembers"
  shows "find (\<lambda>p. member p = who) (plans (genPlan mi idx voteResults)) = None"
proof -
  let ?t = "genesisTime mi + wrap32 (wrap32 (interval mi * memberCnt mi) * idx)"
  note g = genPlans_nth [of "interval mi" ?t DefaultMembers]
  have "map member (fst (genPlans (interval mi) ?t DefaultMembers)) = DefaultMembers" using g by (intro nth_equalityI) auto
  then have "who \<notin> member ` set (fst (genPlans (interval mi) ?t DefaultMembers))" using assms by (metis set_map)
  then show ?thesis by (auto simp: find_None_iff genPlan_def Let_def voteResults_def case_prod_beta)
qed

text \<open>The round that contains a time, as long as nothing overflows.\<close>

definition in_range :: "membersInfo \<Rightarrow> int \<Rightarrow> bool" where
  "in_range mi t \<longleftrightarrow> 0 < interval mi \<and> memberCnt mi = 5 \<and> interval mi * 5 < 2 ^ 31 \<and>
     0 \<le> t - genesisTime mi \<and> t - genesisTime mi < 2 ^ 31"

lemma round_of:
  assumes "in_range mi t"
  defines "idx \<equiv> (t - genesisTime mi) div (interval mi * 5)"
  shows "time2Index mi t = Some idx" "sTime (genPlan mi idx ms) = genesisTime mi + interval mi * 5 * idx"
proof -
  let ?d = "t - genesisTime mi" and ?P = "interval mi * 5"
  have r: "0 < ?P" "?P < 2 ^ 31" "0 \<le> ?d" "?d < 2 ^ 31" "memberCnt mi = 5" using assms by (auto simp: in_range_def)
  have wP: "wrap32 (interval mi * memberCnt mi) = ?P" using r by (simp add: wrap32_id int32_range_def)
  have "?P * idx + ?d mod ?P = ?d" unfolding idx_def by (rule mult_div_mod_eq)
  moreover have "0 \<le> ?d mod ?P" using r(1) by (rule pos_mod_sign)
  ultimately have idx: "0 \<le> idx" "?P * idx \<le> ?d"
    using pos_imp_zdiv_nonneg_iff [OF r(1), of ?d] r(3) by (fold idx_def) linarith+
  moreover have "1 * idx \<le> ?P * idx" using r(1) idx(1) by (intro mult_right_mono) simp_all
  ultimately have idx': "idx \<le> ?d" by simp
  have "0 \<le> ?P * idx" using r(1) idx(1) by (intro mult_nonneg_nonneg) simp_all
  then have "int32_range idx" "int32_range (?P * idx)"
    unfolding int32_range_def using r(4) idx idx' by linarith+
  then have w: "wrap32 idx = idx" "wrap32 (?P * idx) = ?P * idx" by (simp_all only: wrap32_id)
  have "subSec t (genesisTime mi) = ?d" using r by (simp add: subSec_def Let_def)
  moreover have "?d sdiv ?P = idx" using r by (cases "?d = 0") (simp_all add: idx_def signed_divide_int_def)
  ultimately show "time2Index mi t = Some idx" using wP r w(1) by (simp add: time2Index_def Let_def)
  show "sTime (genPlan mi idx ms) = genesisTime mi + ?P * idx"
    using wP w(2) by (simp add: genPlan_def Let_def case_prod_beta)
qed

lemma verifyProducer_holds:
  assumes "history_ok t" "in_range (info t) (Ttimestamp h)"
  shows "\<exists>t'. verifyProducer h t = Some (on_turn (info t) (Ttimestamp h) (Tsigner h), t') \<and> history_ok t' \<and> info t' = info t"
proof -
  let ?mi = "info t" and ?d = "Ttimestamp h - genesisTime (info t)"
  define idx where "idx = ?d div (interval ?mi * 5)"
  define r where "r = genPlan ?mi idx voteResults"
  note rd = round_of [OF assms(2), folded idx_def]
  let ?t' = "snd (electionIndex idx t)"
  note len = distinct_members(2)
  have pos: "0 < interval ?mi" "memberCnt ?mi = 5" using assms(2) by (simp_all add: in_range_def)
  have "verifyProducer h t = Some (case find (\<lambda>p. member p = Tsigner h) (plans r) of
       None \<Rightarrow> False | Some p \<Rightarrow> planTime p = Ttimestamp h, ?t')"
    using rd(1) electionIndex_ok(1) [OF assms(1), of idx]
    by (simp add: verifyProducer_def electionTime_def r_def case_prod_beta)
  moreover have "(case find (\<lambda>p. member p = Tsigner h) (plans r) of None \<Rightarrow> False | Some p \<Rightarrow> planTime p = Ttimestamp h) =
      on_turn ?mi (Ttimestamp h) (Tsigner h)"
  proof (cases "Tsigner h \<in> set DefaultMembers")
    case False
    have "nat (?d div interval ?mi mod 5) < 5" by (simp add: nat_less_iff)
    then have "\<not> on_turn ?mi (Ttimestamp h) (Tsigner h)" using False len pos(2) by (auto simp: on_turn_def)
    then show ?thesis using plan_find_None [OF False] by (simp add: r_def)
  next
    case True
    then obtain i where i: "i < 5" "Tsigner h = DefaultMembers ! i" using len by (metis in_set_conv_nth)
    have "(case find (\<lambda>p. member p = Tsigner h) (plans r) of None \<Rightarrow> False | Some p \<Rightarrow> planTime p = Ttimestamp h) \<longleftrightarrow>
        ?d = interval ?mi * (5 * idx + int i)"
      using plan_find [OF i(1), of ?mi idx] i(2) rd(2) by (auto simp: r_def algebra_simps)
    also have "\<dots> \<longleftrightarrow> interval ?mi dvd ?d \<and> ?d div interval ?mi mod 5 = int i"
    proof
      assume d: "?d = interval ?mi * (5 * idx + int i)"
      then have "?d div interval ?mi = 5 * idx + int i" using pos(1) by simp
      then show "interval ?mi dvd ?d \<and> ?d div interval ?mi mod 5 = int i" using d i(1) by simp
    next
      assume a: "interval ?mi dvd ?d \<and> ?d div interval ?mi mod 5 = int i"
      then have "?d = interval ?mi * (?d div interval ?mi)" by simp
      moreover have "?d div interval ?mi = 5 * (?d div interval ?mi div 5) + int i" using a by (metis mult_div_mod_eq)
      moreover have "?d div interval ?mi div 5 = idx" using pos(1) by (simp add: idx_def zdiv_zmult2_eq)
      ultimately show "?d = interval ?mi * (5 * idx + int i)" by metis
    qed
    also have "\<dots> \<longleftrightarrow> on_turn ?mi (Ttimestamp h) (Tsigner h)"
    proof -
      have "nat (?d div interval ?mi mod 5) < 5" by (simp add: nat_less_iff)
      then have "DefaultMembers ! i = DefaultMembers ! nat (?d div interval ?mi mod 5) \<longleftrightarrow> i = nat (?d div interval ?mi mod 5)"
        using distinct_members(1) i(1) len by (simp add: nth_eq_iff_index_eq)
      also have "\<dots> \<longleftrightarrow> ?d div interval ?mi mod 5 = int i" by auto
      finally show ?thesis using pos(2) i(2) by (auto simp: on_turn_def)
    qed
    finally show ?thesis .
  qed
  ultimately show ?thesis using electionIndex_ok(2,3) [OF assms(1), of idx] by simp
qed

text \<open>
  C30. Up to 2^31 seconds after genesis, and with as many members as the round has slots, the
  consensus accepts a snapshot block exactly when its timestamp is a whole number of intervals
  after genesis and its signer is the member whose turn that interval is, the members taking
  turns in order; the history of rounds it keeps does not influence the answer.
\<close>

theorem verifyProducer_on_turn:
  assumes "history_ok t" "in_range (info t) (Ttimestamp h)"
  shows "\<exists>t'. verifyProducer h t = Some (on_turn (info t) (Ttimestamp h) (Tsigner h), t') \<and> history_ok t' \<and> info t' = info t"
  by (rule verifyProducer_holds [OF assms])

text \<open>
  The bound is needed: in the first round after 2^31 seconds the product of the round length
  and the round number overflows its 32 bits, and nobody can produce a block any more.
\<close>

lemma verifyProducer_overflow:
  "\<exists>t'. verifyProducer (NewSnapshotBlock n hash pre who (g + 2147483650) as) (newTeller g 1 5) = Some (False, t')"
proof -
  let ?h = "NewSnapshotBlock n hash pre who (g + 2147483650) as" and ?t = "newTeller g 1 5"
  let ?r = "genPlan (info ?t) 429496730 voteResults"
  have "time2Index (info ?t) (g + 2147483650) = Some 429496730"
    by (simp add: time2Index_def newTeller_def subSec_def wrap32_def signed_divide_int_def)
  moreover have "fst (electionIndex 429496730 ?t) = ?r" using electionIndex_ok(1) [OF history_newTeller] by simp
  moreover have "sTime ?r = g - 2147483646"
    by (simp add: genPlan_def newTeller_def wrap32_def Let_def case_prod_beta)
  moreover have "case find (\<lambda>p. member p = who) (plans ?r) of None \<Rightarrow> True | Some p \<Rightarrow> planTime p < sTime ?r + 5"
  proof (cases "who \<in> set DefaultMembers")
    case True
    then obtain i where "i < 5" "who = DefaultMembers ! i" using distinct_members(2) by (metis in_set_conv_nth)
    then show ?thesis using plan_find [of i "info ?t" 429496730] by (simp add: newTeller_def)
  qed (simp add: plan_find_None)
  ultimately show ?thesis
    by (auto simp: verifyProducer_def electionTime_def NewSnapshotBlock_def case_prod_beta split: option.splits)
qed

theorem verifyProducer_on_turn_witness:
  "\<exists>t'. verifyProducer (NewSnapshotBlock 1 ''h'' ''p'' ''vite_2ad1b8f936f015fc80a2a5857dffb84b39f7675ab69ae31fc8'' 1533550915 [])
     (newTeller 1533550878 1 5) = Some (True, t')"
proof -
  let ?h = "NewSnapshotBlock 1 ''h'' ''p'' ''vite_2ad1b8f936f015fc80a2a5857dffb84b39f7675ab69ae31fc8'' 1533550915 []"
  let ?t = "newTeller 1533550878 1 5"
  have "in_range (info ?t) (Ttimestamp ?h)" by (simp add: in_range_def newTeller_def NewSnapshotBlock_def)
  moreover have "on_turn (info ?t) (Ttimestamp ?h) (Tsigner ?h)"
    by (simp add: on_turn_def newTeller_def NewSnapshotBlock_def DefaultMembers_def)
  ultimately show ?thesis using verifyProducer_on_turn [OF history_newTeller, of 1533550878 1 5 ?h] by auto
qed

end
