(* ===== verification/Lifecycle.thy ===== *)
theory Lifecycle
  imports Go_Prelude
begin

text \<open>
  Locks and life cycles: \<open>common/lock.go\<close>, \<open>common/lifecycle.go\<close> and the life cycle of the
  miner in \<open>miner/miner.go\<close>. Every operation ends with a compare-and-swap, which is where it
  takes effect, so a method is a function on the atomic fields; a loop that retries its
  compare-and-swap until no other goroutine interferes is the run that succeeds. A method
  that spins for ever, or panics, is \<^const>\<open>None\<close>.
\<close>

definition CompareAndSwap :: "int \<Rightarrow> int \<Rightarrow> int \<Rightarrow> bool \<times> int" where
  "CompareAndSwap old new x = (if x = old then (True, new) else (False, x))"

section \<open>The lock that is only tried\<close>

definition TryLock :: "int \<Rightarrow> bool \<times> int" where
  "TryLock b = CompareAndSwap 0 1 b"

definition UnLock :: "int \<Rightarrow> bool \<times> int" where
  "UnLock b = CompareAndSwap 1 0 b"

text \<open>
  The goroutines that use one lock: each tries it when it does not hold it, and releases it
  when it does. The state is the field of the lock and the goroutines inside.
\<close>

inductive lock_step :: "int \<times> 'p set \<Rightarrow> int \<times> 'p set \<Rightarrow> bool" where
  enter: "t \<notin> P \<Longrightarrow> TryLock b = (True, b') \<Longrightarrow> lock_step (b, P) (b', insert t P)"
| busy: "t \<notin> P \<Longrightarrow> TryLock b = (False, b') \<Longrightarrow> lock_step (b, P) (b', P)"
| leave: "t \<in> P \<Longrightarrow> UnLock b = (r, b') \<Longrightarrow> lock_step (b, P) (b', P - {t})"

inductive_cases lock_stepE: "lock_step s s'"

inductive lock_reachable :: "int \<times> 'p set \<Rightarrow> bool" where
  init: "lock_reachable (0, {})"
| step: "lock_reachable s \<Longrightarrow> lock_step s s' \<Longrightarrow> lock_reachable s'"

lemma lock_inv:
  "lock_reachable s \<Longrightarrow> (fst s = 0 \<and> snd s = {}) \<or> (fst s = 1 \<and> (\<exists>t. snd s = {t}))"
proof (induction rule: lock_reachable.induct)
  case (step s s')
  from step.hyps(2) step.IH show ?case
    by (cases rule: lock_step.cases) (auto simp: TryLock_def UnLock_def CompareAndSwap_def split: if_splits)
qed simp

text \<open>
  At most one goroutine is inside the lock, in every interleaving; and the lock is never
  lost: whenever nobody is inside, the next attempt to enter succeeds, and whoever is inside
  can leave.
\<close>

theorem NonBlockLock_exclusive:
  assumes "lock_reachable (b, P)"
  shows "(\<forall>t \<in> P. P = {t}) \<and> (P = {} \<longrightarrow> TryLock b = (True, 1)) \<and> (P \<noteq> {} \<longrightarrow> UnLock b = (True, 0))"
  using lock_inv [OF assms] by (auto simp: TryLock_def UnLock_def CompareAndSwap_def)

section \<open>The read-write lock\<close>

record RWLock =
  rwR :: int
  rwW :: int

definition TryRLock :: "RWLock \<Rightarrow> bool \<times> RWLock" where
  "TryRLock l = (let i = rwR l in if i < 0 then (False, l) else (True, l\<lparr>rwR := wrap32 (i + 1)\<rparr>))"

definition UnRLock :: "RWLock \<Rightarrow> bool \<times> RWLock" where
  "UnRLock l = (let i = rwR l in if i < 0 then (False, l) else (True, l\<lparr>rwR := wrap32 (i - 1)\<rparr>))"

definition TryWLock :: "RWLock \<Rightarrow> bool \<times> RWLock" where
  "TryWLock l =
     (if rwR l > 0 then (False, l)
      else (let (ok, r) = CompareAndSwap 0 (-1) (rwR l) in (ok, l\<lparr>rwR := r\<rparr>)))"

definition WLock :: "RWLock \<Rightarrow> (bool \<times> RWLock) option" where
  "WLock l = (let (ok, r) = CompareAndSwap 0 (-1) (rwR l) in if ok then Some (True, l\<lparr>rwR := r\<rparr>) else None)"

definition UnWLock :: "RWLock \<Rightarrow> bool \<times> RWLock" where
  "UnWLock l = (let (ok, w) = CompareAndSwap (-1) 0 (rwW l) in (ok, l\<lparr>rwW := w\<rparr>))"

lemmas rwlock_defs = TryRLock_def UnRLock_def TryWLock_def UnWLock_def WLock_def CompareAndSwap_def

text \<open>Any sequence of calls of the methods that return, from the zero value of the lock.\<close>

inductive rw_reachable :: "RWLock \<Rightarrow> bool" where
  zero: "rw_reachable \<lparr>rwR = 0, rwW = 0\<rparr>"
| call: "rw_reachable l \<Longrightarrow> f \<in> {TryRLock, UnRLock, TryWLock, UnWLock} \<Longrightarrow> rw_reachable (snd (f l))"
| wlock: "rw_reachable l \<Longrightarrow> WLock l = Some (b, l') \<Longrightarrow> rw_reachable l'"

lemma rw_reachable_w: "rw_reachable l \<Longrightarrow> rwW l = 0"
  by (induction rule: rw_reachable.induct) (auto simp: rwlock_defs Let_def split: if_splits)

text \<open>
  A write lock that was taken once is never released: \<open>UnWLock\<close> answers false and changes
  nothing, every further attempt to lock for reading or writing fails, the waiting
  variant spins for ever, and no call leads out of this state.
\<close>

theorem write_lock_stuck:
  assumes "rw_reachable l0" "TryWLock l0 = (True, l)"
  shows "UnWLock l = (False, l) \<and> TryRLock l = (False, l) \<and> UnRLock l = (False, l) \<and> TryWLock l = (False, l) \<and> WLock l = None"
proof -
  have "rwW l = 0" "rwR l = -1"
    using assms rw_reachable_w [OF assms(1)] by (auto simp: rwlock_defs split: if_splits)
  then show ?thesis by (simp add: rwlock_defs)
qed

section \<open>Life cycles\<close>

datatype phase = PreInit | PostInit | PreStart | PostStart | PreStop | PostStop

definition phases :: "phase list" where
  "phases = [PreInit, PostInit, PreStart, PostStart, PreStop, PostStop]"

fun transition :: "phase \<Rightarrow> int \<times> int" where
  "transition PreInit = (0, 1)"
| "transition PostInit = (1, 2)"
| "transition PreStart = (2, 3)"
| "transition PostStart = (3, 4)"
| "transition PreStop = (4, 5)"
| "transition PostStop = (5, 6)"

text \<open>The six methods of \<open>LifecycleStatus\<close> differ only in the two states.\<close>

definition enter_phase :: "phase \<Rightarrow> int \<Rightarrow> int option" where
  "enter_phase p S =
     (let (old, new) = transition p; (ok, S1) = CompareAndSwap old new S in if ok then Some S1 else None)"

definition Stopped :: "int \<Rightarrow> bool" where
  "Stopped S = (S = 6)"

fun run_phases :: "phase list \<Rightarrow> int \<Rightarrow> int option" where
  "run_phases [] S = Some S"
| "run_phases (p # ps) S = do { S1 \<leftarrow> enter_phase p S; run_phases ps S1 }"

lemma enter_phase_iff: "enter_phase p (int n) = Some S \<longleftrightarrow> n < 6 \<and> p = phases ! n \<and> S = int (Suc n)"
proof -
  have "n = 0 \<or> n = 1 \<or> n = 2 \<or> n = 3 \<or> n = 4 \<or> n = 5 \<or> 6 \<le> n" by linarith
  then show ?thesis
    by (elim disjE; cases p) (auto simp: enter_phase_def CompareAndSwap_def phases_def)
qed

lemma run_phases_from:
  "run_phases ps (int n) = Some S \<longleftrightarrow> (\<exists>k. n + k \<le> max n 6 \<and> ps = take k (drop n phases) \<and> S = int (n + k))"
proof (induction ps arbitrary: n)
  case Nil
  have "length phases = 6" by (simp add: phases_def)
  then show ?case by (auto intro!: exI [of _ 0])
next
  case (Cons p ps)
  have len: "length phases = 6" by (simp add: phases_def)
  show ?case
  proof (cases "n < 6 \<and> p = phases ! n")
    case True
    then have d: "drop n phases = p # drop (Suc n) phases" using len by (metis Cons_nth_drop_Suc)
    have "run_phases (p # ps) (int n) = run_phases ps (int (Suc n))"
      using enter_phase_iff [of p n "int (Suc n)"] True by simp
    also have "\<dots> = Some S \<longleftrightarrow> (\<exists>k. Suc n + k \<le> max (Suc n) 6 \<and> ps = take k (drop (Suc n) phases) \<and> S = int (Suc n + k))"
      by (rule Cons.IH)
    also have "\<dots> \<longleftrightarrow> (\<exists>k. n + k \<le> max n 6 \<and> p # ps = take k (drop n phases) \<and> S = int (n + k))" (is "?L \<longleftrightarrow> ?R")
    proof
      assume ?L
      then obtain k where "Suc n + k \<le> max (Suc n) 6" "ps = take k (drop (Suc n) phases)" "S = int (Suc n + k)" by blast
      then show ?R using d True by (intro exI [of _ "Suc k"]) auto
    next
      assume ?R
      then obtain k where k: "n + k \<le> max n 6" "p # ps = take k (drop n phases)" "S = int (n + k)" by blast
      then obtain j where "k = Suc j" by (cases k) auto
      then show ?L using k d True by (intro exI [of _ j]) auto
    qed
    finally show ?thesis .
  next
    case False
    then have "enter_phase p (int n) = None" using enter_phase_iff [of p n] by (cases "enter_phase p (int n)") auto
    moreover have "p # ps \<noteq> take k (drop n phases)" for k
    proof
      assume "p # ps = take k (drop n phases)"
      then obtain xs where d: "drop n phases = p # xs" by (cases k; cases "drop n phases") auto
      then have "n < 6" using len by (metis drop_all list.distinct(1) not_le)
      moreover have "p = phases ! n" using nth_via_drop [OF d] by simp
      ultimately show False using False by simp
    qed
    ultimately show ?thesis by simp
  qed
qed

text \<open>
  From the zero value, a sequence of life-cycle calls runs without panic exactly when it is
  an initial part of initialise, start, stop, each with its two phases in order; then the
  status counts the calls, and it is stopped exactly after all six.
\<close>

theorem lifecycle_order:
  "run_phases ps 0 = Some S \<longleftrightarrow> (\<exists>k \<le> 6. ps = take k phases \<and> S = int k \<and> (Stopped S \<longleftrightarrow> ps = phases))"
proof -
  have len: "length phases = 6" by (simp add: phases_def)
  have "Stopped (int k) \<longleftrightarrow> take k phases = phases" if "k \<le> 6" for k
    using that len by (auto simp: Stopped_def dest: arg_cong [where f = length])
  then show ?thesis using run_phases_from [of ps 0 S] by auto
qed

section \<open>The life cycle of the miner\<close>

text \<open>It may start again after it has stopped, and its methods answer instead of panicking.\<close>

definition PreDestroy :: "int \<Rightarrow> bool \<times> int" where
  "PreDestroy S = CompareAndSwap 6 7 S"

definition PostDestroy :: "int \<Rightarrow> bool \<times> int" where
  "PostDestroy S = CompareAndSwap 7 8 S"

definition PreStart_miner :: "int \<Rightarrow> bool \<times> int" where
  "PreStart_miner S = (let (ok, S1) = CompareAndSwap 2 3 S in if ok then (True, S1) else CompareAndSwap 6 3 S1)"

definition PostStart_miner :: "int \<Rightarrow> bool \<times> int" where
  "PostStart_miner S = CompareAndSwap 3 4 S"

section \<open>Witnesses\<close>

lemma lock_taken: "lock_reachable (1, {''g1''})"
  using lock_reachable.step [OF lock_reachable.init, OF lock_step.enter [of "''g1''" "{}" 0 1]]
  by (simp add: TryLock_def CompareAndSwap_def)

theorem NonBlockLock_exclusive_witness: "lock_reachable (1, {''g1''}) \<and> UnLock 1 = (True, 0)"
  using NonBlockLock_exclusive [OF lock_taken] lock_taken by simp

theorem write_lock_stuck_witness:
  "TryWLock \<lparr>rwR = 0, rwW = 0\<rparr> = (True, \<lparr>rwR = -1, rwW = 0\<rparr>) \<and> UnWLock \<lparr>rwR = -1, rwW = 0\<rparr> = (False, \<lparr>rwR = -1, rwW = 0\<rparr>)"
proof -
  have t: "TryWLock \<lparr>rwR = 0, rwW = 0\<rparr> = (True, \<lparr>rwR = -1, rwW = 0\<rparr>)" by (simp add: rwlock_defs)
  then show ?thesis using write_lock_stuck [OF rw_reachable.zero t] by simp
qed

end
