(* ===== verification/Miner.thy ===== *)
theory Miner
  imports Ledger Consensus Lifecycle
begin

text \<open>
  The miner and its worker, \<open>miner/miner.go\<close> and \<open>miner/worker.go\<close>: their life cycles, the
  goroutine of the worker, and what it does when the consensus tells it to work.

  A worker goroutine is named by the channel that ends it. Stopping a worker closes the channel
  it holds last and then waits for all its goroutines: a goroutine that waits for another
  channel goes on as long as the worker is not stopped, so the wait has no end; neither has it
  when a goroutine is \<open>busy\<close> with a call that does not return.
\<close>

section \<open>The worker\<close>

record worker =
  wStatus :: int
  updateCh :: "nat option"
  updates :: "nat list"
  nextCh :: nat
  busy :: bool

definition newWorker :: worker where
  "newWorker = \<lparr>wStatus = 0, updateCh = None, updates = [], nextCh = 0, busy = False\<rparr>"

definition Init_worker :: "worker \<Rightarrow> worker option" where
  "Init_worker w =
     do { s1 \<leftarrow> enter_phase PreInit (wStatus w); s2 \<leftarrow> enter_phase PostInit s1; Some (w\<lparr>wStatus := s2\<rparr>) }"

text \<open>The answers of the two phases are not looked at.\<close>

definition Start_worker :: "worker \<Rightarrow> worker" where
  "Start_worker w =
     (let s1 = snd (PreStart_miner (wStatus w));
          w1 = w\<lparr>updateCh := Some (nextCh w), updates := updates w @ [nextCh w], nextCh := Suc (nextCh w)\<rparr>
      in w1\<lparr>wStatus := snd (PostStart_miner s1)\<rparr>)"

definition Stop_worker :: "worker \<Rightarrow> worker outcome option" where
  "Stop_worker w =
     do {
       s1 \<leftarrow> enter_phase PreStop (wStatus w);
       c \<leftarrow> updateCh w;
       let rest = filter (\<lambda>u. u \<noteq> c) (updates w);
       if rest \<noteq> [] \<or> busy w then Some Blocks
       else do { s2 \<leftarrow> enter_phase PostStop s1; Some (Returns (w\<lparr>wStatus := s2, updates := rest\<rparr>)) }
     }"

text \<open>A notification taken by the goroutine; \<open>order\<close> is the order of the account chains.\<close>

definition genAndInsert :: "string list \<Rightarrow> string \<Rightarrow> int \<Rightarrow> ledger \<Rightarrow> (err \<times> ledger) outcome option" where
  "genAndInsert order addr t L = MiningSnapshotBlock order addr t L"

text \<open>One turn of the goroutine, when somebody is there to take the notification.\<close>

definition update_worker :: "string list \<Rightarrow> string \<Rightarrow> int \<Rightarrow> worker \<Rightarrow> ledger \<Rightarrow> (worker \<times> ledger) option" where
  "update_worker order addr t w L =
     (if updates w = [] then Some (w, L)
      else do {
        r \<leftarrow> genAndInsert order addr t L;
        Some (case r of Blocks \<Rightarrow> (w\<lparr>busy := True\<rparr>, L) | Returns (e, L1) \<Rightarrow> (w, L1))
      })"

section \<open>The miner\<close>

record miner =
  mStatus :: int
  coinbase :: string
  mWorker :: worker

definition NewMiner :: "string \<Rightarrow> miner" where
  "NewMiner addr = \<lparr>mStatus = 0, coinbase = addr, mWorker = newWorker\<rparr>"

text \<open>\<open>Init\<close> also registers the callback below with the event bus, to be called once.\<close>

definition Init_miner :: "miner \<Rightarrow> miner option" where
  "Init_miner m =
     do {
       s1 \<leftarrow> enter_phase PreInit (mStatus m);
       w \<leftarrow> Init_worker (mWorker m);
       s2 \<leftarrow> enter_phase PostInit s1;
       Some (m\<lparr>mStatus := s2, mWorker := w\<rparr>)
     }"

definition dwlDownFn :: "miner \<Rightarrow> Committee \<Rightarrow> Committee" where
  "dwlDownFn m c = Subscribe (Some (coinbase m)) c"

definition Start_miner :: "bool \<Rightarrow> miner \<Rightarrow> Committee \<Rightarrow> miner \<times> Committee" where
  "Start_miner synced m c =
     (let s1 = snd (PreStart_miner (mStatus m));
          c1 = (if synced then Subscribe (Some (coinbase m)) c else c)
      in (m\<lparr>mStatus := snd (PostStart_miner s1), mWorker := Start_worker (mWorker m)\<rparr>, c1))"

definition Stop_miner :: "miner \<Rightarrow> Committee \<Rightarrow> (miner \<times> Committee) outcome option" where
  "Stop_miner m c =
     do {
       s1 \<leftarrow> enter_phase PreStop (mStatus m);
       r \<leftarrow> Stop_worker (mWorker m);
       case r of
         Blocks \<Rightarrow> Some Blocks
       | Returns w \<Rightarrow>
           do { s2 \<leftarrow> enter_phase PostStop s1; Some (Returns (m\<lparr>mStatus := s2, mWorker := w\<rparr>, Subscribe None c)) }
     }"

definition Destroy :: "miner \<Rightarrow> miner" where
  "Destroy m = m\<lparr>mStatus := snd (PostDestroy (snd (PreDestroy (mStatus m))))\<rparr>"

section \<open>Starting and stopping\<close>

text \<open>A miner that rests, initialised or stopped, and one that works with a single goroutine.\<close>

definition resting :: "miner \<Rightarrow> bool" where
  "resting m \<longleftrightarrow> mStatus m \<in> {2, 6} \<and> wStatus (mWorker m) \<in> {2, 6} \<and> updates (mWorker m) = [] \<and> \<not> busy (mWorker m)"

definition working :: "miner \<Rightarrow> bool" where
  "working m \<longleftrightarrow> mStatus m = 4 \<and> wStatus (mWorker m) = 4 \<and> \<not> busy (mWorker m) \<and>
     (\<exists>c. updateCh (mWorker m) = Some c \<and> updates (mWorker m) = [c] \<and> c < nextCh (mWorker m))"

text \<open>A miner whose worker has taken a notification and does not come back from the call it makes.\<close>

definition mining :: "miner \<Rightarrow> bool" where
  "mining m \<longleftrightarrow> mStatus m = 4 \<and> wStatus (mWorker m) = 4 \<and> busy (mWorker m) \<and> updateCh (mWorker m) \<noteq> None"

lemmas miner_lifecycle_defs = enter_phase_def CompareAndSwap_def PreStart_miner_def PostStart_miner_def

lemma Init_miner_resting: "\<exists>m. Init_miner (NewMiner addr) = Some m \<and> resting m \<and> coinbase m = addr"
  by (simp add: Init_miner_def NewMiner_def Init_worker_def newWorker_def resting_def miner_lifecycle_defs)

lemma Start_miner_working:
  "resting m \<Longrightarrow> working (fst (Start_miner synced m c)) \<and> coinbase (fst (Start_miner synced m c)) = coinbase m \<and>
     (synced \<longrightarrow> subscribeMem (snd (Start_miner synced m c)) = Some (coinbase m))"
  by (auto simp: resting_def working_def Start_miner_def Start_worker_def miner_lifecycle_defs Subscribe_def)

lemma Stop_miner_resting:
  "working m \<Longrightarrow> \<exists>m'. Stop_miner m c = Some (Returns (m', Subscribe None c)) \<and> resting m' \<and> coinbase m' = coinbase m"
  by (auto simp: resting_def working_def Stop_miner_def Stop_worker_def miner_lifecycle_defs)

text \<open>A miner started and stopped again and again.\<close>

fun cycles :: "nat \<Rightarrow> miner \<Rightarrow> Committee \<Rightarrow> (miner \<times> Committee) outcome option" where
  "cycles 0 m c = Some (Returns (m, c))"
| "cycles (Suc n) m c =
     do {
       let (m1, c1) = Start_miner True m c;
       r \<leftarrow> Stop_miner m1 c1;
       case r of Blocks \<Rightarrow> Some Blocks | Returns (m2, c2) \<Rightarrow> cycles n m2 c2
     }"

lemma cycles_return:
  "resting m \<Longrightarrow> \<exists>m' c'. cycles n m c = Some (Returns (m', c')) \<and> resting m' \<and> (0 < n \<longrightarrow> subscribeMem c' = None)"
proof (induction n arbitrary: m c)
  case (Suc n)
  obtain m1 c1 where s: "Start_miner True m c = (m1, c1)" by fastforce
  then have "working m1" using Start_miner_working [OF Suc.prems, of True c] by simp
  then obtain m2 where m2: "Stop_miner m1 c1 = Some (Returns (m2, Subscribe None c1))" "resting m2"
    using Stop_miner_resting by blast
  obtain m' c' where r: "cycles n m2 (Subscribe None c1) = Some (Returns (m', c'))" "resting m'" "0 < n \<longrightarrow> subscribeMem c' = None"
    using Suc.IH [OF m2(2)] by blast
  have "n = 0 \<Longrightarrow> subscribeMem c' = None" using r(1) by (auto simp: Subscribe_def)
  then show ?case using s m2 r by auto
qed simp

text \<open>
  A miner that was initialised can be started and stopped any number of times: no call
  panics or waits for ever, every stop ends the one goroutine that the start began and takes
  the subscription back.
\<close>

theorem miner_restarts:
  assumes "Init_miner (NewMiner addr) = Some m"
  shows "\<exists>m' c'. cycles n m c = Some (Returns (m', c')) \<and> updates (mWorker m') = [] \<and> (0 < n \<longrightarrow> subscribeMem c' = None)"
proof -
  have "resting m" using Init_miner_resting [of addr] assms by auto
  then show ?thesis using cycles_return [of m n c] by (auto simp: resting_def)
qed

text \<open>
  Starting a miner that works already is not refused: a second goroutine begins, the channel
  of the first is forgotten, and the next stop waits for it for ever.
\<close>

theorem second_start_blocks:
  assumes "working m"
  shows "Stop_miner (fst (Start_miner synced m c)) c' = Some Blocks"
  using assms
  by (auto simp: working_def Start_miner_def Start_worker_def Stop_miner_def Stop_worker_def miner_lifecycle_defs)

section \<open>From the notification to the block\<close>

lemma nextSnapshotBlock_signed:
  "nextSnapshotBlock order addr t bc = Some b \<Longrightarrow> Tsigner b = addr \<and> Ttimestamp b = t"
  by (auto simp: nextSnapshotBlock_def NewSnapshotBlock_def SetHash_def Let_def split: Option.bind_splits)

text \<open>The time of the plan of a member is a turn of that member.\<close>

lemma plan_on_turn:
  assumes "in_range mi now" "time2Index mi now = Some idx"
    "find (\<lambda>p. member p = addr) (plans (genPlan mi idx voteResults)) = Some p"
  shows "on_turn mi (planTime p) addr"
proof -
  have "addr \<in> set DefaultMembers" using plan_find_None assms(3) by fastforce
  then obtain i where i: "i < 5" "addr = DefaultMembers ! i" using distinct_members(2) by (metis in_set_conv_nth)
  have pos: "0 < interval mi" "memberCnt mi = 5" using assms(1) by (simp_all add: in_range_def)
  have "idx = (now - genesisTime mi) div (interval mi * 5)" using round_of(1) [OF assms(1)] assms(2) by simp
  then have "planTime p = genesisTime mi + interval mi * 5 * idx + interval mi * int i"
    using plan_find [OF i(1), of mi idx] assms(3) i(2) round_of(2) [OF assms(1)] by auto
  then have d: "planTime p - genesisTime mi = interval mi * (5 * idx + int i)" by (simp add: algebra_simps)
  then have "(planTime p - genesisTime mi) div interval mi = 5 * idx + int i" using pos(1) by simp
  then have "(planTime p - genesisTime mi) div interval mi mod 5 = int i" using i(1) by simp
  then show ?thesis using d i(2) pos(2) by (simp add: on_turn_def)
qed

lemma update_round_notifies:
  assumes "history_ok (committeeTeller c)" "subscribeMem c = Some addr" "update_round now later taken ord c = Some (Some t, e, c')"
  shows "\<exists>idx p. time2Index (info (committeeTeller c)) now = Some idx \<and> t = planTime p \<and>
    find (\<lambda>p. member p = addr) (plans (genPlan (info (committeeTeller c)) idx voteResults)) = Some p"
proof -
  obtain idx where idx: "time2Index (info (committeeTeller c)) now = Some idx"
    using assms(3) by (cases "time2Index (info (committeeTeller c)) now") (simp_all add: update_round_def electionTime_def)
  obtain r t1 where r: "electionIndex idx (committeeTeller c) = (r, t1)" by fastforce
  then have "r = genPlan (info (committeeTeller c)) idx voteResults" using electionIndex_ok(1) [OF assms(1), of idx] by simp
  then show ?thesis
    using assms(2,3) idx r
    by (auto simp: update_round_def electionTime_def Let_def split: if_splits option.splits)
qed

text \<open>
  C31. Consensus, miner and verification fit together: when the round of the consensus notifies
  the subscribed miner, the block that the miner builds for the time it was given, on whatever
  chain, passes the producer check of every node with the same committee, whatever rounds that
  node remembers. The bound is that of the producer check: five members, and times less than
  \<open>2^31\<close> seconds after genesis.
\<close>

theorem notified_block_on_turn:
  assumes "history_ok (committeeTeller c)" "subscribeMem c = Some addr"
    "update_round now later taken ord c = Some (Some t, e, c')"
    "in_range (info (committeeTeller c)) now" "in_range (info (committeeTeller c)) t"
    "nextSnapshotBlock order addr t bc = Some b"
    "history_ok T" "info T = info (committeeTeller c)"
  shows "\<exists>T'. verifyProducer b T = Some (True, T')"
proof -
  obtain idx p where p: "time2Index (info (committeeTeller c)) now = Some idx" "t = planTime p"
    "find (\<lambda>p. member p = addr) (plans (genPlan (info (committeeTeller c)) idx voteResults)) = Some p"
    using update_round_notifies [OF assms(1-3)] by blast
  have "on_turn (info T) t addr" using plan_on_turn [OF assms(4) p(1,3)] p(2) assms(8) by simp
  then show ?thesis
    using verifyProducer_holds [OF assms(7), of b] assms(5,8) nextSnapshotBlock_signed [OF assms(6)] by auto
qed

text \<open>The worker that takes a notification never comes back: the ledger waits for itself in its call.\<close>

lemma genAndInsert_blocks:
  "nextSnapshotBlock order addr t (pBc (bpool L)) = Some b \<Longrightarrow> genAndInsert order addr t L = Some Blocks"
  by (simp add: genAndInsert_def MiningSnapshotBlock_def AddDirectSnapshotBlock_locked_def RLock_def)

lemma mining_worker_never_stops:
  assumes "working m" "nextSnapshotBlock order (coinbase m) t (pBc (bpool L)) = Some b"
    "update_worker order (coinbase m) t (mWorker m) L = Some (w, L')"
  shows "Stop_miner (m\<lparr>mWorker := w\<rparr>) c = Some Blocks"
  using assms genAndInsert_blocks [OF assms(2)]
  by (auto simp: update_worker_def working_def Stop_miner_def Stop_worker_def miner_lifecycle_defs)

lemma update_worker_working:
  assumes "working m" "update_worker order addr t (mWorker m) L = Some (w, L')"
  shows "working (m\<lparr>mWorker := w\<rparr>) \<or> mining (m\<lparr>mWorker := w\<rparr>)"
  using assms
  by (auto simp: update_worker_def working_def mining_def split: if_splits Option.bind_splits outcome.splits)

lemma Stop_miner_mining: "mining m \<Longrightarrow> Stop_miner m c = Some Blocks"
  by (auto simp: mining_def Stop_miner_def Stop_worker_def miner_lifecycle_defs)

lemma miner_states: "resting m \<Longrightarrow> \<not> working m" "resting m \<Longrightarrow> \<not> mining m" "working m \<Longrightarrow> \<not> mining m"
  by (auto simp: resting_def working_def mining_def)

section \<open>Witnesses\<close>

theorem miner_restarts_witness:
  "\<exists>m m' c'. Init_miner (NewMiner ''addr'') = Some m \<and> cycles 3 m (NewCommittee 0 1 5 0) = Some (Returns (m', c')) \<and>
     updates (mWorker m') = [] \<and> subscribeMem c' = None"
proof -
  obtain m where m: "Init_miner (NewMiner ''addr'') = Some m" using Init_miner_resting [of "''addr''"] by blast
  show ?thesis using miner_restarts [OF m, of 3 "NewCommittee 0 1 5 0"] m by auto
qed

theorem second_start_blocks_witness:
  "\<exists>m c. Init_miner (NewMiner ''addr'') = Some m \<and>
     Stop_miner (fst (Start_miner True (fst (Start_miner True m c)) c)) c = Some Blocks"
proof -
  obtain m where m: "Init_miner (NewMiner ''addr'') = Some m" "resting m" using Init_miner_resting [of "''addr''"] by blast
  let ?c = "NewCommittee 0 1 5 0"
  have "working (fst (Start_miner True m ?c))" using Start_miner_working [OF m(2)] by blast
  from second_start_blocks [OF this, of True ?c ?c] show ?thesis using m(1) by blast
qed

text \<open>The second member, notified in the round that begins ten seconds after the genesis time.\<close>

definition ex_committee :: Committee where
  "ex_committee = (Subscribe (Some (DefaultMembers ! 1)) (NewCommittee 1533550878 1 5 0))\<lparr>lastIndex := 1\<rparr>"

lemma ex_committee_round:
  "\<exists>e c'. update_round 1533550888 1533550893 True [] ex_committee = Some (Some 1533550889, e, c')"
proof -
  have t: "committeeTeller ex_committee = newTeller 1533550878 1 5" "subscribeMem ex_committee = Some (DefaultMembers ! 1)"
    "lastIndex ex_committee = 1"
    by (simp_all add: ex_committee_def Subscribe_def NewCommittee_def)
  let ?mi = "info (newTeller 1533550878 1 5)"
  have rng: "in_range ?mi 1533550888" by (simp add: newTeller_def in_range_def)
  have idx: "time2Index ?mi 1533550888 = Some 2" "sTime (genPlan ?mi 2 ms) = 1533550888" for ms
    using round_of [OF rng] by (simp_all add: newTeller_def)
  obtain r t1 where r: "electionIndex 2 (newTeller 1533550878 1 5) = (r, t1)" by fastforce
  have g: "r = genPlan ?mi 2 voteResults" using electionIndex_ok(1) [OF history_newTeller, of 2 1533550878 1 5] r by simp
  then have "find (\<lambda>p. member p = DefaultMembers ! 1) (plans r) = Some \<lparr>planTime = 1533550889, member = DefaultMembers ! 1\<rparr>"
    using plan_find [of 1 ?mi 2] idx(2) by (simp add: newTeller_def)
  moreover have "electIndex r = 2" using g by (simp add: genPlan_def Let_def case_prod_beta)
  ultimately show ?thesis using t idx(1) r by (simp add: update_round_def electionTime_def Let_def)
qed

theorem notified_block_on_turn_witness:
  "\<exists>b T'. nextSnapshotBlock [''viteshan'', ''jie''] (DefaultMembers ! 1) 1533550889 ex2 = Some b \<and>
     verifyProducer b (newTeller 1533550878 1 5) = Some (True, T')"
proof -
  obtain e c' where u: "update_round 1533550888 1533550893 True [] ex_committee = Some (Some 1533550889, e, c')"
    using ex_committee_round by blast
  obtain b where b: "nextSnapshotBlock [''viteshan'', ''jie''] (DefaultMembers ! 1) 1533550889 ex2 = Some b"
    using ex2_next by (simp add: nextSnapshotBlock_def Let_def)
  have c: "committeeTeller ex_committee = newTeller 1533550878 1 5" "subscribeMem ex_committee = Some (DefaultMembers ! 1)"
    by (simp_all add: ex_committee_def Subscribe_def NewCommittee_def)
  have "\<exists>T'. verifyProducer b (newTeller 1533550878 1 5) = Some (True, T')"
    by (rule notified_block_on_turn [OF _ c(2) u _ _ b]) (simp_all add: c(1), simp_all add: newTeller_def in_range_def)
  then show ?thesis using b by blast
qed

end
