(* ===== verification/P2P.thy ===== *)
theory P2P
  imports Common_Types
begin

text \<open>
  The peer table of a node, package \<open>p2p\<close>: peers with their write queues (\<open>p2p/peer.go\<close>), the
  table of connected peers and of addresses to dial (\<open>p2p/p2p.go\<close>, \<open>p2p/server.go\<close>,
  \<open>p2p/bootnode_linker.go\<close>), the handshake (\<open>p2p/handshaker.go\<close>) and the table of the boot node
  (\<open>p2p/bootnode.go\<close>).

  A connection is a number that identifies it; what the network answers (the message of the
  other side, the outcome of a dial) is an argument. \<open>'s\<close> is the state that the handshake
  exchanges and \<open>'m\<close> a message. \<^const>\<open>None\<close> is a panic: a send on a closed channel, or a
  setter that is called too late.
\<close>

section \<open>Peers\<close>

record ('s, 'm) peer =
  peerId :: string
  selfId :: string
  peerSrvAddr :: string
  conn :: nat
  peerState :: "'s option"
  peerClosed :: bool
  writeCh :: "'m list"

definition writeChCap :: nat where
  "writeChCap = 1000"

definition newPeer :: "string \<Rightarrow> string \<Rightarrow> string \<Rightarrow> nat \<Rightarrow> 's option \<Rightarrow> ('s, 'm) peer" where
  "newPeer fromId toId addr c s =
     \<lparr>peerId = fromId, selfId = toId, peerSrvAddr = addr, conn = c, peerState = s, peerClosed = False, writeCh = []\<rparr>"

definition SetState :: "'s option \<Rightarrow> ('s, 'm) peer \<Rightarrow> ('s, 'm) peer" where
  "SetState s p = p\<lparr>peerState := s\<rparr>"

definition GetState :: "('s, 'm) peer \<Rightarrow> 's option" where
  "GetState p = peerState p"

definition Write :: "'m \<Rightarrow> ('s, 'm) peer \<Rightarrow> (err \<times> ('s, 'm) peer) option" where
  "Write msg p =
     (if length (writeCh p) \<ge> writeChCap then Some (Some WriteChannelFull, p)
      else if peerClosed p then None
      else Some (None, p\<lparr>writeCh := writeCh p @ [msg]\<rparr>))"

definition close_peer :: "('s, 'm) peer \<Rightarrow> ('s, 'm) peer" where
  "close_peer p = p\<lparr>peerClosed := True\<rparr>"

text \<open>One round of the writing goroutine: the oldest message goes out, unless the peer is closed.\<close>

definition loopWrite_step :: "('s, 'm) peer \<Rightarrow> 'm option \<times> ('s, 'm) peer" where
  "loopWrite_step p = (case writeCh p of [] \<Rightarrow> (None, p) | m # ms \<Rightarrow> (Some m, p\<lparr>writeCh := ms\<rparr>))"

definition info_peer :: "('s, 'm) peer \<Rightarrow> string" where
  "info_peer p = ''['' @ selfId p @ '']-['' @ peerId p @ '']''"

section \<open>The table of a node\<close>

record ('s, 'm) p2p =
  peers :: "string \<rightharpoonup> ('s, 'm) peer"
  pendingDials :: "string \<rightharpoonup> string"
  nodeId :: string
  netId :: int
  srvAddr :: string
  status :: int

definition NewP2P :: "string \<Rightarrow> int \<Rightarrow> int \<Rightarrow> ('s, 'm) p2p" where
  "NewP2P nid net port =
     \<lparr>peers = Map.empty, pendingDials = Map.empty, nodeId = nid, netId = net, srvAddr = ''localhost:'' @ itoa port, status = 0\<rparr>"

text \<open>The peer that a range over the map yields first; any peer can be it.\<close>

definition BestPeer :: "string list \<Rightarrow> ('s, 'm) p2p \<Rightarrow> error + ('s, 'm) peer" where
  "BestPeer order n =
     (case List.map_filter (peers n) order of [] \<Rightarrow> Inl NoBestPeer | p # ps \<Rightarrow> Inr p)"

definition AllPeer :: "string list \<Rightarrow> ('s, 'm) p2p \<Rightarrow> ('s, 'm) peer list" where
  "AllPeer order n = List.map_filter (peers n) order"

definition SetHandlerFn :: "('s, 'm) p2p \<Rightarrow> ('s, 'm) p2p option" where
  "SetHandlerFn n = (if status n \<ge> 3 then None else Some n)"

definition SetHandShaker :: "('s, 'm) p2p \<Rightarrow> ('s, 'm) p2p option" where
  "SetHandShaker n = (if status n \<ge> 1 then None else Some n)"

text \<open>A new connection to a peer that is connected already is closed; the result says whether it was kept.\<close>

definition addPeer :: "('s, 'm) peer \<Rightarrow> ('s, 'm) p2p \<Rightarrow> bool \<times> ('s, 'm) peer \<times> ('s, 'm) p2p" where
  "addPeer p n =
     (case peers n (peerId p) of
        Some old \<Rightarrow> if conn old \<noteq> conn p then (False, close_peer p, n)
                    else (True, p, n\<lparr>peers := (peers n)(peerId p \<mapsto> p)\<rparr>)
      | None \<Rightarrow> (True, p, n\<lparr>peers := (peers n)(peerId p \<mapsto> p)\<rparr>))"

text \<open>The end of the reading goroutine of a peer.\<close>

definition readDone :: "('s, 'm) peer \<Rightarrow> ('s, 'm) p2p \<Rightarrow> ('s, 'm) peer \<times> ('s, 'm) p2p" where
  "readDone p n = (close_peer p, n\<lparr>peers := (peers n)(peerId p := None)\<rparr>)"

text \<open>Sending a message to the peer with a given id, as the senders do after they have looked it up.\<close>

definition writeTo :: "string \<Rightarrow> 'm \<Rightarrow> ('s, 'm) p2p \<Rightarrow> (err \<times> ('s, 'm) p2p) option" where
  "writeTo pid msg n =
     (case peers n pid of
        None \<Rightarrow> Some (Some NoBestPeer, n)
      | Some p \<Rightarrow> do { (e, p1) \<leftarrow> Write msg p; Some (e, n\<lparr>peers := (peers n)(pid \<mapsto> p1)\<rparr>) })"

definition addDial :: "string \<Rightarrow> string \<Rightarrow> ('s, 'm) p2p \<Rightarrow> bool \<times> ('s, 'm) p2p" where
  "addDial pid addr n =
     (if pid = nodeId n then (False, n)
      else if peers n pid = None \<and> pendingDials n pid = None
      then (True, n\<lparr>pendingDials := (pendingDials n)(pid \<mapsto> addr)\<rparr>)
      else (False, n))"

text \<open>The list of peers that the boot node sends, taken up one by one.\<close>

fun linkAll :: "(string \<times> string) list \<Rightarrow> ('s, 'm) p2p \<Rightarrow> ('s, 'm) p2p" where
  "linkAll [] n = n"
| "linkAll ((pid, addr) # rs) n = linkAll rs (snd (addDial pid addr n))"

section \<open>The handshake\<close>

record 'b handshakeMsg =
  hmNetId :: int
  hmId :: string
  hmAddr :: string
  hmS :: 'b

text \<open>
  \<open>own\<close> is what the state provider of the node answers, \<open>answer\<close> the message of the other side
  (\<^const>\<open>None\<close>: it could not be read), \<open>check\<close> and \<open>decode\<close> the provider's handshake and decoder.
\<close>

definition handshake ::
  "(error + 'b) \<Rightarrow> 'b handshakeMsg option \<Rightarrow> (string \<Rightarrow> 'b \<Rightarrow> err) \<Rightarrow> ('b \<Rightarrow> 's option) \<Rightarrow> nat \<Rightarrow> ('s, 'm) p2p \<Rightarrow>
   'b handshakeMsg option \<times> (error + ('s, 'm) peer)" where
  "handshake own answer check decode c n =
     (case own of
        Inl e \<Rightarrow> (None, Inl e)
      | Inr s \<Rightarrow>
          (Some \<lparr>hmNetId = netId n, hmId = nodeId n, hmAddr = srvAddr n, hmS = s\<rparr>,
           (case answer of
              None \<Rightarrow> Inl ReadFail
            | Some req \<Rightarrow>
                if hmNetId req \<noteq> netId n then Inl (NetIdDiff (netId n) (hmNetId req))
                else (case check (hmId req) (hmS req) of
                        Some e \<Rightarrow> Inl e
                      | None \<Rightarrow> Inr (newPeer (hmId req) (nodeId n) (hmAddr req) c (decode (hmS req)))))))"

text \<open>Outcome of a dial: no connection, a connection whose handshake failed, or a peer.\<close>

datatype ('s, 'm) dialResult = DialError | HandshakeFail | Linked "('s, 'm) peer"

definition connect :: "('s, 'm) dialResult \<Rightarrow> ('s, 'm) p2p \<Rightarrow> bool \<times> ('s, 'm) p2p" where
  "connect r n =
     (case r of
        DialError \<Rightarrow> (False, n)
      | HandshakeFail \<Rightarrow> (True, n)
      | Linked p \<Rightarrow> (True, snd (snd (addPeer p n))))"

text \<open>The accepting side: what comes of an upgraded request and its handshake.\<close>

definition ws_server :: "('s, 'm) dialResult \<Rightarrow> ('s, 'm) p2p \<Rightarrow> ('s, 'm) p2p" where
  "ws_server r n =
     (case r of
        DialError \<Rightarrow> n
      | HandshakeFail \<Rightarrow> n
      | Linked p \<Rightarrow> snd (snd (addPeer p n)))"

text \<open>Both sides of a connection enter it into their tables in the same way.\<close>

lemma ws_server_connect: "ws_server r n = snd (connect r n)"
  by (simp add: ws_server_def connect_def split: dialResult.split)

text \<open>One tick of the dialling loop.\<close>

fun dialLoop :: "(string \<Rightarrow> ('s, 'm) dialResult) \<Rightarrow> string list \<Rightarrow> ('s, 'm) p2p \<Rightarrow> ('s, 'm) p2p" where
  "dialLoop net [] n = n"
| "dialLoop net (i # is) n =
     (case pendingDials n i of
        None \<Rightarrow> dialLoop net is n
      | Some v \<Rightarrow>
          if peers n i = None
          then (let (connected, n1) = connect (net v) n
                in dialLoop net is (n1\<lparr>pendingDials := (pendingDials n1)(i := None)\<rparr>))
          else dialLoop net is n)"

section \<open>The boot node\<close>

type_synonym ('s, 'm) bootnode = "string \<rightharpoonup> ('s, 'm) peer"

text \<open>The boot node keeps the newest connection; the result holds the connection that was closed.\<close>

definition addPeer_boot :: "('s, 'm) peer \<Rightarrow> ('s, 'm) bootnode \<Rightarrow> ('s, 'm) peer option \<times> ('s, 'm) bootnode" where
  "addPeer_boot p b =
     ((case b (peerId p) of
         Some old \<Rightarrow> if conn old \<noteq> conn p then Some (close_peer old) else None
       | None \<Rightarrow> None), b(peerId p \<mapsto> p))"

definition removePeer_boot :: "('s, 'm) peer \<Rightarrow> ('s, 'm) bootnode \<Rightarrow> ('s, 'm) peer option \<times> ('s, 'm) bootnode" where
  "removePeer_boot p b =
     (case b (peerId p) of
        Some old \<Rightarrow> if conn old = conn p then (Some (close_peer old), b(peerId p := None)) else (None, b)
      | None \<Rightarrow> (None, b))"

definition All_boot :: "string list \<Rightarrow> ('s, 'm) bootnode \<Rightarrow> (string \<times> string) list" where
  "All_boot order b = map (\<lambda>p. (peerId p, peerSrvAddr p)) (List.map_filter b order)"

section \<open>Invariant of the table\<close>

text \<open>
  Every peer of the table is filed under its id and open, and its queue is within bounds; the
  node has no dial to itself pending.
\<close>

definition table_ok :: "('s, 'm) p2p \<Rightarrow> bool" where
  "table_ok n \<longleftrightarrow> (\<forall>i p. peers n i = Some p \<longrightarrow> peerId p = i \<and> \<not> peerClosed p \<and> length (writeCh p) \<le> writeChCap) \<and>
     pendingDials n (nodeId n) = None"

lemma table_ok_new [wf_intros]: "table_ok (NewP2P nid net port)"
  by (simp add: table_ok_def NewP2P_def)

lemma table_ok_addPeer [wf_intros]:
  "table_ok n \<Longrightarrow> \<not> peerClosed p \<Longrightarrow> length (writeCh p) \<le> writeChCap \<Longrightarrow> table_ok (snd (snd (addPeer p n)))"
  by (auto simp: table_ok_def addPeer_def split: option.split)

lemma table_ok_readDone [wf_intros]: "table_ok n \<Longrightarrow> table_ok (snd (readDone p n))"
  by (auto simp: table_ok_def readDone_def)

lemma table_ok_addDial [wf_intros]: "table_ok n \<Longrightarrow> table_ok (snd (addDial pid addr n))"
  by (auto simp: table_ok_def addDial_def)

lemma nodeId_addDial [simp]: "nodeId (snd (addDial pid addr n)) = nodeId n"
  by (simp add: addDial_def)

lemma table_ok_linkAll [wf_intros]: "table_ok n \<Longrightarrow> table_ok (linkAll rs n)"
  by (induction rs n rule: linkAll.induct) (simp_all add: table_ok_addDial)

lemma Write_ok:
  assumes "\<not> peerClosed p" "length (writeCh p) \<le> writeChCap"
  shows "\<exists>e p'. Write m p = Some (e, p') \<and> \<not> peerClosed p' \<and> length (writeCh p') \<le> writeChCap \<and> peerId p' = peerId p \<and>
    (e = None \<longrightarrow> writeCh p' = writeCh p @ [m]) \<and> (e \<noteq> None \<longrightarrow> p' = p \<and> length (writeCh p) = writeChCap)"
  using assms by (auto simp: Write_def)

text \<open>
  While the table is well formed, a message to a connected peer never panics: it is either
  queued behind the earlier ones, or refused because 1000 messages are waiting, and the table
  stays well formed.
\<close>

lemma writeTo_ok:
  assumes "table_ok n" "peers n pid = Some p"
  shows "\<exists>e p'. writeTo pid m n = Some (e, n\<lparr>peers := (peers n)(pid \<mapsto> p')\<rparr>) \<and> table_ok (n\<lparr>peers := (peers n)(pid \<mapsto> p')\<rparr>) \<and>
    (if length (writeCh p) < writeChCap then e = None \<and> writeCh p' = writeCh p @ [m] else e = Some WriteChannelFull \<and> p' = p)"
proof -
  have p: "peerId p = pid" "\<not> peerClosed p" "length (writeCh p) \<le> writeChCap"
    using assms by (auto simp: table_ok_def)
  show ?thesis
  proof (cases "length (writeCh p) < writeChCap")
    case True
    then show ?thesis using assms p by (auto simp: writeTo_def Write_def table_ok_def)
  next
    case False
    then show ?thesis using assms p by (auto simp: writeTo_def Write_def table_ok_def)
  qed
qed

lemma dialLoop_ok:
  assumes "table_ok n" "\<And>v p. net v = Linked p \<Longrightarrow> \<not> peerClosed p \<and> writeCh p = []"
  shows "table_ok (dialLoop net is n)"
  using assms(1)
proof (induction "is" arbitrary: n)
  case (Cons i "is")
  have c: "table_ok (snd (connect r n))" "nodeId (snd (connect r n)) = nodeId n" if "\<And>p. r = Linked p \<Longrightarrow> \<not> peerClosed p \<and> writeCh p = []" for r
    using that Cons.prems table_ok_addPeer [OF Cons.prems]
    by (cases r; auto simp: connect_def addPeer_def split: option.split)+
  have "table_ok (snd (connect (net v) n))" for v using c(1) [of "net v"] assms(2) by blast
  then have "table_ok ((snd (connect (net v) n))\<lparr>pendingDials := (pendingDials (snd (connect (net v) n)))(i := None)\<rparr>)" for v
    by (simp add: table_ok_def)
  then show ?case using Cons by (simp add: case_prod_beta split: option.split)
qed simp

end
