(* ===== verification/Syncer.thy ===== *)
theory Syncer
  imports Ledger P2P
begin

text \<open>
  The synchronisation of a node with its peers, package \<open>syncer\<close>: the retry policies and the
  fetcher (\<open>syncer/fetcher.go\<close>), the sender (\<open>syncer/sender.go\<close>), the handlers that answer
  requests (\<open>syncer/handler_reqs.go\<close>) and take in hashes, blocks and states
  (\<open>syncer/receiver.go\<close>), and the state of the first synchronisation (\<open>syncer/state.go\<close>).

  A message is the structure that \<open>encoding/json\<close> decodes; a flag says whether decoding
  succeeded. When it fails the structure holds whatever was decoded before the error, which is
  what the handlers that go on after an error work with. A block in a message is a pointer that
  is nil for the JSON value null. \<^const>\<open>None\<close> as a result is a panic, as in the other
  theories.

  The peer that a handler is given is the one whose reading loop calls it. That peer is in the
  table of the node, under its id, until its reading loop ends, so a peer is named by its id.
\<close>

section \<open>Messages\<close>

datatype NetMsgType =
    PeerConnected | PeerClosed | State
  | RequestAccountHashT | RequestSnapshotHashT | RequestAccountBlocksT | RequestSnapshotBlocksT
  | AccountHashesT | SnapshotHashesT | AccountBlocksT | SnapshotBlocksT
  | OtherMsgType int

datatype netMsg =
    peerConnectedMsg
  | peerClosedMsg
  | stateMsg HashHeight
  | requestAccountHashMsg string HashHeight int
  | requestSnapshotHashMsg HashHeight int
  | requestAccountBlockMsg string "HashHeight list"
  | requestSnapshotBlockMsg "HashHeight list"
  | accountHashesMsg string "HashHeight list"
  | snapshotHashesMsg "HashHeight list"
  | accountBlocksMsg string "AccountStateBlock option list"
  | snapshotBlocksMsg "SnapshotBlock option list"
  | otherMsg int

fun msgType :: "netMsg \<Rightarrow> NetMsgType" where
  "msgType peerConnectedMsg = PeerConnected"
| "msgType peerClosedMsg = PeerClosed"
| "msgType (stateMsg _) = State"
| "msgType (requestAccountHashMsg _ _ _) = RequestAccountHashT"
| "msgType (requestSnapshotHashMsg _ _) = RequestSnapshotHashT"
| "msgType (requestAccountBlockMsg _ _) = RequestAccountBlocksT"
| "msgType (requestSnapshotBlockMsg _) = RequestSnapshotBlocksT"
| "msgType (accountHashesMsg _ _) = AccountHashesT"
| "msgType (snapshotHashesMsg _) = SnapshotHashesT"
| "msgType (accountBlocksMsg _ _) = AccountBlocksT"
| "msgType (snapshotBlocksMsg _) = SnapshotBlocksT"
| "msgType (otherMsg i) = OtherMsgType i"

record handState =
  GenesisHash :: string
  handS :: HashHeight

type_synonym network = "(handState, netMsg) p2p"

section \<open>Sender\<close>

text \<open>
  The requests go to the peer that the table calls the best one; the answers to the peer that
  asked. Encoding a message never fails: its parts are strings, integers and times.
\<close>

definition toBestPeer :: "ordering \<Rightarrow> netMsg \<Rightarrow> network \<Rightarrow> (err \<times> network) option" where
  "toBestPeer ord msg n =
     (case BestPeer (ord (dom (peers n))) n of
        Inl e \<Rightarrow> Some (Some e, n)
      | Inr p \<Rightarrow> writeTo (peerId p) msg n)"

definition RequestAccountHash :: "ordering \<Rightarrow> string \<Rightarrow> HashHeight \<Rightarrow> int \<Rightarrow> network \<Rightarrow> (err \<times> network) option" where
  "RequestAccountHash ord addr hashH prevCnt = toBestPeer ord (requestAccountHashMsg addr hashH prevCnt)"

definition RequestSnapshotHash :: "ordering \<Rightarrow> HashHeight \<Rightarrow> int \<Rightarrow> network \<Rightarrow> (err \<times> network) option" where
  "RequestSnapshotHash ord hashH prevCnt = toBestPeer ord (requestSnapshotHashMsg hashH prevCnt)"

definition RequestAccountBlocks :: "ordering \<Rightarrow> string \<Rightarrow> HashHeight list \<Rightarrow> network \<Rightarrow> (err \<times> network) option" where
  "RequestAccountBlocks ord addr hashes = toBestPeer ord (requestAccountBlockMsg addr hashes)"

definition RequestSnapshotBlocks :: "ordering \<Rightarrow> HashHeight list \<Rightarrow> network \<Rightarrow> (err \<times> network) option" where
  "RequestSnapshotBlocks ord hashes = toBestPeer ord (requestSnapshotBlockMsg hashes)"

definition requestSnapshotBlockByPeer :: "HashHeight \<Rightarrow> string \<Rightarrow> network \<Rightarrow> (err \<times> network) option" where
  "requestSnapshotBlockByPeer hashH pid = writeTo pid (requestSnapshotBlockMsg [hashH])"

definition SendAccountBlocks :: "string \<Rightarrow> AccountStateBlock list \<Rightarrow> string \<Rightarrow> network \<Rightarrow> (err \<times> network) option" where
  "SendAccountBlocks addr bs pid = writeTo pid (accountBlocksMsg addr (map Some bs))"

definition SendSnapshotBlocks :: "SnapshotBlock list \<Rightarrow> string \<Rightarrow> network \<Rightarrow> (err \<times> network) option" where
  "SendSnapshotBlocks bs pid = writeTo pid (snapshotBlocksMsg (map Some bs))"

definition SendAccountHashes :: "string \<Rightarrow> HashHeight list \<Rightarrow> string \<Rightarrow> network \<Rightarrow> (err \<times> network) option" where
  "SendAccountHashes addr hashes pid = writeTo pid (accountHashesMsg addr hashes)"

definition SendSnapshotHashes :: "HashHeight list \<Rightarrow> string \<Rightarrow> network \<Rightarrow> (err \<times> network) option" where
  "SendSnapshotHashes hashes pid = writeTo pid (snapshotHashesMsg hashes)"

text \<open>A broadcast writes to every peer, whatever fails; the last error is returned.\<close>

fun writeAll :: "string list \<Rightarrow> netMsg \<Rightarrow> err \<Rightarrow> network \<Rightarrow> (err \<times> network) option" where
  "writeAll [] msg e n = Some (e, n)"
| "writeAll (pid # pids) msg e n =
     do {
       (e1, n1) \<leftarrow> writeTo pid msg n;
       writeAll pids msg (if e1 \<noteq> None then e1 else e) n1
     }"

definition broadcastMsg :: "ordering \<Rightarrow> netMsg \<Rightarrow> network \<Rightarrow> (err \<times> network) option" where
  "broadcastMsg ord msg n =
     (let ps = AllPeer (ord (dom (peers n))) n
      in if ps = [] then Some (None, n) else writeAll (map peerId ps) msg None n)"

definition broadcastState :: "ordering \<Rightarrow> HashHeight \<Rightarrow> network \<Rightarrow> (err \<times> network) option" where
  "broadcastState ord s = broadcastMsg ord (stateMsg s)"

definition BroadcastAccountBlocks_sd ::
  "ordering \<Rightarrow> string \<Rightarrow> AccountStateBlock list \<Rightarrow> network \<Rightarrow> (err \<times> network) option" where
  "BroadcastAccountBlocks_sd ord addr bs = broadcastMsg ord (accountBlocksMsg addr (map Some bs))"

definition BroadcastSnapshotBlocks_sd ::
  "ordering \<Rightarrow> SnapshotBlock list \<Rightarrow> network \<Rightarrow> (err \<times> network) option" where
  "BroadcastSnapshotBlocks_sd ord bs = broadcastMsg ord (snapshotBlocksMsg (map Some bs))"

section \<open>Retry policies\<close>

text \<open>The zero time of Go, in nanoseconds before the Unix epoch.\<close>

definition zeroTime :: int where
  "zeroTime = - 62135596800 * second"

record RetryStatus =
  cnt :: int
  isDone :: bool
  ftime :: int
  dtime :: int

type_synonym retries = "string \<rightharpoonup> RetryStatus"

definition newRetryStatus :: "int \<Rightarrow> RetryStatus" where
  "newRetryStatus now = \<lparr>cnt = 1, isDone = False, ftime = now, dtime = zeroTime\<rparr>"

definition reset_rs :: "int \<Rightarrow> RetryStatus \<Rightarrow> RetryStatus" where
  "reset_rs now r = r\<lparr>cnt := 1, isDone := False, ftime := now\<rparr>"

definition finish_rs :: "int \<Rightarrow> RetryStatus \<Rightarrow> RetryStatus" where
  "finish_rs now r = r\<lparr>isDone := True, cnt := 0, dtime := now\<rparr>"

definition inc_rs :: "RetryStatus \<Rightarrow> RetryStatus" where
  "inc_rs r = r\<lparr>cnt := cnt r + 1\<rparr>"

definition done_retry :: "int \<Rightarrow> string \<Rightarrow> retries \<Rightarrow> retries" where
  "done_retry now hash m =
     (case m hash of
        Some st \<Rightarrow> m(hash \<mapsto> finish_rs now st)
      | None \<Rightarrow> m(hash \<mapsto> finish_rs now (newRetryStatus now)))"

definition retry :: "int \<Rightarrow> string \<Rightarrow> retries \<Rightarrow> bool \<times> retries" where
  "retry now hash m =
     (case m hash of
        Some st \<Rightarrow>
          let st1 = inc_rs st
          in if isDone st1
             then if cnt st1 > 5 \<and> now > dtime st1 + 3 * second then (True, m(hash \<mapsto> reset_rs now st1))
                  else (False, m(hash \<mapsto> st1))
             else if cnt st1 > 10 \<and> now > ftime st1 + 2 * second then (True, m(hash \<mapsto> reset_rs now st1))
                  else (False, m(hash \<mapsto> st1))
      | None \<Rightarrow> (True, m(hash \<mapsto> newRetryStatus now)))"

text \<open>The second policy, kept by the fetcher and consulted nowhere; its \<open>done\<close> does nothing.\<close>

definition retry_addr :: "int \<Rightarrow> string \<Rightarrow> retries \<Rightarrow> bool \<times> retries" where
  "retry_addr now key m =
     (case m key of
        Some st \<Rightarrow>
          let st1 = inc_rs st
          in if now > dtime st1 + second then (True, m(key \<mapsto> st1))
             else if cnt st1 > 3 then (True, m(key \<mapsto> reset_rs now st1))
             else (False, m(key \<mapsto> st1))
      | None \<Rightarrow> (True, m(key \<mapsto> newRetryStatus now)))"

definition done_addr :: "string \<Rightarrow> retries \<Rightarrow> retries" where
  "done_addr key m = m"

section \<open>State of the syncer\<close>

record syncTask =
  taHeight :: int
  taHash :: string
  taPeer :: "string option"
  taClosed :: bool
  taDone :: bool

text \<open>
  \<open>rw\<close> is the pool with the chain behind it, which \<open>chainRw\<close> reads and writes; \<open>syPeers\<close> the
  ids of the peers that the state knows, \<open>stClosed\<close> says whether its channel was closed and
  \<open>dwlDone\<close> how often the end of the first synchronisation was published.
\<close>

record syncer =
  net :: network
  fetchedHashs :: retries
  fetchedAddr :: retries
  rw :: pool
  syPeers :: "string set"
  firstTa :: syncTask
  stClosed :: bool
  dwlDone :: nat

definition NewSyncer :: "network \<Rightarrow> pool \<Rightarrow> syncer" where
  "NewSyncer n p =
     \<lparr>net = n, fetchedHashs = Map.empty, fetchedAddr = Map.empty, rw = p, syPeers = {},
      firstTa = \<lparr>taHeight = 0, taHash = '''', taPeer = None, taClosed = False, taDone = False\<rparr>,
      stClosed = False, dwlDone = 0\<rparr>"

definition clock_sy :: "syncer \<Rightarrow> int" where
  "clock_sy S = pClock (rw S)"

text \<open>Running an operation of the sender whose error is only logged.\<close>

definition sending :: "(network \<Rightarrow> (err \<times> network) option) \<Rightarrow> syncer \<Rightarrow> syncer option" where
  "sending f S = do { (e, n) \<leftarrow> f (net S); Some (S\<lparr>net := n\<rparr>) }"

section \<open>Fetcher\<close>

definition retry_sy :: "string \<Rightarrow> syncer \<Rightarrow> bool \<times> syncer" where
  "retry_sy key S = (let (ok, m) = retry (clock_sy S) key (fetchedHashs S) in (ok, S\<lparr>fetchedHashs := m\<rparr>))"

definition fetchSnapshotBlockFromPeer :: "HashHeight \<Rightarrow> string \<Rightarrow> syncer \<Rightarrow> syncer option" where
  "fetchSnapshotBlockFromPeer hashH pid S =
     (let (ok, S1) = retry_sy (Hash hashH) S
      in if ok then sending (requestSnapshotBlockByPeer hashH pid) S1 else Some S1)"

definition FetchAccount :: "ordering \<Rightarrow> string \<Rightarrow> HashHeight \<Rightarrow> int \<Rightarrow> syncer \<Rightarrow> syncer option" where
  "FetchAccount ord addr hashH prevCnt S =
     (if prevCnt \<le> 0 then Some S
      else let (ok, S1) = retry_sy (Hash hashH @ itoa (Height hashH)) S
           in if ok then sending (RequestAccountHash ord addr hashH prevCnt) S1 else Some S1)"

definition FetchSnapshot :: "ordering \<Rightarrow> HashHeight \<Rightarrow> int \<Rightarrow> syncer \<Rightarrow> syncer option" where
  "FetchSnapshot ord hashH prevCnt S =
     (if prevCnt \<le> 0 then Some S
      else let (ok, S1) = retry_sy (Hash hashH @ itoa (Height hashH)) S
           in if ok then sending (RequestSnapshotHash ord hashH prevCnt) S1 else Some S1)"

definition Fetch_sy :: "ordering \<Rightarrow> FetchRequest \<Rightarrow> syncer \<Rightarrow> syncer option" where
  "Fetch_sy ord r S =
     (if frPrevCnt r \<le> 0 then Some S
      else let (ok, S1) = retry_sy (frHash r @ itoa (frHeight r)) S;
               hashH = \<lparr>Hash = frHash r, Height = frHeight r\<rparr>
           in if ok
              then if frChain r = '''' then sending (RequestSnapshotHash ord hashH (frPrevCnt r)) S1
                   else sending (RequestAccountHash ord (frChain r) hashH (frPrevCnt r)) S1
              else Some S1)"

text \<open>The hashes among the tasks that the retry policy lets through, in order.\<close>

fun retryAll :: "HashHeight list \<Rightarrow> syncer \<Rightarrow> HashHeight list \<times> syncer" where
  "retryAll [] S = ([], S)"
| "retryAll (task # ts) S =
     (let (ok, S1) = retry_sy (Hash task) S; (target, S2) = retryAll ts S1
      in (if ok then task # target else target, S2))"

definition fetchSnapshotBlockByHash :: "ordering \<Rightarrow> HashHeight list \<Rightarrow> syncer \<Rightarrow> syncer option" where
  "fetchSnapshotBlockByHash ord ts S =
     (let (target, S1) = retryAll ts S
      in if length target > 0 then sending (RequestSnapshotBlocks ord target) S1 else Some S1)"

definition fetchAccountBlockByHash :: "ordering \<Rightarrow> string \<Rightarrow> HashHeight list \<Rightarrow> syncer \<Rightarrow> syncer option" where
  "fetchAccountBlockByHash ord addr ts S =
     (let (target, S1) = retryAll ts S
      in if length target > 0 then sending (RequestAccountBlocks ord addr target) S1 else Some S1)"

definition done_sy :: "string \<Rightarrow> int \<Rightarrow> syncer \<Rightarrow> syncer" where
  "done_sy hash height S = S\<lparr>fetchedHashs := done_retry (clock_sy S) hash (fetchedHashs S)\<rparr>"

section \<open>Answering requests\<close>

text \<open>
  Cutting a list of hashes into chunks. A limit of zero is a division by zero, a negative one a
  slice out of range.
\<close>

function splitLoop :: "nat \<Rightarrow> 'a list \<Rightarrow> 'a list list" where
  "splitLoop lim buf =
     (if lim = 0 then []
      else if length buf \<ge> lim then take lim buf # splitLoop lim (drop lim buf)
      else if length buf > 0 then [buf] else [])"
  by pat_completeness auto
termination by (relation "measure (\<lambda>(lim, buf). length buf)") auto

declare splitLoop.simps [simp del]

definition split :: "'a list \<Rightarrow> int \<Rightarrow> 'a list list option" where
  "split buf lim = (if lim \<le> 0 then None else Some (splitLoop (nat lim) buf))"

text \<open>The loop of both hash handlers: from a block back along the hashes of the predecessors.\<close>

fun prevHashes :: "(HashHeight \<Rightarrow> 'a Tblock_scheme option) \<Rightarrow> nat \<Rightarrow> HashHeight \<Rightarrow> HashHeight list" where
  "prevHashes get 0 hashH = []"
| "prevHashes get (Suc i) hashH =
     (case get hashH of
        None \<Rightarrow> []
      | Some b \<Rightarrow> hashH # prevHashes get i \<lparr>Hash = TpreHash b, Height = Theight b - 1\<rparr>)"

text \<open>Looking up an account block creates the chain of the account when it is not there yet.\<close>

definition touchAc :: "string \<Rightarrow> syncer \<Rightarrow> syncer" where
  "touchAc addr S = S\<lparr>rw := (rw S)\<lparr>pBc := touch (pBc (rw S)) addr\<rparr>\<rparr>"

fun sendAccountHashesAll :: "string \<Rightarrow> HashHeight list list \<Rightarrow> string \<Rightarrow> syncer \<Rightarrow> syncer option" where
  "sendAccountHashesAll addr [] pid S = Some S"
| "sendAccountHashesAll addr (m # ms) pid S =
     do { S1 \<leftarrow> sending (SendAccountHashes addr m pid) S; sendAccountHashesAll addr ms pid S1 }"

definition reqAccountHash :: "bool \<Rightarrow> string \<Rightarrow> HashHeight \<Rightarrow> int \<Rightarrow> string \<Rightarrow> syncer \<Rightarrow> syncer option" where
  "reqAccountHash ok addr hashH prevCnt pid S =
     (if \<not> ok then Some S
      else let hashes = prevHashes (\<lambda>h. fst (GetAccountByHashH (pBc (rw S)) addr h)) (nat prevCnt) hashH;
               S1 = (if prevCnt > 0 then touchAc addr S else S)
           in if length hashes = 0 then Some S1
              else do { m \<leftarrow> split hashes 1000; sendAccountHashesAll addr m pid S1 })"

definition reqSnapshotHash :: "bool \<Rightarrow> HashHeight \<Rightarrow> int \<Rightarrow> string \<Rightarrow> syncer \<Rightarrow> syncer option" where
  "reqSnapshotHash ok hashH prevCnt pid S =
     (if \<not> ok then Some S
      else let hashes = prevHashes (GetSnapshotByHashH (pBc (rw S))) (nat prevCnt) hashH
           in if length hashes = 0 then Some S else sending (SendSnapshotHashes hashes pid) S)"

definition reqAccountBlocks :: "string \<Rightarrow> HashHeight list \<Rightarrow> string \<Rightarrow> syncer \<Rightarrow> syncer option" where
  "reqAccountBlocks addr hashes pid S =
     (if length hashes = 0 then Some S
      else let blocks = List.map_filter (\<lambda>h. fst (GetAccountByHashH (pBc (rw S)) addr h)) hashes;
               S1 = touchAc addr S
           in if length blocks > 0 then sending (SendAccountBlocks addr blocks pid) S1 else Some S1)"

definition reqSnapshotBlocks :: "HashHeight list \<Rightarrow> string \<Rightarrow> syncer \<Rightarrow> syncer option" where
  "reqSnapshotBlocks hashes pid S =
     (if length hashes = 0 then Some S
      else let blocks = List.map_filter (GetSnapshotByHashH (pBc (rw S))) hashes
           in if length blocks > 0 then sending (SendSnapshotBlocks blocks pid) S else Some S)"

section \<open>Taking in blocks\<close>

text \<open>A nil pointer among the blocks is dereferenced.\<close>

fun snapshotBlocks_in :: "SnapshotBlock option list \<Rightarrow> syncer \<Rightarrow> syncer option" where
  "snapshotBlocks_in [] S = Some S"
| "snapshotBlocks_in (v # vs) S =
     do {
       b \<leftarrow> v;
       let S1 = done_sy (Thash b) (Theight b) S;
       snapshotBlocks_in vs (S1\<lparr>rw := AddSnapshotBlock b (rw S1)\<rparr>)
     }"

fun accountBlocks_in :: "AccountStateBlock option list \<Rightarrow> syncer \<Rightarrow> syncer option" where
  "accountBlocks_in [] S = Some S"
| "accountBlocks_in (v # vs) S =
     do {
       b \<leftarrow> v;
       let S1 = done_sy (Thash b) (Theight b) S;
       p \<leftarrow> AddAccountBlock (Tsigner b) b (rw S1);
       accountBlocks_in vs (S1\<lparr>rw := p\<rparr>)
     }"

section \<open>States of the peers\<close>

text \<open>The reads of the chain never fail with an error; a missing head is a nil pointer.\<close>

definition getHandState :: "blockchain \<Rightarrow> handState option" where
  "getHandState bc =
     do {
       head \<leftarrow> HeadSnapshot bc;
       Some \<lparr>GenesisHash = Thash genesisSnapshot, handS = \<lparr>Hash = Thash head, Height = Theight head\<rparr>\<rparr>
     }"

definition Handshake :: "bool \<Rightarrow> handState \<Rightarrow> blockchain \<Rightarrow> err option" where
  "Handshake ok msg bc =
     (if \<not> ok then Some (Some ReadFail)
      else do {
        hs \<leftarrow> getHandState bc;
        Some (if GenesisHash hs \<noteq> GenesisHash msg then Some (GenesisDiff (GenesisHash hs) (GenesisHash msg))
              else if Hash (handS msg) = '''' then Some SnapshotHashEmpty
              else None)
      })"

definition update_st :: "HashHeight \<Rightarrow> string \<Rightarrow> syncer \<Rightarrow> syncer option" where
  "update_st msg pid S =
     do {
       p \<leftarrow> peers (net S) pid;
       let S1 = (case GetState p of
                   None \<Rightarrow> S
                 | Some st \<Rightarrow> S\<lparr>net := (net S)\<lparr>peers := (peers (net S))
                                (pid \<mapsto> SetState (Some (st\<lparr>handS := \<lparr>Hash = Hash msg, Height = Height msg\<rparr>\<rparr>)) p)\<rparr>\<rparr>);
       head \<leftarrow> HeadSnapshot (pBc (rw S1));
       if Height msg > Theight head
       then fetchSnapshotBlockFromPeer \<lparr>Hash = Hash msg, Height = Height msg\<rparr> pid S1
       else Some S1
     }"

definition peerConnected :: "string \<Rightarrow> syncer \<Rightarrow> syncer" where
  "peerConnected pid S = S\<lparr>syPeers := insert pid (syPeers S)\<rparr>"

definition peerClosed_st :: "string \<Rightarrow> syncer \<Rightarrow> syncer" where
  "peerClosed_st pid S = S\<lparr>syPeers := syPeers S - {pid}\<rparr>"

text \<open>The tick of every twenty seconds.\<close>

definition stateTick :: "ordering \<Rightarrow> syncer \<Rightarrow> syncer option" where
  "stateTick ord S =
     do {
       head \<leftarrow> HeadSnapshot (pBc (rw S));
       sending (broadcastState ord \<lparr>Hash = Thash head, Height = Theight head\<rparr>) S
     }"

section \<open>The receiver\<close>

datatype innerHandler =
    accountHashHandler | snapshotHashHandler | snapshotBlocksHandler | accountBlocksHandler | stateHandler
  | reqAccountHashHandler | reqSnapshotHashHandler | reqAccountBlocksHandler | reqSnapshotBlocksHandler

fun Types :: "innerHandler \<Rightarrow> NetMsgType list" where
  "Types accountHashHandler = [AccountHashesT]"
| "Types snapshotHashHandler = [SnapshotHashesT]"
| "Types snapshotBlocksHandler = [SnapshotBlocksT]"
| "Types accountBlocksHandler = [AccountBlocksT]"
| "Types stateHandler = [State, PeerConnected, PeerClosed]"
| "Types reqAccountHashHandler = [RequestAccountHashT]"
| "Types reqSnapshotHashHandler = [RequestSnapshotHashT]"
| "Types reqAccountBlocksHandler = [RequestAccountBlocksT]"
| "Types reqSnapshotBlocksHandler = [RequestSnapshotBlocksT]"

definition allInnerHandlers :: "innerHandler list" where
  "allInnerHandlers =
     [accountHashHandler, snapshotHashHandler, snapshotBlocksHandler, accountBlocksHandler, stateHandler,
      reqAccountHashHandler, reqSnapshotHashHandler, reqAccountBlocksHandler, reqSnapshotBlocksHandler]"

definition innerHandlers :: "NetMsgType \<Rightarrow> innerHandler list" where
  "innerHandlers t = filter (\<lambda>h. t \<in> set (Types h)) allInnerHandlers"

definition handleInner :: "ordering \<Rightarrow> innerHandler \<Rightarrow> bool \<Rightarrow> netMsg \<Rightarrow> string \<Rightarrow> syncer \<Rightarrow> syncer option" where
  "handleInner ord h ok m pid S =
     (case h of
        stateHandler \<Rightarrow>
          (case m of
             peerClosedMsg \<Rightarrow> Some (peerClosed_st pid S)
           | peerConnectedMsg \<Rightarrow> Some (peerConnected pid S)
           | stateMsg s \<Rightarrow> if ok then update_st s pid S else Some S
           | _ \<Rightarrow> Some S)
      | snapshotHashHandler \<Rightarrow>
          (case m of snapshotHashesMsg hs \<Rightarrow> fetchSnapshotBlockByHash ord hs S | _ \<Rightarrow> Some S)
      | accountHashHandler \<Rightarrow>
          (case m of accountHashesMsg addr hs \<Rightarrow> fetchAccountBlockByHash ord addr hs S | _ \<Rightarrow> Some S)
      | snapshotBlocksHandler \<Rightarrow> (case m of snapshotBlocksMsg bs \<Rightarrow> snapshotBlocks_in bs S | _ \<Rightarrow> Some S)
      | accountBlocksHandler \<Rightarrow> (case m of accountBlocksMsg addr bs \<Rightarrow> accountBlocks_in bs S | _ \<Rightarrow> Some S)
      | reqAccountHashHandler \<Rightarrow>
          (case m of requestAccountHashMsg addr hashH n \<Rightarrow> reqAccountHash ok addr hashH n pid S | _ \<Rightarrow> Some S)
      | reqSnapshotHashHandler \<Rightarrow>
          (case m of requestSnapshotHashMsg hashH n \<Rightarrow> reqSnapshotHash ok hashH n pid S | _ \<Rightarrow> Some S)
      | reqAccountBlocksHandler \<Rightarrow>
          (case m of requestAccountBlockMsg addr hs \<Rightarrow> reqAccountBlocks addr hs pid S | _ \<Rightarrow> Some S)
      | reqSnapshotBlocksHandler \<Rightarrow>
          (case m of requestSnapshotBlockMsg hs \<Rightarrow> reqSnapshotBlocks hs pid S | _ \<Rightarrow> Some S))"

fun runInner :: "ordering \<Rightarrow> innerHandler list \<Rightarrow> bool \<Rightarrow> netMsg \<Rightarrow> string \<Rightarrow> syncer \<Rightarrow> syncer option" where
  "runInner ord [] ok m pid S = Some S"
| "runInner ord (h # hs) ok m pid S = do { S1 \<leftarrow> handleInner ord h ok m pid S; runInner ord hs ok m pid S1 }"

definition innerHandle :: "ordering \<Rightarrow> bool \<Rightarrow> netMsg \<Rightarrow> string \<Rightarrow> syncer \<Rightarrow> syncer option" where
  "innerHandle ord ok m pid S = runInner ord (innerHandlers (msgType m)) ok m pid S"

text \<open>The handlers that other parts register, by message type and id; \<open>'h\<close> is what they do.\<close>

record 'h msgHandler =
  handlerTypes :: "NetMsgType list"
  handlerId :: string
  handlerFn :: 'h

type_synonym 'h registry = "NetMsgType \<Rightarrow> string \<rightharpoonup> 'h msgHandler"

definition RegisterHandler :: "'h msgHandler \<Rightarrow> 'h registry \<Rightarrow> 'h registry" where
  "RegisterHandler h hmap = fold (\<lambda>t m. m(t := (m t)(handlerId h \<mapsto> h))) (handlerTypes h) hmap"

definition UnRegisterHandler :: "'h msgHandler \<Rightarrow> 'h registry \<Rightarrow> 'h registry" where
  "UnRegisterHandler h hmap = fold (\<lambda>t m. m(t := (m t)(handlerId h := None))) (handlerTypes h) hmap"

type_synonym handlerFun = "bool \<Rightarrow> netMsg \<Rightarrow> string \<Rightarrow> syncer \<Rightarrow> syncer option"

fun runRegistered :: "handlerFun msgHandler list \<Rightarrow> bool \<Rightarrow> netMsg \<Rightarrow> string \<Rightarrow> syncer \<Rightarrow> syncer option" where
  "runRegistered [] ok m pid S = Some S"
| "runRegistered (h # hs) ok m pid S = do { S1 \<leftarrow> handlerFn h ok m pid S; runRegistered hs ok m pid S1 }"

definition Handle ::
  "ordering \<Rightarrow> handlerFun registry \<Rightarrow> bool \<Rightarrow> netMsg \<Rightarrow> string \<Rightarrow> syncer \<Rightarrow> syncer option" where
  "Handle ord hmap ok m pid S =
     do {
       S1 \<leftarrow> innerHandle ord ok m pid S;
       let hs = hmap (msgType m);
       runRegistered (List.map_filter hs (ord (dom hs))) ok m pid S1
     }"

section \<open>The first synchronisation\<close>

text \<open>The outer \<^const>\<open>None\<close> is a panic: a peer without a state.\<close>

fun bestPeerLoop :: "string list \<Rightarrow> network \<Rightarrow> string option option" where
  "bestPeerLoop [] n = Some None"
| "bestPeerLoop (pid # pids) n =
     do {
       p \<leftarrow> peers n pid;
       s \<leftarrow> GetState p;
       if Height (handS s) > -1 then Some (Some pid) else bestPeerLoop pids n
     }"

definition bestPeer :: "ordering \<Rightarrow> syncer \<Rightarrow> string option option" where
  "bestPeer ord S = bestPeerLoop (ord (syPeers S)) (net S)"

definition firstSyncDone :: "syncer \<Rightarrow> syncer option" where
  "firstSyncDone S =
     (if taClosed (firstTa S) then None
      else Some (S\<lparr>firstTa := (firstTa S)\<lparr>taClosed := True, taDone := True\<rparr>, dwlDone := Suc (dwlDone S)\<rparr>))"

definition syncDone :: "syncer \<Rightarrow> bool" where
  "syncDone S \<longleftrightarrow> taDone (firstTa S)"

definition stop_st :: "syncer \<Rightarrow> syncer option" where
  "stop_st S = (if stClosed S then None else Some (S\<lparr>stClosed := True\<rparr>))"

text \<open>
  The goroutine of the first synchronisation waits twice, for one of the events below; an
  event can be taken when its channel is ready. The tickers can be ready at any time.
\<close>

datatype syncEvent = EvClosed | EvTaClosed | EvTimeout | EvTick

datatype syncPc = FindPeer | AwaitBlocks | Returned

fun eventReady :: "syncPc \<Rightarrow> syncEvent \<Rightarrow> syncer \<Rightarrow> bool" where
  "eventReady pc EvClosed S = (pc \<noteq> Returned \<and> stClosed S)"
| "eventReady pc EvTaClosed S = (pc \<noteq> Returned \<and> taClosed (firstTa S))"
| "eventReady pc EvTimeout S = (pc = FindPeer)"
| "eventReady pc EvTick S = (pc \<noteq> Returned)"

text \<open>What follows once a peer was found.\<close>

definition syncFrom :: "string \<Rightarrow> syncer \<Rightarrow> (syncPc \<times> syncer) option" where
  "syncFrom pid S =
     do {
       p \<leftarrow> peers (net S) pid;
       s \<leftarrow> GetState p;
       let S1 = S\<lparr>firstTa := (firstTa S)\<lparr>taHash := Hash (handS s), taHeight := Height (handS s), taPeer := Some pid\<rparr>\<rparr>;
       head \<leftarrow> HeadSnapshot (pBc (rw S1));
       if Theight head \<ge> taHeight (firstTa S1)
       then do { S2 \<leftarrow> firstSyncDone S1; Some (Returned, S2) }
       else do {
         S2 \<leftarrow> sending (requestSnapshotBlockByPeer \<lparr>Hash = taHash (firstTa S1), Height = taHeight (firstTa S1)\<rparr> pid) S1;
         Some (AwaitBlocks, S2)
       }
     }"

fun syncFirst_step :: "ordering \<Rightarrow> syncPc \<Rightarrow> syncEvent \<Rightarrow> syncer \<Rightarrow> (syncPc \<times> syncer) option" where
  "syncFirst_step ord pc EvClosed S = Some (Returned, S)"
| "syncFirst_step ord pc EvTaClosed S = Some (Returned, S)"
| "syncFirst_step ord pc EvTimeout S = do { S1 \<leftarrow> firstSyncDone S; Some (pc, S1) }"
| "syncFirst_step ord FindPeer EvTick S =
     (if syPeers S = {} then Some (FindPeer, S)
      else do {
        p \<leftarrow> bestPeer ord S;
        case p of None \<Rightarrow> Some (FindPeer, S) | Some pid \<Rightarrow> syncFrom pid S
      })"
| "syncFirst_step ord AwaitBlocks EvTick S =
     do {
       head \<leftarrow> HeadSnapshot (pBc (rw S));
       if Theight head > taHeight (firstTa S)
       then do { S1 \<leftarrow> firstSyncDone S; Some (Returned, S1) }
       else Some (AwaitBlocks, S)
     }"
| "syncFirst_step ord Returned EvTick S = Some (Returned, S)"

end
