(* ===== verification/Syncer_Props.thy ===== *)
theory Syncer_Props
  imports Syncer
begin

text \<open>
  Properties of the syncer: cutting into chunks and putting together again, the hashes and blocks
  that a node answers with, the exchange of messages by which one node fetches blocks of another,
  what bad messages do, the handshake, and the first synchronisation.
\<close>

section \<open>Chunks\<close>

lemma splitLoop_concat: "0 < lim \<Longrightarrow> concat (splitLoop lim buf) = buf"
proof (induction lim buf rule: splitLoop.induct)
  case (1 lim buf)
  then show ?case by (subst splitLoop.simps) auto
qed

lemma splitLoop_sizes:
  "0 < lim \<Longrightarrow> c \<in> set (splitLoop lim buf) \<Longrightarrow> 0 < length c \<and> length c \<le> lim"
proof (induction lim buf rule: splitLoop.induct)
  case (1 lim buf)
  show ?case using 1(2,3) 1(1) by (subst (asm) splitLoop.simps) (auto split: if_splits)
qed

lemma splitLoop_full:
  "0 < lim \<Longrightarrow> c \<in> set (butlast (splitLoop lim buf)) \<Longrightarrow> length c = lim"
proof (induction lim buf rule: splitLoop.induct)
  case (1 lim buf)
  show ?case using 1(2,3) 1(1) by (subst (asm) splitLoop.simps) (auto split: if_splits)
qed

lemma splitLoop_short: "0 < length buf \<Longrightarrow> length buf \<le> lim \<Longrightarrow> splitLoop lim buf = [buf]"
  by (cases "length buf = lim") (subst splitLoop.simps, simp, (subst splitLoop.simps, simp)?)+

section \<open>Reading a chain backwards\<close>

definition hashOf :: "'a Tblock_scheme \<Rightarrow> HashHeight" where
  "hashOf b = \<lparr>Hash = Thash b, Height = Theight b\<rparr>"

lemma hashOf_simps [simp]: "Hash (hashOf b) = Thash b" "Height (hashOf b) = Theight b"
  by (simp_all add: hashOf_def)

text \<open>The blocks of a chain from height \<open>h\<close> downwards, at most \<open>n\<close> of them.\<close>

definition chainBelow :: "'a height_index \<Rightarrow> int \<Rightarrow> nat \<Rightarrow> 'a Tblock_scheme list" where
  "chainBelow index h n = map (\<lambda>i. the (index (h - int i))) [0..<min n (nat (h + 1))]"

lemma chainBelow_0 [simp]: "chainBelow index h 0 = []" by (simp add: chainBelow_def)

lemma chainBelow_neg [simp]: "h < 0 \<Longrightarrow> chainBelow index h n = []" by (simp add: chainBelow_def)

lemma chainBelow_empty: "chainBelow index h n = [] \<longleftrightarrow> n = 0 \<or> h < 0"
  by (auto simp: chainBelow_def)

lemma chainBelow_Suc: "0 \<le> h \<Longrightarrow> chainBelow index h (Suc n) = the (index h) # chainBelow index (h - 1) n"
proof -
  assume "0 \<le> h"
  then have "min (Suc n) (nat (h + 1)) = Suc (min n (nat (h - 1 + 1)))" by simp
  then show ?thesis
    by (simp add: chainBelow_def upt_conv_Cons map_Suc_upt [symmetric] del: upt_Suc) (simp add: algebra_simps)
qed

text \<open>
  A component that finds the blocks of a chain by hash and height. The requests for hashes and
  for blocks rely on nothing else, whatever the chain behind it.
\<close>

locale hash_reader =
  fixes inv :: "'s \<Rightarrow> bool" and get :: "'s \<Rightarrow> HashHeight \<Rightarrow> 'a Tblock_scheme option"
    and index :: "'s \<Rightarrow> 'a height_index" and head :: "'s \<Rightarrow> 'a Tblock_scheme option"
  assumes ok: "inv s \<Longrightarrow> chain_ok (index s) (head s)"
    and get: "inv s \<Longrightarrow> get s hh = (case index s (Height hh) of
        None \<Rightarrow> None | Some b \<Rightarrow> if Thash b = Hash hh then Some b else None)"
begin

lemma get_hashOf: "inv s \<Longrightarrow> index s h = Some b \<Longrightarrow> get s (hashOf b) = Some b"
  using chain_ok_height [OF ok] by (fastforce simp: get)

lemma index_range: "inv s \<Longrightarrow> index s h = Some b \<Longrightarrow> 0 \<le> h"
  using chain_ok_negative [OF ok, of s h] by (cases "0 \<le> h") auto

lemma index_pred:
  assumes "inv s" "index s h = Some b" "0 < h"
  shows "\<exists>c. index s (h - 1) = Some c \<and> Thash c = TpreHash b \<and> Theight c = h - 1"
proof -
  obtain t where t: "head s = Some t"
    using ok [OF assms(1)] assms(2) by (cases "head s") (auto simp: chain_ok_def)
  note c = ok [OF assms(1), unfolded t]
  have "h \<in> dom (index s)" using assms(2) by blast
  then have h: "h \<le> Theight t" using chain_okD(4) [OF c] by simp
  obtain d where d: "index s (h - 1) = Some d" "Theight d = h - 1"
    using linked_get [OF chain_okD(3) [OF c], of "h - 1"] h assms(3) by auto
  moreover have "TpreHash b = Thash d"
    using linked_preHash [OF chain_okD(3) [OF c], of "h - 1" d b] d h assms by simp
  ultimately show ?thesis by simp
qed

lemma prevHashes_chain:
  "inv s \<Longrightarrow> index s h = Some b \<Longrightarrow> prevHashes (get s) n (hashOf b) = map hashOf (chainBelow (index s) h n)"
proof (induction n arbitrary: h b)
  case (Suc n)
  note b = get_hashOf [OF Suc.prems] index_range [OF Suc.prems] chain_ok_height [OF ok [OF Suc.prems(1)] Suc.prems(2)]
  show ?case
  proof (cases "h = 0")
    case True
    have "prevHashes (get s) n \<lparr>Hash = TpreHash b, Height = - 1\<rparr> = []"
      using get [OF Suc.prems(1), of "\<lparr>Hash = TpreHash b, Height = - 1\<rparr>"] chain_ok_negative [OF ok [OF Suc.prems(1)], of "-1"]
      by (cases n) simp_all
    then show ?thesis using b True Suc.prems by (simp add: chainBelow_Suc)
  next
    case False
    then obtain c where c: "index s (h - 1) = Some c" "Thash c = TpreHash b" "Theight c = h - 1"
      using index_pred [OF Suc.prems] b(2) by force
    have "hashOf c = \<lparr>Hash = TpreHash b, Height = Theight b - 1\<rparr>" using c b(3) by (simp add: hashOf_def)
    then show ?thesis using Suc.IH [OF Suc.prems(1) c(1)] b Suc.prems by (simp add: chainBelow_Suc)
  qed
qed simp

lemma chainBelow_get:
  assumes "inv s" "index s h = Some b" "x \<in> set (chainBelow (index s) h n)"
  shows "get s (hashOf x) = Some x \<and> (\<exists>i. index s i = Some x)"
proof -
  obtain t where t: "head s = Some t"
    using ok [OF assms(1)] assms(2) by (cases "head s") (auto simp: chain_ok_def)
  note c = ok [OF assms(1), unfolded t]
  have "h \<in> dom (index s)" using assms(2) by blast
  then have h: "h \<le> Theight t" using chain_okD(4) [OF c] by simp
  obtain i where i: "i < min n (nat (h + 1))" "x = the (index s (h - int i))" using assms(3) by (auto simp: chainBelow_def)
  have "h - int i \<in> dom (index s)" using i h chain_okD(4) [OF c] by auto
  then have "index s (h - int i) = Some x" using i by auto
  then show ?thesis using get_hashOf [OF assms(1)] by blast
qed

lemma blocks_of_prevHashes:
  assumes "inv s" "index s h = Some b"
  shows "List.map_filter (get s) (prevHashes (get s) n (hashOf b)) = chainBelow (index s) h n"
proof -
  have "List.map_filter (get s) (map hashOf xs) = xs" if "\<And>x. x \<in> set xs \<Longrightarrow> get s (hashOf x) = Some x" for xs
    using that by (induction xs) (simp_all add: List.map_filter_simps)
  then show ?thesis using prevHashes_chain [OF assms] chainBelow_get [OF assms] by metis
qed

lemma prevHashes_unknown: "inv s \<Longrightarrow> get s hh = None \<Longrightarrow> prevHashes (get s) n hh = []"
  by (cases n) simp_all

end

interpretation snapshot_reader: hash_reader chain_inv GetSnapshotByHashH "\<lambda>bc. GetSnapshotByHeight (store bc)" HeadSnapshot
proof
  fix bc hh
  assume inv: "chain_inv bc"
  then show ok: "chain_ok (GetSnapshotByHeight (store bc)) (HeadSnapshot bc)"
    using chain_invD(2) by (simp add: snapshot_ok_def)
  show "GetSnapshotByHashH bc hh = (case GetSnapshotByHeight (store bc) (Height hh) of
      None \<Rightarrow> None | Some b \<Rightarrow> if Thash b = Hash hh then Some b else None)"
    using chain_ok_negative [OF ok, of "Height hh"]
    by (auto simp: GetSnapshotByHashH_def GetBlockByHashH_sc_def split: option.split)
qed

interpretation account_reader: hash_reader "\<lambda>bc. chain_inv bc \<and> a \<noteq> snapshotHeadKey"
  "\<lambda>bc hh. fst (GetAccountByHashH bc a hh)" "\<lambda>bc. GetAccountByHeight (store bc) a" "\<lambda>bc. acHead (acOf bc a)"
  for a
proof
  fix bc hh
  assume inv: "chain_inv bc \<and> a \<noteq> snapshotHeadKey"
  then show ok: "chain_ok (GetAccountByHeight (store bc) a) (acHead (acOf bc a))"
    using chain_invD(4) [of bc a] by (simp add: account_ok_def)
  show "fst (GetAccountByHashH bc a hh) = (case GetAccountByHeight (store bc) a (Height hh) of
      None \<Rightarrow> None | Some b \<Rightarrow> if Thash b = Hash hh then Some b else None)"
    using chain_ok_negative [OF ok, of "Height hh"] ac_wf_address [OF chain_invD(1), of bc a] inv
    by (auto simp: GetAccountByHashH_def GetBlockByHashH_ac_def split: option.split)
qed

section \<open>Links between nodes\<close>

text \<open>Node \<open>n\<close> is linked to peer \<open>pid\<close>, with room for \<open>k\<close> more messages in its queue.\<close>

definition linked_to :: "nat \<Rightarrow> string \<Rightarrow> network \<Rightarrow> bool" where
  "linked_to k pid n \<longleftrightarrow>
     (\<exists>p. peers n pid = Some p \<and> peerId p = pid \<and> \<not> peerClosed p \<and> length (writeCh p) + k \<le> writeChCap)"

definition outbox :: "string \<Rightarrow> network \<Rightarrow> netMsg list" where
  "outbox pid n = (case peers n pid of None \<Rightarrow> [] | Some p \<Rightarrow> writeCh p)"

text \<open>The network after a message was queued.\<close>

definition push :: "string \<Rightarrow> netMsg \<Rightarrow> network \<Rightarrow> network" where
  "push pid m n = n\<lparr>peers := (peers n)(pid := map_option (\<lambda>p. p\<lparr>writeCh := writeCh p @ [m]\<rparr>) (peers n pid))\<rparr>"

lemma push_simps [simp]:
  "dom (peers (push pid m n)) = dom (peers n)"
  "linked_to (Suc k) pid n \<Longrightarrow> linked_to k pid (push pid m n)"
  "linked_to k pid n \<Longrightarrow> outbox pid (push pid m n) = outbox pid n @ [m]"
  by (auto simp: push_def linked_to_def outbox_def dom_def split: if_splits)

lemma writeTo_push: "linked_to (Suc k) pid n \<Longrightarrow> writeTo pid m n = Some (None, push pid m n)"
  by (auto simp: linked_to_def writeTo_def Write_def push_def map_upd_Some_unfold intro!: arg_cong [of _ _ "\<lambda>x. n\<lparr>peers := x\<rparr>"])

lemma toBestPeer_push:
  assumes "linked_to (Suc k) pid n" "ord (dom (peers n)) = pid # rest"
  shows "toBestPeer ord m n = Some (None, push pid m n)"
proof -
  obtain p where "peers n pid = Some p" "peerId p = pid" using assms(1) by (auto simp: linked_to_def)
  then show ?thesis
    using writeTo_push [OF assms(1)] assms(2) by (simp add: toBestPeer_def BestPeer_def List.map_filter_simps)
qed

lemma linked_to_mono: "linked_to k pid n \<Longrightarrow> j \<le> k \<Longrightarrow> linked_to j pid n"
  by (auto simp: linked_to_def)

section \<open>Dispatch\<close>

lemma bind_runInner_Nil: "Option.bind x (runInner ord [] ok m pid) = x"
  by (cases x) simp_all

lemma innerHandle_simps [simp]:
  "innerHandle ord ok peerConnectedMsg pid S = Some (peerConnected pid S)"
  "innerHandle ord ok peerClosedMsg pid S = Some (peerClosed_st pid S)"
  "innerHandle ord ok (stateMsg s) pid S = (if ok then update_st s pid S else Some S)"
  "innerHandle ord ok (requestAccountHashMsg a hh k) pid S = reqAccountHash ok a hh k pid S"
  "innerHandle ord ok (requestSnapshotHashMsg hh k) pid S = reqSnapshotHash ok hh k pid S"
  "innerHandle ord ok (requestAccountBlockMsg a hs) pid S = reqAccountBlocks a hs pid S"
  "innerHandle ord ok (requestSnapshotBlockMsg hs) pid S = reqSnapshotBlocks hs pid S"
  "innerHandle ord ok (accountHashesMsg a hs) pid S = fetchAccountBlockByHash ord a hs S"
  "innerHandle ord ok (snapshotHashesMsg hs) pid S = fetchSnapshotBlockByHash ord hs S"
  "innerHandle ord ok (accountBlocksMsg a bs) pid S = accountBlocks_in bs S"
  "innerHandle ord ok (snapshotBlocksMsg bs1) pid S = snapshotBlocks_in bs1 S"
  "innerHandle ord ok (otherMsg i) pid S = Some S"
  by (simp_all add: innerHandle_def innerHandlers_def allInnerHandlers_def handleInner_def bind_runInner_Nil)

lemma Handle_unregistered [simp]: "Handle ord (\<lambda>_. Map.empty) ok m pid S = innerHandle ord ok m pid S"
proof -
  have "List.map_filter (Map.empty :: string \<rightharpoonup> handlerFun msgHandler) xs = []" for xs
    by (induction xs) (simp_all add: List.map_filter_simps)
  then show ?thesis by (cases "innerHandle ord ok m pid S") (simp_all add: Handle_def)
qed

text \<open>Registering a handler and taking it away again leaves the registry as it was.\<close>

lemma RegisterHandler_get:
  "RegisterHandler h m t i = (if t \<in> set (handlerTypes h) \<and> i = handlerId h then Some h else m t i)"
proof -
  have "fold (\<lambda>t m. m(t := (m t)(handlerId h \<mapsto> h))) ts m t i = (if t \<in> set ts \<and> i = handlerId h then Some h else m t i)" for ts
    by (induction ts arbitrary: m) auto
  then show ?thesis by (simp add: RegisterHandler_def)
qed

lemma UnRegisterHandler_get:
  "UnRegisterHandler h m t i = (if t \<in> set (handlerTypes h) \<and> i = handlerId h then None else m t i)"
proof -
  have "fold (\<lambda>t m. m(t := (m t)(handlerId h := None))) ts m t i = (if t \<in> set ts \<and> i = handlerId h then None else m t i)" for ts
    by (induction ts arbitrary: m) auto
  then show ?thesis by (simp add: UnRegisterHandler_def)
qed

lemma Register_UnRegister:
  assumes "\<And>t. t \<in> set (handlerTypes h) \<Longrightarrow> m t (handlerId h) = None"
  shows "UnRegisterHandler h (RegisterHandler h m) = m"
  using assms by (auto simp: fun_eq_iff RegisterHandler_get UnRegisterHandler_get)

section \<open>The retry policy\<close>

lemma retry_new: "m k = None \<Longrightarrow> retry now k m = (True, m(k \<mapsto> newRetryStatus now))"
  by (simp add: retry_def)

text \<open>
  A hash that was asked for is asked for again only after more than two seconds, or three
  seconds after its block came, and only at the tenth, or sixth, attempt; an attempt that is
  turned down is counted.
\<close>

lemma retry_known:
  assumes "m k = Some st" "retry now k m = (ok, m')"
  shows "ok \<longleftrightarrow> (if isDone st then 5 \<le> cnt st \<and> dtime st + 3 * second < now else 10 \<le> cnt st \<and> ftime st + 2 * second < now)"
    "\<not> ok \<Longrightarrow> m' = m(k \<mapsto> st\<lparr>cnt := cnt st + 1\<rparr>)"
    "ok \<Longrightarrow> m' = m(k \<mapsto> st\<lparr>cnt := 1, isDone := False, ftime := now\<rparr>)"
  using assms by (auto simp: retry_def inc_rs_def reset_rs_def Let_def split: if_splits)

text \<open>Since nothing sets the time that the second policy compares with, it lets every attempt through.\<close>

lemma retry_addr_always:
  assumes "\<And>k st. m k = Some st \<Longrightarrow> dtime st = zeroTime" "0 \<le> now"
  shows "fst (retry_addr now key m) \<and> (\<forall>k st. snd (retry_addr now key m) k = Some st \<longrightarrow> dtime st = zeroTime)"
proof (cases "m key")
  case None
  then show ?thesis using assms by (simp add: retry_addr_def newRetryStatus_def)
next
  case (Some st)
  have "zeroTime + second < now" using assms(2) by (simp add: zeroTime_def second_def)
  then show ?thesis using assms(1) assms(1) [OF Some] Some by (simp add: retry_addr_def inc_rs_def)
qed

lemma retryAll_new:
  assumes "distinct (map Hash ts)" "\<And>t. t \<in> set ts \<Longrightarrow> fetchedHashs S (Hash t) = None"
  shows "\<exists>m. retryAll ts S = (ts, S\<lparr>fetchedHashs := m\<rparr>)"
  using assms
proof (induction ts arbitrary: S)
  case (Cons t ts)
  let ?S = "S\<lparr>fetchedHashs := (fetchedHashs S)(Hash t \<mapsto> newRetryStatus (clock_sy S))\<rparr>"
  have "\<exists>m. retryAll ts ?S = (ts, ?S\<lparr>fetchedHashs := m\<rparr>)"
  proof (rule Cons.IH)
    show "distinct (map Hash ts)" using Cons.prems(1) by simp
    show "fetchedHashs ?S (Hash u) = None" if "u \<in> set ts" for u
      using Cons.prems(1) Cons.prems(2) [of u] that by (auto simp: image_iff)
  qed
  then show ?case using Cons.prems(2) [of t] by (auto simp: retry_sy_def retry_new)
next
  case (Nil S)
  show ?case by (intro exI [of _ "fetchedHashs S"]) simp
qed

section \<open>Blocks from the network\<close>

lemma snapshotBlocks_in_eq:
  "\<exists>m. snapshotBlocks_in (map Some bs) S = Some (S\<lparr>fetchedHashs := m, rw := fold AddSnapshotBlock bs (rw S)\<rparr>)"
proof (induction bs arbitrary: S)
  case (Nil S)
  show ?case by (intro exI [of _ "fetchedHashs S"]) simp
next
  case (Cons b bs S)
  let ?S = "S\<lparr>fetchedHashs := done_retry (clock_sy S) (Thash b) (fetchedHashs S), rw := AddSnapshotBlock b (rw S)\<rparr>"
  obtain m where "snapshotBlocks_in (map Some bs) ?S = Some (?S\<lparr>fetchedHashs := m, rw := fold AddSnapshotBlock bs (rw ?S)\<rparr>)"
    using Cons.IH by blast
  then show ?case by (intro exI [of _ m]) (simp add: done_sy_def)
qed

lemma snapshotBlocks_in_null: "snapshotBlocks_in bs S = None \<longleftrightarrow> None \<in> set bs"
proof (induction bs arbitrary: S)
  case (Cons v bs S)
  then show ?case by (cases v) (simp_all add: Let_def)
qed simp

text \<open>The free and the compounded blocks of the snapshot pool.\<close>

abbreviation freeOf :: "pool \<Rightarrow> string \<Rightarrow> unit SnapshotBlock_ext pblock option" where
  "freeOf p \<equiv> freeBlocks (blockpool (pendingSc p))"

abbreviation knownIn :: "pool \<Rightarrow> string \<Rightarrow> bool" where
  "knownIn p hash \<equiv> contains_bp (blockpool (pendingSc p)) hash 0"

lemma contains_bp_height: "contains_bp bp hash h = contains_bp bp hash 0"
  by (simp add: contains_bp_def)

lemma AddSnapshotBlock_known [simp]:
  "knownIn (AddSnapshotBlock b p) h \<longleftrightarrow> h = Thash b \<or> knownIn p h"
  by (auto simp: AddSnapshotBlock_def AddBlock_def Let_def contains_bp_def putBlock_def)

lemma AddSnapshotBlock_free:
  "freeOf (AddSnapshotBlock b p) h =
     (if h = Thash b \<and> \<not> knownIn p h then Some \<lparr>block = b, forkVersion = pVer p\<rparr> else freeOf p h)"
  by (auto simp: AddSnapshotBlock_def AddBlock_def Let_def contains_bp_def putBlock_def)

lemma AddSnapshotBlock_frame [simp]:
  "pVer (AddSnapshotBlock b p) = pVer p" "pBc (AddSnapshotBlock b p) = pBc p"
  by (simp_all add: AddSnapshotBlock_def)

lemma fold_AddSnapshotBlock:
  assumes "distinct (map Thash bs)"
  shows "(knownIn (fold AddSnapshotBlock bs p) h \<longleftrightarrow> h \<in> Thash ` set bs \<or> knownIn p h) \<and>
    (\<forall>x \<in> set bs. \<not> knownIn p (Thash x) \<longrightarrow> freeOf (fold AddSnapshotBlock bs p) (Thash x) = Some \<lparr>block = x, forkVersion = pVer p\<rparr>) \<and>
    (h \<notin> Thash ` set bs \<longrightarrow> freeOf (fold AddSnapshotBlock bs p) h = freeOf p h)"
  using assms
proof (induction bs arbitrary: p h)
  case (Cons b bs)
  let ?p = "AddSnapshotBlock b p"
  have d: "distinct (map Thash bs)" "Thash b \<notin> Thash ` set bs" using Cons.prems by auto
  note IH = Cons.IH [OF d(1), of ?p]
  have "freeOf (fold AddSnapshotBlock bs ?p) (Thash x) = Some \<lparr>block = x, forkVersion = pVer p\<rparr>"
    if x: "x \<in> set (b # bs)" "\<not> knownIn p (Thash x)" for x
  proof (cases "x \<in> set bs")
    case True
    then have "Thash x \<noteq> Thash b" using d(2) by (metis image_eqI)
    then show ?thesis using IH True x(2) by simp
  next
    case False
    then have "x = b" using x by simp
    then show ?thesis using IH [of "Thash b"] d(2) x(2) AddSnapshotBlock_free [of b p "Thash b"] by simp
  qed
  moreover have "h \<notin> Thash ` set (b # bs) \<longrightarrow> freeOf (fold AddSnapshotBlock bs ?p) h = freeOf p h"
    using IH [of h] AddSnapshotBlock_free [of b p h] by auto
  moreover have "knownIn (fold AddSnapshotBlock bs ?p) h \<longleftrightarrow> h \<in> Thash ` set (b # bs) \<or> knownIn p h"
    using IH [of h] by auto
  ultimately show ?case by simp
qed simp

section \<open>Fetching snapshot blocks of another node\<close>

lemma chainBelow_hashes:
  assumes "chain_inv bc" "GetSnapshotByHeight (store bc) h = Some b"
  shows "distinct (map Thash (chainBelow (GetSnapshotByHeight (store bc)) h n))"
proof -
  let ?ix = "GetSnapshotByHeight (store bc)"
  have get: "\<exists>x. ?ix (h - int i) = Some x \<and> Theight x = h - int i" if i: "i < min n (nat (h + 1))" for i
  proof -
    have "the (?ix (h - int i)) \<in> set (chainBelow ?ix h n)" using i by (auto simp: chainBelow_def)
    obtain t where t: "HeadSnapshot bc = Some t" using chain_invD(3) [OF assms(1)] by blast
    note c = snapshot_reader.ok [OF assms(1), unfolded t]
    have "h \<in> dom ?ix" using assms(2) by blast
    then have "h - int i \<in> dom ?ix" using i chain_okD(4) [OF c] by auto
    then show ?thesis using chain_ok_height [OF c] by blast
  qed
  have hash: "GetSnapshotByHash (store bc) (Thash x) = Some x" if "?ix k = Some x" for k x
    using chain_invD(2) [OF assms(1)] that by (simp add: snapshot_ok_def)
  have "inj_on (\<lambda>i. Thash (the (?ix (h - int i)))) {0..<min n (nat (h + 1))}"
  proof (rule inj_onI)
    fix i j
    assume ij: "i \<in> {0..<min n (nat (h + 1))}" "j \<in> {0..<min n (nat (h + 1))}"
      and eq: "Thash (the (?ix (h - int i))) = Thash (the (?ix (h - int j)))"
    obtain x where x: "?ix (h - int i) = Some x" "Theight x = h - int i" using get [of i] ij by auto
    obtain y where y: "?ix (h - int j) = Some y" "Theight y = h - int j" using get [of j] ij by auto
    have "Thash x = Thash y" using eq by (simp only: x(1) y(1) option.sel)
    then have "Some x = Some y" using hash [OF x(1)] hash [OF y(1)] by metis
    then have "x = y" by blast
    then show "i = j" using x(2) y(2) by simp
  qed
  then show ?thesis by (simp add: chainBelow_def distinct_map comp_def)
qed

lemma sending_push: "linked_to (Suc k) pid (net S) \<Longrightarrow> sending (writeTo pid m) S = Some (S\<lparr>net := push pid m (net S)\<rparr>)"
  by (simp add: sending_def writeTo_push)

lemma sending_best:
  "linked_to (Suc k) pid (net S) \<Longrightarrow> ord (dom (peers (net S))) = pid # rest \<Longrightarrow>
   sending (toBestPeer ord m) S = Some (S\<lparr>net := push pid m (net S)\<rparr>)"
  by (simp add: sending_def toBestPeer_push)

text \<open>The answers of a node whose chain holds the block asked for.\<close>

lemma reqSnapshotHash_answers:
  assumes "chain_inv (pBc (rw S))" "GetSnapshotByHeight (store (pBc (rw S))) h = Some b" "0 < n" "linked_to (Suc k) pid (net S)"
  shows "reqSnapshotHash True (hashOf b) n pid S =
    Some (S\<lparr>net := push pid (snapshotHashesMsg (map hashOf (chainBelow (GetSnapshotByHeight (store (pBc (rw S)))) h (nat n)))) (net S)\<rparr>)"
proof -
  have "chainBelow (GetSnapshotByHeight (store (pBc (rw S)))) h (nat n) \<noteq> []"
    using snapshot_reader.index_range [OF assms(1,2)] assms(3) by (simp add: chainBelow_empty)
  then show ?thesis
    using snapshot_reader.prevHashes_chain [OF assms(1,2)] sending_push [OF assms(4)]
    by (simp add: reqSnapshotHash_def SendSnapshotHashes_def [abs_def] Let_def)
qed

lemma reqSnapshotBlocks_answers:
  assumes "chain_inv (pBc (rw S))" "GetSnapshotByHeight (store (pBc (rw S))) h = Some b" "0 < n" "linked_to (Suc k) pid (net S)"
  defines "bs \<equiv> chainBelow (GetSnapshotByHeight (store (pBc (rw S)))) h (nat n)"
  shows "reqSnapshotBlocks (map hashOf bs) pid S = Some (S\<lparr>net := push pid (snapshotBlocksMsg (map Some bs)) (net S)\<rparr>)"
proof -
  have ne: "bs \<noteq> []"
    using snapshot_reader.index_range [OF assms(1,2)] assms(3) by (simp add: bs_def chainBelow_empty)
  have "List.map_filter (GetSnapshotByHashH (pBc (rw S))) (map hashOf bs) = bs"
    using snapshot_reader.blocks_of_prevHashes [OF assms(1,2), of "nat n"] snapshot_reader.prevHashes_chain [OF assms(1,2), of "nat n"]
    by (simp add: bs_def)
  then show ?thesis using ne sending_push [OF assms(4)]
    by (simp add: reqSnapshotBlocks_def SendSnapshotBlocks_def [abs_def] Let_def)
qed

text \<open>
  C29. Fetching snapshot blocks works end to end. Node \<open>A\<close> asks for a block that node \<open>B\<close> has on
  its snapshot chain and for \<open>n\<close> blocks from there downwards; both are linked, with room for two
  messages, \<open>B\<close> is the peer that \<open>A\<close> picks, and \<open>A\<close> has not asked for these hashes before. Then
  request, hashes, request for the blocks and blocks follow each other as the handlers of the two
  nodes produce them, and in the end the pool of \<open>A\<close> knows exactly the hashes it knew and those of
  the \<open>n\<close> blocks (or all down to the genesis block), each new block waiting among the free
  blocks, while the chain of \<open>A\<close> is as it was.
\<close>

theorem snapshot_sync:
  fixes A B :: syncer
  defines "ix \<equiv> GetSnapshotByHeight (store (pBc (rw B)))"
  assumes inv: "chain_inv (pBc (rw B))" and b: "ix h = Some b" and n: "0 < n"
    and link: "linked_to 2 bId (net A)" "linked_to 2 aId (net B)"
    and best: "ord (dom (peers (net A))) = bId # rest"
    and new: "fetchedHashs A (Thash b @ itoa (Theight b)) = None"
      "\<And>x. x \<in> set (chainBelow ix h (nat n)) \<Longrightarrow> fetchedHashs A (Thash x) = None \<and> Thash x \<noteq> Thash b @ itoa (Theight b)"
  shows "\<exists>A1 A2 A3 B1 B2 m1 m2 m3 m4.
    FetchSnapshot ord (hashOf b) n A = Some A1 \<and> outbox bId (net A1) = outbox bId (net A) @ [m1] \<and>
    Handle ord (\<lambda>_. Map.empty) True m1 aId B = Some B1 \<and> outbox aId (net B1) = outbox aId (net B) @ [m2] \<and>
    Handle ord (\<lambda>_. Map.empty) True m2 bId A1 = Some A2 \<and> outbox bId (net A2) = outbox bId (net A1) @ [m3] \<and>
    Handle ord (\<lambda>_. Map.empty) True m3 aId B1 = Some B2 \<and> outbox aId (net B2) = outbox aId (net B1) @ [m4] \<and>
    Handle ord (\<lambda>_. Map.empty) True m4 bId A2 = Some A3 \<and>
    (\<forall>x. knownIn (rw A3) x \<longleftrightarrow> x \<in> Thash ` set (chainBelow ix h (nat n)) \<or> knownIn (rw A) x) \<and>
    (\<forall>x \<in> set (chainBelow ix h (nat n)). \<not> knownIn (rw A) (Thash x) \<longrightarrow>
       freeOf (rw A3) (Thash x) = Some \<lparr>block = x, forkVersion = pVer (rw A)\<rparr>) \<and>
    pBc (rw A3) = pBc (rw A)"
proof -
  let ?bs = "chainBelow ix h (nat n)" and ?key = "Thash b @ itoa (Theight b)"
  let ?m1 = "requestSnapshotHashMsg (hashOf b) n" and ?m2 = "snapshotHashesMsg (map hashOf ?bs)"
    and ?m3 = "requestSnapshotBlockMsg (map hashOf ?bs)" and ?m4 = "snapshotBlocksMsg (map Some ?bs)"
  have two: "(2::nat) = Suc (Suc 0)" by simp
  note l = link [unfolded two]
  have dist: "distinct (map Thash ?bs)" using chainBelow_hashes [OF inv] b by (simp add: ix_def)
  define A1 where "A1 = A\<lparr>fetchedHashs := (fetchedHashs A)(?key \<mapsto> newRetryStatus (clock_sy A)), net := push bId ?m1 (net A)\<rparr>"
  have s1: "FetchSnapshot ord (hashOf b) n A = Some A1"
    using n toBestPeer_push [where ord = ord, OF l(1) best]
    by (simp add: FetchSnapshot_def retry_sy_def retry_new new(1) RequestSnapshotHash_def [abs_def] sending_def A1_def)
  define B1 where "B1 = B\<lparr>net := push aId ?m2 (net B)\<rparr>"
  have s2: "Handle ord (\<lambda>_. Map.empty) True ?m1 aId B = Some B1"
    using reqSnapshotHash_answers [OF inv b [unfolded ix_def] n l(2)] by (simp add: B1_def ix_def)
  have f: "fetchedHashs A1 (Hash t) = None" if "t \<in> set (map hashOf ?bs)" for t
    using new(2) that by (auto simp: A1_def)
  have "distinct (map Hash (map hashOf ?bs))" using dist by (simp add: comp_def)
  then obtain m where r: "retryAll (map hashOf ?bs) A1 = (map hashOf ?bs, A1\<lparr>fetchedHashs := m\<rparr>)"
    using retryAll_new f by blast
  define A2 where "A2 = A1\<lparr>fetchedHashs := m, net := push bId ?m3 (net A1)\<rparr>"
  have ne: "?bs \<noteq> []" using snapshot_reader.index_range [OF inv b [unfolded ix_def]] n by (simp add: ix_def chainBelow_empty)
  have l1: "linked_to (Suc 0) bId (net A1)" using l(1) by (simp add: A1_def)
  have best1: "ord (dom (peers (net A1))) = bId # rest" using best by (simp add: A1_def)
  have s3: "Handle ord (\<lambda>_. Map.empty) True ?m2 bId A1 = Some A2"
    using ne toBestPeer_push [where ord = ord, OF l1 best1] r
    by (simp add: fetchSnapshotBlockByHash_def RequestSnapshotBlocks_def [abs_def] sending_def A2_def)
  define B2 where "B2 = B1\<lparr>net := push aId ?m4 (net B1)\<rparr>"
  have l2: "linked_to (Suc 0) aId (net B1)" using l(2) by (simp add: B1_def)
  have s4: "Handle ord (\<lambda>_. Map.empty) True ?m3 aId B1 = Some B2"
    using reqSnapshotBlocks_answers [of B1 h b n 0 aId] inv b n l2 by (simp add: B2_def B1_def ix_def)
  obtain m' where s5: "Handle ord (\<lambda>_. Map.empty) True ?m4 bId A2 = Some (A2\<lparr>fetchedHashs := m', rw := fold AddSnapshotBlock ?bs (rw A2)\<rparr>)"
    using snapshotBlocks_in_eq [of ?bs A2] by auto
  have rw2: "rw A2 = rw A" by (simp add: A2_def A1_def)
  have bc: "pBc (fold AddSnapshotBlock xs p) = pBc p" for xs p by (induction xs arbitrary: p) simp_all
  note free = fold_AddSnapshotBlock [OF dist, of "rw A"]
  have o: "outbox bId (net A1) = outbox bId (net A) @ [?m1]" "outbox aId (net B1) = outbox aId (net B) @ [?m2]"
    "outbox bId (net A2) = outbox bId (net A1) @ [?m3]" "outbox aId (net B2) = outbox aId (net B1) @ [?m4]"
    using push_simps(3) [OF l(1)] push_simps(3) [OF l(2)] push_simps(3) [OF l1] push_simps(3) [OF l2]
    by (simp_all add: A1_def A2_def B1_def B2_def)
  show ?thesis
    by (rule exI [of _ A1], rule exI [of _ A2], rule exI [of _ "A2\<lparr>fetchedHashs := m', rw := fold AddSnapshotBlock ?bs (rw A2)\<rparr>"],
        rule exI [of _ B1], rule exI [of _ B2], rule exI [of _ ?m1], rule exI [of _ ?m2], rule exI [of _ ?m3], rule exI [of _ ?m4])
      (use s1 s2 s3 s4 s5 o free in \<open>simp add: rw2 bc\<close>)
qed

section \<open>Messages that stop the node\<close>

lemma Handle_snapshotBlocks: "Handle ord (\<lambda>_. Map.empty) ok (snapshotBlocksMsg bs) pid S = snapshotBlocks_in bs S"
  by simp

text \<open>
  A message with snapshot blocks is taken in without a panic exactly when it has no null
  among its blocks: nothing in the reading loop or in the handler tests for it, so one such
  message from any peer stops the node.
\<close>

theorem null_block_panics:
  "Handle ord (\<lambda>_. Map.empty) ok (snapshotBlocksMsg bs) pid S = None \<longleftrightarrow> None \<in> set bs"
  unfolding Handle_snapshotBlocks by (rule snapshotBlocks_in_null)

section \<open>The handshake\<close>

text \<open>The handshake of the p2p layer with the provider of the syncer, between two nodes.\<close>

definition shakeWith ::
  "blockchain \<Rightarrow> handState handshakeMsg option \<Rightarrow> nat \<Rightarrow> network \<Rightarrow> handState handshakeMsg option \<times> (error + (handState, netMsg) peer)" where
  "shakeWith bc answer c n =
     handshake (case getHandState bc of None \<Rightarrow> Inl ReadFail | Some s \<Rightarrow> Inr s) answer
       (\<lambda>pid s. case Handshake True s bc of None \<Rightarrow> Some ReadFail | Some e \<Rightarrow> e) Some c n"

text \<open>
  Two nodes send each other their snapshot heads. A node with a well-formed chain accepts
  every node of its network whose head has a hash, and gets a peer with the other's id and
  address that carries the genesis hash and the snapshot head of the other; a node of another
  network is turned away.
\<close>

theorem handshake_mutual:
  assumes "chain_inv bcA" "HeadSnapshot bcB = Some tB" "Thash tB \<noteq> ''''"
  shows "\<exists>mA mB. fst (shakeWith bcA None c nA) = Some mA \<and> fst (shakeWith bcB None d nB) = Some mB \<and>
    snd (shakeWith bcA (Some mB) c nA) =
      (if netId nB = netId nA
       then Inr (newPeer (nodeId nB) (nodeId nA) (srvAddr nB) c
              (Some \<lparr>GenesisHash = Thash genesisSnapshot, handS = \<lparr>Hash = Thash tB, Height = Theight tB\<rparr>\<rparr>))
       else Inl (NetIdDiff (netId nA) (netId nB)))"
proof -
  obtain tA where tA: "HeadSnapshot bcA = Some tA" using chain_invD(3) [OF assms(1)] by blast
  have hB: "getHandState bcB = Some \<lparr>GenesisHash = Thash genesisSnapshot, handS = \<lparr>Hash = Thash tB, Height = Theight tB\<rparr>\<rparr>"
    using assms(2) by (simp add: getHandState_def)
  have hA: "getHandState bcA = Some \<lparr>GenesisHash = Thash genesisSnapshot, handS = \<lparr>Hash = Thash tA, Height = Theight tA\<rparr>\<rparr>"
    using tA by (simp add: getHandState_def)
  show ?thesis using assms(3) hA hB by (simp add: shakeWith_def handshake_def Handshake_def)
qed

section \<open>The first synchronisation\<close>

lemma bestPeerLoop_first:
  assumes "\<And>pid. pid \<in> set pids \<Longrightarrow> \<exists>p s. peers n pid = Some p \<and> GetState p = Some s \<and> 0 \<le> Height (handS s)"
  shows "bestPeerLoop pids n = Some (case pids of [] \<Rightarrow> None | pid # _ \<Rightarrow> Some pid)"
proof (cases pids)
  case (Cons pid rest)
  then obtain p s where "peers n pid = Some p" "GetState p = Some s" "0 \<le> Height (handS s)" using assms [of pid] by auto
  then show ?thesis using Cons by simp
qed simp

text \<open>
  The peer called best is the one that the iteration over the map yields first, whatever its
  height: with two peers of different heights there is an order in which the lower one is taken,
  and the first synchronisation then asks that peer, for its head.
\<close>

theorem bestPeer_not_highest:
  assumes "syPeers S = {lo, hi}" "lo \<noteq> hi"
    and "peers (net S) lo = Some p" "GetState p = Some s" "0 \<le> Height (handS s)"
    and "peers (net S) hi = Some q" "GetState q = Some t" "Height (handS s) < Height (handS t)"
  shows "\<exists>ord. (\<forall>X. finite X \<longrightarrow> set (ord X) = X \<and> distinct (ord X)) \<and> bestPeer ord S = Some (Some lo)"
proof -
  define ord :: ordering where "ord X = (if X = {lo, hi} then [lo, hi] else sorted_list_of_set X)" for X
  have "set (ord X) = X \<and> distinct (ord X)" if "finite X" for X
    using that assms(2) by (simp add: ord_def)
  moreover have "bestPeer ord S = Some (Some lo)"
    using assms bestPeerLoop_first [of "[lo, hi]" "net S"] by (simp add: bestPeer_def ord_def)
  ultimately show ?thesis by blast
qed

text \<open>
  The goroutine of the first synchronisation, interleaved with whatever else the node does: the
  others change neither the task nor the publications.
\<close>

inductive sync_run :: "ordering \<Rightarrow> syncPc \<Rightarrow> syncer \<Rightarrow> bool" where
  start: "sync_run ord FindPeer (NewSyncer n p)"
| others: "sync_run ord pc S \<Longrightarrow> firstTa S' = firstTa S \<Longrightarrow> dwlDone S' = dwlDone S \<Longrightarrow> sync_run ord pc S'"
| event: "sync_run ord pc S \<Longrightarrow> eventReady pc ev S \<Longrightarrow> syncFirst_step ord pc ev S = Some (pc', S') \<Longrightarrow> sync_run ord pc' S'"

definition published_once :: "syncer \<Rightarrow> bool" where
  "published_once S \<longleftrightarrow> (syncDone S \<longleftrightarrow> taClosed (firstTa S)) \<and> dwlDone S = (if syncDone S then 1 else 0)"

lemma firstSyncDone_published:
  "published_once S \<Longrightarrow> firstSyncDone S = Some S' \<Longrightarrow> published_once S' \<and> syncDone S'"
  by (auto simp: published_once_def firstSyncDone_def syncDone_def split: if_splits)

lemma published_once_cong:
  "taClosed (firstTa S') = taClosed (firstTa S) \<Longrightarrow> taDone (firstTa S') = taDone (firstTa S) \<Longrightarrow> dwlDone S' = dwlDone S \<Longrightarrow>
   published_once S' = published_once S"
  by (simp add: published_once_def syncDone_def)

lemma sending_frame: "sending f S = Some S' \<Longrightarrow> firstTa S' = firstTa S \<and> dwlDone S' = dwlDone S \<and> rw S' = rw S"
  by (auto simp: sending_def split: Option.bind_splits)

lemma syncFrom_published:
  assumes "published_once S" "syncFrom pid S = Some (pc', S')"
  shows "published_once S' \<and> (pc' = Returned \<longrightarrow> syncDone S')"
proof -
  obtain p s t where p: "peers (net S) pid = Some p" "GetState p = Some s" "HeadSnapshot (pBc (rw S)) = Some t"
    using assms(2) by (auto simp: syncFrom_def Let_def split: Option.bind_splits)
  define S1 where "S1 = S\<lparr>firstTa := (firstTa S)\<lparr>taHash := Hash (handS s), taHeight := Height (handS s), taPeer := Some pid\<rparr>\<rparr>"
  have S1: "published_once S1" using assms(1) published_once_cong [of S1 S] by (simp add: S1_def)
  show ?thesis
  proof (cases "Theight t \<ge> Height (handS s)")
    case True
    then have "firstSyncDone S1 = Some S'" "pc' = Returned"
      using assms(2) p by (auto simp: syncFrom_def S1_def [symmetric] split: Option.bind_splits)
    then show ?thesis using firstSyncDone_published [OF S1] by simp
  next
    case False
    define req where "req = requestSnapshotBlockByPeer \<lparr>Hash = Hash (handS s), Height = Height (handS s)\<rparr> pid"
    have "sending req S1 = Some S'" "pc' = AwaitBlocks"
      using assms(2) p False by (auto simp: syncFrom_def S1_def req_def split: Option.bind_splits)
    then show ?thesis using S1 published_once_cong [of S' S1] sending_frame [of req S1 S'] by simp
  qed
qed

lemma syncFirst_step_published:
  assumes "published_once S" "syncFirst_step ord pc ev S = Some (pc', S')"
  shows "published_once S'"
proof (cases ev)
  case EvTick
  then show ?thesis
  proof (cases pc)
    case FindPeer
    then show ?thesis
      using EvTick assms syncFrom_published [OF assms(1)]
      by (auto split: if_splits Option.bind_splits option.splits)
  next
    case AwaitBlocks
    then show ?thesis
      using EvTick assms firstSyncDone_published [OF assms(1)] by (auto split: if_splits Option.bind_splits)
  next
    case Returned
    then show ?thesis using EvTick assms by simp
  qed
next
  case EvTimeout
  then show ?thesis using assms firstSyncDone_published [OF assms(1)] by (auto split: Option.bind_splits)
qed (use assms in simp_all)

text \<open>
  However the first synchronisation runs, interleaved with the rest of the node, its end is
  published at most once, exactly when the node answers that it is done: the miner is
  subscribed once.
\<close>

theorem sync_published_once:
  assumes "sync_run ord pc S"
  shows "dwlDone S = (if syncDone S then 1 else 0)"
proof -
  have "published_once S" using assms
  proof induction
    case (start ord n p)
    show ?case by (simp add: published_once_def NewSyncer_def syncDone_def)
  next
    case (others ord pc S S')
    then show ?case using published_once_cong [of S' S] by simp
  next
    case (event ord pc S ev pc' S')
    then show ?case using syncFirst_step_published by blast
  qed
  then show ?thesis by (simp add: published_once_def)
qed

text \<open>
  The wait for a first peer goes on after its timeout, although the synchronisation was
  declared done then: when the next tick is taken before the closed channel is, and a peer that
  is not ahead has come, the channel is closed a second time, which panics.
\<close>

theorem late_peer_panics:
  assumes "\<not> taClosed (firstTa S)" "syPeers S \<noteq> {}" "bestPeer ord S = Some (Some pid)"
    and "peers (net S) pid = Some p" "GetState p = Some s" "HeadSnapshot (pBc (rw S)) = Some t" "Height (handS s) \<le> Theight t"
  shows "\<exists>S1. eventReady FindPeer EvTimeout S \<and> syncFirst_step ord FindPeer EvTimeout S = Some (FindPeer, S1) \<and> syncDone S1 \<and>
    eventReady FindPeer EvTick S1 \<and> syncFirst_step ord FindPeer EvTick S1 = None"
  using assms by (simp add: firstSyncDone_def syncDone_def bestPeer_def syncFrom_def)

text \<open>
  Once blocks were asked for, the synchronisation does not end at the height of the peer: a tick
  changes nothing until the chain is higher than the peer was.
\<close>

lemma awaits_more_than_asked:
  assumes "HeadSnapshot (pBc (rw S)) = Some t" "Theight t = taHeight (firstTa S)"
  shows "syncFirst_step ord AwaitBlocks EvTick S = Some (AwaitBlocks, S)"
  using assms by simp

section \<open>Witnesses\<close>

text \<open>A chain with one snapshot block above the genesis block, and two nodes linked to each other.\<close>

definition sy_snap :: SnapshotBlock where
  "sy_snap = NewSnapshotBlock 1 ''snap_1'' (Thash genesisSnapshot) ''miner'' 1 []"

definition sy_chain :: blockchain where
  "sy_chain = snd (the (InsertSnapshotBlock sy_snap ex0))"

lemma sy_snap_simps [simp]:
  "Theight sy_snap = 1" "Thash sy_snap = ''snap_1''" "TpreHash sy_snap = Thash genesisSnapshot" "Accounts sy_snap = []"
  by (simp_all add: sy_snap_def NewSnapshotBlock_def)

lemma genesis_snapshot_simps: "Theight genesisSnapshot = 0" "Thash genesisSnapshot \<noteq> ''snap_1''" "Thash genesisSnapshot \<noteq> ''snap_11''"
  "Thash genesisSnapshot \<noteq> ''''"
  by (simp_all add: genesisSnapshot_def NewSnapshotBlock_def)

lemma sy_chain: "InsertSnapshotBlock sy_snap ex0 = Some (None, sy_chain)"
  by (simp add: sy_chain_def InsertSnapshotBlock_def insertChain_sc_def)

lemma sy_chain_simps:
  "HeadSnapshot sy_chain = Some sy_snap"
  "GetSnapshotByHeight (store sy_chain) i = (if i = 1 then Some sy_snap else if i = 0 then Some genesisSnapshot else None)"
  using InsertSnapshotBlock_Some [OF sy_chain] by (simp_all add: HeadSnapshot_def snapshot_height.get_put)

lemma sy_chain_inv: "chain_inv sy_chain"
proof -
  have "GetSnapshotByHash (store ex0) ''snap_1'' = None"
    using genesis_snapshot_simps(2) by (auto simp: ex0_def NewChain_eq snapshot_hash.get_put NewMemoryStore_heads)
  then show ?thesis
    using chain_inv_InsertSnapshotBlock [OF ex_inv(1) _ _ sy_chain] genesis_snapshot_simps
    by (simp add: extends_def snapshot_fresh_def)
qed

definition sy_net :: "string \<Rightarrow> string \<Rightarrow> handState \<Rightarrow> network" where
  "sy_net self other s = (NewP2P self 1 8080)\<lparr>peers := [other \<mapsto> newPeer other self ''addr'' 0 (Some s)]\<rparr>"

definition sy_state :: "int \<Rightarrow> string \<Rightarrow> handState" where
  "sy_state h hash = \<lparr>GenesisHash = Thash genesisSnapshot, handS = \<lparr>Hash = hash, Height = h\<rparr>\<rparr>"

definition sy_node :: "string \<Rightarrow> string \<Rightarrow> blockchain \<Rightarrow> syncer" where
  "sy_node self other bc = NewSyncer (sy_net self other (sy_state 0 ''g'')) (ex_pool bc Map.empty)"

lemma sy_node_simps [simp]:
  "rw (sy_node self other bc) = ex_pool bc Map.empty" "fetchedHashs (sy_node self other bc) = Map.empty"
  "dom (peers (net (sy_node self other bc))) = {other}" "linked_to 2 other (net (sy_node self other bc))"
  by (simp_all add: sy_node_def NewSyncer_def sy_net_def linked_to_def newPeer_def writeChCap_def)

definition sy_ord :: ordering where
  "sy_ord X = [''B'']"

theorem snapshot_sync_witness:
  "\<exists>A1 A2 A3 B1 B2 m1 m2 m3 m4. FetchSnapshot sy_ord (hashOf sy_snap) 10 (sy_node ''A'' ''B'' ex0) = Some A1 \<and>
    outbox ''B'' (net A1) = outbox ''B'' (net (sy_node ''A'' ''B'' ex0)) @ [m1] \<and>
    Handle sy_ord (\<lambda>_. Map.empty) True m1 ''A'' (sy_node ''B'' ''A'' sy_chain) = Some B1 \<and>
    outbox ''A'' (net B1) = outbox ''A'' (net (sy_node ''B'' ''A'' sy_chain)) @ [m2] \<and>
    Handle sy_ord (\<lambda>_. Map.empty) True m2 ''B'' A1 = Some A2 \<and> outbox ''B'' (net A2) = outbox ''B'' (net A1) @ [m3] \<and>
    Handle sy_ord (\<lambda>_. Map.empty) True m3 ''A'' B1 = Some B2 \<and> outbox ''A'' (net B2) = outbox ''A'' (net B1) @ [m4] \<and>
    Handle sy_ord (\<lambda>_. Map.empty) True m4 ''B'' A2 = Some A3 \<and>
    freeOf (rw A3) ''snap_1'' = Some \<lparr>block = sy_snap, forkVersion = 0\<rparr>"
proof -
  let ?A = "sy_node ''A'' ''B'' ex0" and ?B = "sy_node ''B'' ''A'' sy_chain"
  have key: "''snap_1'' @ itoa 1 = ''snap_11''" by code_simp
  have ch: "chainBelow (GetSnapshotByHeight (store (pBc (rw ?B)))) 1 (nat 10) = [sy_snap, genesisSnapshot]"
    by (simp add: chainBelow_def sy_chain_simps min_def upt_rec)
  have known: "\<not> knownIn (rw ?A) h" for h by (simp add: ex_pool_def contains_bp_def)
  have run: "\<exists>A1 A2 A3 B1 B2 m1 m2 m3 m4.
    FetchSnapshot sy_ord (hashOf sy_snap) 10 ?A = Some A1 \<and> outbox ''B'' (net A1) = outbox ''B'' (net ?A) @ [m1] \<and>
    Handle sy_ord (\<lambda>_. Map.empty) True m1 ''A'' ?B = Some B1 \<and> outbox ''A'' (net B1) = outbox ''A'' (net ?B) @ [m2] \<and>
    Handle sy_ord (\<lambda>_. Map.empty) True m2 ''B'' A1 = Some A2 \<and> outbox ''B'' (net A2) = outbox ''B'' (net A1) @ [m3] \<and>
    Handle sy_ord (\<lambda>_. Map.empty) True m3 ''A'' B1 = Some B2 \<and> outbox ''A'' (net B2) = outbox ''A'' (net B1) @ [m4] \<and>
    Handle sy_ord (\<lambda>_. Map.empty) True m4 ''B'' A2 = Some A3 \<and>
    (\<forall>x. knownIn (rw A3) x \<longleftrightarrow> x \<in> Thash ` set (chainBelow (GetSnapshotByHeight (store (pBc (rw ?B)))) 1 (nat 10)) \<or> knownIn (rw ?A) x) \<and>
    (\<forall>x \<in> set (chainBelow (GetSnapshotByHeight (store (pBc (rw ?B)))) 1 (nat 10)). \<not> knownIn (rw ?A) (Thash x) \<longrightarrow>
       freeOf (rw A3) (Thash x) = Some \<lparr>block = x, forkVersion = pVer (rw ?A)\<rparr>) \<and>
    pBc (rw A3) = pBc (rw ?A)"
  proof (rule snapshot_sync [where rest = "[]"])
    show "sy_ord (dom (peers (net ?A))) = [''B'']" by (simp add: sy_ord_def)
    show "chain_inv (pBc (rw ?B))" by (simp add: sy_chain_inv)
    show "GetSnapshotByHeight (store (pBc (rw ?B))) 1 = Some sy_snap" by (simp add: sy_chain_simps)
    show "fetchedHashs ?A (Thash x) = None \<and> Thash x \<noteq> Thash sy_snap @ itoa (Theight sy_snap)"
      if "x \<in> set (chainBelow (GetSnapshotByHeight (store (pBc (rw ?B)))) 1 (nat 10))" for x
    proof -
      have "x = sy_snap \<or> x = genesisSnapshot" using that ch by auto
      then show ?thesis using key genesis_snapshot_simps by auto
    qed
  qed simp_all
  have fr: "freeOf (rw A3) ''snap_1'' = Some \<lparr>block = sy_snap, forkVersion = 0\<rparr>"
    if "\<forall>x \<in> set (chainBelow (GetSnapshotByHeight (store (pBc (rw ?B)))) 1 (nat 10)). \<not> knownIn (rw ?A) (Thash x) \<longrightarrow>
       freeOf (rw A3) (Thash x) = Some \<lparr>block = x, forkVersion = pVer (rw ?A)\<rparr>" for A3
    using that known unfolding ch by simp
  show ?thesis by (rule exE [OF run], elim exE conjE, intro exI conjI, assumption+, rule fr, assumption)
qed

theorem handshake_mutual_witness:
  "Thash genesisSnapshot \<noteq> '''' \<and> (\<exists>mA mB. fst (shakeWith sy_chain None 1 (NewP2P ''A'' 7 8080)) = Some mA \<and>
     fst (shakeWith ex0 None 2 (NewP2P ''B'' 7 8081)) = Some mB \<and>
     snd (shakeWith sy_chain (Some mB) 1 (NewP2P ''A'' 7 8080)) =
       Inr (newPeer ''B'' ''A'' (srvAddr (NewP2P ''B'' 7 8081 :: network)) 1 (Some (sy_state 0 (Thash genesisSnapshot)))))"
  using handshake_mutual [OF sy_chain_inv ex0_simps(2) genesis_snapshot_simps(4), of 1 "NewP2P ''A'' 7 8080" 2 "NewP2P ''B'' 7 8081"]
    genesis_snapshot_simps
  by (auto simp: NewP2P_def sy_state_def)

text \<open>A node with two connected peers, one at height 3 and one at height 8.\<close>

definition sy_two :: syncer where
  "sy_two = (NewSyncer ((NewP2P ''A'' 1 8080)\<lparr>peers :=
     [''low'' \<mapsto> newPeer ''low'' ''A'' ''x'' 0 (Some (sy_state 3 ''l'')), ''high'' \<mapsto> newPeer ''high'' ''A'' ''y'' 1 (Some (sy_state 8 ''h''))]\<rparr>)
     (ex_pool ex0 Map.empty))\<lparr>syPeers := {''low'', ''high''}\<rparr>"

theorem bestPeer_not_highest_witness:
  "\<exists>ord. (\<forall>X. finite X \<longrightarrow> set (ord X) = X \<and> distinct (ord X)) \<and> bestPeer ord sy_two = Some (Some ''low'')"
  by (rule bestPeer_not_highest [where hi = "''high''" and p = "newPeer ''low'' ''A'' ''x'' 0 (Some (sy_state 3 ''l''))"
        and s = "sy_state 3 ''l''" and q = "newPeer ''high'' ''A'' ''y'' 1 (Some (sy_state 8 ''h''))" and t = "sy_state 8 ''h''"])
    (simp_all add: sy_two_def NewSyncer_def newPeer_def GetState_def sy_state_def)

theorem sync_published_once_witness:
  "\<exists>S. sync_run sy_ord FindPeer S \<and> syncDone S \<and> dwlDone S = 1"
proof -
  obtain S where S: "syncFirst_step sy_ord FindPeer EvTimeout (sy_node ''A'' ''B'' ex0) = Some (FindPeer, S)" "syncDone S"
    by (simp add: firstSyncDone_def syncDone_def sy_node_def NewSyncer_def)
  have "sync_run sy_ord FindPeer S"
    by (rule sync_run.event [OF _ _ S(1)]) (simp_all add: sy_node_def sync_run.start)
  then show ?thesis using sync_published_once [of sy_ord FindPeer S] S(2) by auto
qed

theorem late_peer_panics_witness:
  "\<exists>S1. syncFirst_step sy_ord FindPeer EvTimeout (peerConnected ''B'' (sy_node ''A'' ''B'' ex0)) = Some (FindPeer, S1) \<and> syncDone S1 \<and>
     syncFirst_step sy_ord FindPeer EvTick S1 = None"
  using late_peer_panics [of "peerConnected ''B'' (sy_node ''A'' ''B'' ex0)" sy_ord "''B''"
      "newPeer ''B'' ''A'' ''addr'' 0 (Some (sy_state 0 ''g''))" "sy_state 0 ''g''" genesisSnapshot]
  by (simp add: peerConnected_def bestPeer_def sy_ord_def sy_node_def NewSyncer_def sy_net_def newPeer_def GetState_def sy_state_def genesis_snapshot_simps)

end
