(* ===== verification/Wallet.thy ===== *)
theory Wallet
  imports Go_Prelude
begin

text \<open>
  The wallet of a node, \<open>wallet/wallet.go\<close>: a set of addresses and the one used for mining,
  which is the least address when none was chosen. Strings are ordered bytewise.
\<close>

record wallet =
  wAccounts :: "string \<rightharpoonup> string"
  wCurrent :: string

definition NewWallet :: wallet where
  "NewWallet = \<lparr>wAccounts = Map.empty, wCurrent = ''''\<rparr>"

definition Accounts_w :: "wallet \<Rightarrow> string list" where
  "Accounts_w w = sorted_list_of_set (dom (wAccounts w))"

definition SetCoinBase :: "string \<Rightarrow> wallet \<Rightarrow> wallet" where
  "SetCoinBase addr w = w\<lparr>wAccounts := (wAccounts w)(addr \<mapsto> addr), wCurrent := addr\<rparr>"

definition CoinBase :: "wallet \<Rightarrow> string \<times> wallet" where
  "CoinBase w =
     (if wCurrent w = '''' then
        (case Accounts_w w of
           [] \<Rightarrow> (wCurrent w, w)
         | a # as \<Rightarrow> (a, w\<lparr>wCurrent := a\<rparr>))
      else (wCurrent w, w))"

definition CreateAccount :: "string \<Rightarrow> wallet \<Rightarrow> string \<times> wallet" where
  "CreateAccount addr w = (addr, w\<lparr>wAccounts := (wAccounts w)(addr \<mapsto> addr)\<rparr>)"

definition Sign :: "string \<Rightarrow> 'd \<Rightarrow> 'd" where
  "Sign addr data = data"

text \<open>The address for mining is always one of the wallet, if it has any, and asking again gives it again.\<close>

definition wallet_ok :: "wallet \<Rightarrow> bool" where
  "wallet_ok w \<longleftrightarrow> finite (dom (wAccounts w)) \<and> (wCurrent w \<noteq> '''' \<longrightarrow> wCurrent w \<in> dom (wAccounts w))"

lemma wallet_ok_ops [wf_intros]:
  "wallet_ok NewWallet" "wallet_ok w \<Longrightarrow> wallet_ok (SetCoinBase a w)" "wallet_ok w \<Longrightarrow> wallet_ok (snd (CreateAccount a w))"
  by (simp_all add: wallet_ok_def NewWallet_def SetCoinBase_def CreateAccount_def)

lemma CoinBase_ok:
  assumes "wallet_ok w"
  shows "wallet_ok (snd (CoinBase w))" "dom (wAccounts w) \<noteq> {} \<Longrightarrow> fst (CoinBase w) \<in> dom (wAccounts w)"
    "CoinBase (snd (CoinBase w)) = CoinBase w"
proof -
  have fin: "finite (dom (wAccounts w))" and cur: "wCurrent w \<noteq> '''' \<longrightarrow> wCurrent w \<in> dom (wAccounts w)"
    using assms by (simp_all add: wallet_ok_def)
  have l: "set (Accounts_w w) = dom (wAccounts w)" using fin by (simp add: Accounts_w_def)
  have "wallet_ok (snd (CoinBase w)) \<and> (dom (wAccounts w) \<noteq> {} \<longrightarrow> fst (CoinBase w) \<in> dom (wAccounts w))"
  proof (cases "wCurrent w = ''''")
    case True
    show ?thesis
    proof (cases "Accounts_w w")
      case Nil
      then have "dom (wAccounts w) = {}" using l by simp
      then show ?thesis using True Nil by (simp add: CoinBase_def wallet_ok_def)
    next
      case (Cons a as)
      then have "a \<in> dom (wAccounts w)" using l by (metis list.set_intros(1))
      then show ?thesis using True Cons fin by (simp add: CoinBase_def wallet_ok_def)
    qed
  next
    case False
    then show ?thesis using fin cur by (simp add: CoinBase_def wallet_ok_def)
  qed
  then show "wallet_ok (snd (CoinBase w))" "dom (wAccounts w) \<noteq> {} \<Longrightarrow> fst (CoinBase w) \<in> dom (wAccounts w)" by blast+
  show "CoinBase (snd (CoinBase w)) = CoinBase w"
  proof (cases "wCurrent w = ''''")
    case True
    then show ?thesis by (cases "Accounts_w w") (auto simp: CoinBase_def Accounts_w_def)
  qed (simp add: CoinBase_def)
qed

end
