(* ===== verification/Node.thy ===== *)
theory Node
  imports Miner Syncer_Props Wallet
begin

text \<open>
  The node, \<open>node/node.go\<close>: it builds its parts, and initialises, starts and stops them in a
  fixed order. The parts are those of the other theories. The syncer holds the table of peers
  and the pool with the chain; the ledger works on the same pool, which is put together with
  the blocks it broadcast when one of its operations runs. The configuration is a record.

  The consensus embeds \<open>types.LifecycleStatus\<close> of another repository. The code only calls its
  methods, without looking at the answers, so it is a parameter: a predicate that
  says of a sequence of calls on a new object whether the last one returns, and \<open>orderly\<close> is
  what the node relies on. The state of the object is the sequence of calls made so far.

  \<^const>\<open>None\<close> is a panic and \<open>Blocks\<close> a wait without end. A goroutine that a part starts is its
  step function in the theory of that part: \<open>update_round\<close> for the one of the consensus,
  \<open>update_worker\<close> for the one of the miner.
\<close>

record nodeConfig =
  cfgNodeId :: string
  cfgPort :: int
  cfgNetId :: int
  cfgLinkBootAddr :: string
  cfgInterval :: int
  cfgMemCnt :: int
  cfgEnabled :: bool
  cfgHexCoinbase :: string

type_synonym lifecycle = "phase list \<Rightarrow> bool"

record committeeLife =
  calls :: "phase list"
  updateRoutines :: nat

record node =
  nCfg :: nodeConfig
  nSyncer :: syncer
  nSent :: "broadcast list"
  nCommittee :: Committee
  cLife :: lifecycle
  cState :: committeeLife
  nMiner :: "miner option"
  nWallet :: "wallet option"
  busSubs :: nat
  poolOpen :: bool
  nClosed :: bool

text \<open>The life cycle of the p2p layer and of the consensus.\<close>

definition Init_p2p :: "network \<Rightarrow> network option" where
  "Init_p2p n =
     do {
       s1 \<leftarrow> enter_phase PreInit (status n);
       s2 \<leftarrow> enter_phase PostInit s1;
       Some (n\<lparr>pendingDials := Map.empty, peers := Map.empty, status := s2\<rparr>)
     }"

definition Start_p2p :: "network \<Rightarrow> network option" where
  "Start_p2p n = do { s1 \<leftarrow> enter_phase PreStart (status n); s2 \<leftarrow> enter_phase PostStart s1; Some (n\<lparr>status := s2\<rparr>) }"

definition Stop_p2p :: "network \<Rightarrow> network option" where
  "Stop_p2p n =
     do {
       s1 \<leftarrow> enter_phase PreStop (status n);
       s2 \<leftarrow> enter_phase PostStop s1;
       Some (n\<lparr>peers := map_option close_peer \<circ> peers n, status := s2\<rparr>)
     }"

text \<open>The consensus: its configuration is given in the machine's integers and kept in 32 bits.\<close>

definition NewConsensus :: "int \<Rightarrow> nodeConfig \<Rightarrow> int \<Rightarrow> Committee" where
  [simp]: "NewConsensus genesis cfg now = NewCommittee genesis (wrap32 (cfgInterval cfg)) (wrap32 (cfgMemCnt cfg)) now"

definition call_life :: "lifecycle \<Rightarrow> phase \<Rightarrow> committeeLife \<Rightarrow> committeeLife option" where
  "call_life life p s = (if life (calls s @ [p]) then Some (s\<lparr>calls := calls s @ [p]\<rparr>) else None)"

definition Init_consensus :: "lifecycle \<Rightarrow> committeeLife \<Rightarrow> committeeLife option" where
  [simp]: "Init_consensus life s = do { s1 \<leftarrow> call_life life PreInit s; call_life life PostInit s1 }"

text \<open>\<open>Start\<close> begins the goroutine whose rounds are \<open>update_round\<close>.\<close>

definition Start_consensus :: "lifecycle \<Rightarrow> committeeLife \<Rightarrow> committeeLife option" where
  [simp]: "Start_consensus life s =
     do {
       s1 \<leftarrow> call_life life PreStart s;
       let s2 = s1\<lparr>updateRoutines := Suc (updateRoutines s1)\<rparr>;
       call_life life PostStart s2
     }"

definition Stop_consensus :: "lifecycle \<Rightarrow> committeeLife \<Rightarrow> committeeLife option" where
  [simp]: "Stop_consensus life s = do { s1 \<leftarrow> call_life life PreStop s; call_life life PostStop s1 }"

text \<open>What the node relies on: the calls in the order of a life return.\<close>

definition orderly :: "lifecycle \<Rightarrow> bool" where
  "orderly life \<longleftrightarrow> list_all (\<lambda>n. life (take n phases)) [1, 2, 3, 4, 5, 6]"

section \<open>Construction\<close>

definition NewNode :: "lifecycle \<Rightarrow> nodeConfig \<Rightarrow> int \<Rightarrow> node option" where
  "NewNode life cfg now =
     do {
       bc \<leftarrow> NewChain;
       L \<leftarrow> NewLedger bc now;
       Some \<lparr>nCfg = cfg,
             nSyncer = NewSyncer (NewP2P (cfgNodeId cfg) (cfgNetId cfg) (cfgPort cfg)) (bpool L),
             nSent = sent L,
             nCommittee = NewConsensus (Ttimestamp genesisSnapshot) cfg now,
             cLife = life, cState = \<lparr>calls = [], updateRoutines = 0\<rparr>,
             nMiner = (if cfgEnabled cfg \<and> cfgHexCoinbase cfg \<noteq> '''' then Some (NewMiner (cfgHexCoinbase cfg)) else None),
             nWallet = None, busSubs = 0, poolOpen = True, nClosed = False\<rparr>
     }"

section \<open>Operations\<close>

text \<open>The syncer installs its handlers in the p2p layer, which must not be initialised yet.\<close>

definition Init_node :: "node \<Rightarrow> node option" where
  "Init_node N =
     do {
       n1 \<leftarrow> SetHandlerFn (net (nSyncer N));
       n2 \<leftarrow> SetHandShaker n1;
       cs \<leftarrow> Init_consensus (cLife N) (cState N);
       n3 \<leftarrow> Init_p2p n2;
       let N1 = N\<lparr>nSyncer := (nSyncer N)\<lparr>net := n3\<rparr>, cState := cs\<rparr>;
       N2 \<leftarrow> (case nMiner N1 of
                None \<Rightarrow> Some N1
              | Some m \<Rightarrow> do { m1 \<leftarrow> Init_miner m; Some (N1\<lparr>nMiner := Some m1, busSubs := Suc (busSubs N1)\<rparr>) });
       Some (N2\<lparr>nWallet := Some NewWallet\<rparr>)
     }"

definition startMiner :: "miner \<Rightarrow> node \<Rightarrow> node" where
  "startMiner m N =
     (let (m1, c1) = Start_miner (syncDone (nSyncer N)) m (nCommittee N) in N\<lparr>nMiner := Some m1, nCommittee := c1\<rparr>)"

definition Start_node :: "node \<Rightarrow> node option" where
  "Start_node N =
     do {
       n1 \<leftarrow> Start_p2p (net (nSyncer N));
       cs \<leftarrow> Start_consensus (cLife N) (cState N);
       let N1 = N\<lparr>nSyncer := (nSyncer N)\<lparr>net := n1\<rparr>, cState := cs\<rparr>;
       Some (case nMiner N1 of None \<Rightarrow> N1 | Some m \<Rightarrow> startMiner m N1)
     }"

definition stopMiner :: "node \<Rightarrow> node outcome option" where
  "stopMiner N =
     (case nMiner N of
        None \<Rightarrow> Some (Returns N)
      | Some m \<Rightarrow>
          do {
            r \<leftarrow> Stop_miner m (nCommittee N);
            Some (case r of Blocks \<Rightarrow> Blocks | Returns (m1, c1) \<Rightarrow> Returns (N\<lparr>nMiner := Some m1, nCommittee := c1\<rparr>))
          })"

text \<open>The pool closes its channel, as the syncer does, and a second time is a panic.\<close>

definition Stop_node :: "node \<Rightarrow> node outcome option" where
  "Stop_node N =
     (if nClosed N then None
      else do {
        r \<leftarrow> stopMiner (N\<lparr>nClosed := True\<rparr>);
        case r of
          Blocks \<Rightarrow> Some Blocks
        | Returns N1 \<Rightarrow>
            do {
              cs \<leftarrow> Stop_consensus (cLife N1) (cState N1);
              S1 \<leftarrow> stop_st (nSyncer N1);
              p \<leftarrow> (if poolOpen N1 then Some False else None);
              n1 \<leftarrow> Stop_p2p (net S1);
              Some (Returns (N1\<lparr>cState := cs, nSyncer := S1\<lparr>net := n1\<rparr>, poolOpen := p\<rparr>))
            }
      })"

definition StartMiner :: "node \<Rightarrow> node option" where
  "StartMiner N =
     (case nMiner N of
        Some m \<Rightarrow> Some (startMiner m N)
      | None \<Rightarrow>
          do {
            w \<leftarrow> nWallet N;
            let (addr, w1) = CoinBase w;
            m \<leftarrow> Init_miner (NewMiner addr);
            Some (startMiner m (N\<lparr>nWallet := Some w1, nCfg := (nCfg N)\<lparr>cfgHexCoinbase := addr\<rparr>, busSubs := Suc (busSubs N)\<rparr>))
          })"

definition StopMiner :: "node \<Rightarrow> node outcome option" where
  "StopMiner N = stopMiner N"

text \<open>The callback that a miner registered with the event bus, when the end of the first synchronisation is published.\<close>

definition onDwlDone :: "node \<Rightarrow> node" where
  "onDwlDone N = (case nMiner N of None \<Rightarrow> N | Some m \<Rightarrow> N\<lparr>nCommittee := dwlDownFn m (nCommittee N), busSubs := busSubs N - 1\<rparr>)"

text \<open>The ledger of a node.\<close>

definition Leger :: "node \<Rightarrow> ledger" where
  "Leger N = \<lparr>bpool = rw (nSyncer N), sent = nSent N\<rparr>"

definition setLeger :: "ledger \<Rightarrow> node \<Rightarrow> node" where
  "setLeger L N = N\<lparr>nSyncer := (nSyncer N)\<lparr>rw := bpool L\<rparr>, nSent := sent L\<rparr>"

text \<open>The worker of the miner takes a notification of the consensus, unless it is still busy with the last one.\<close>

definition notify_node :: "string list \<Rightarrow> int \<Rightarrow> node \<Rightarrow> node option" where
  "notify_node order t N =
     (case nMiner N of
        None \<Rightarrow> Some N
      | Some m \<Rightarrow>
          if busy (mWorker m) then Some N
          else do {
            (w, L) \<leftarrow> update_worker order (coinbase m) t (mWorker m) (Leger N);
            Some (setLeger L (N\<lparr>nMiner := Some (m\<lparr>mWorker := w\<rparr>)\<rparr>))
          })"

section \<open>The life of a node\<close>

lemma NewPool_returns: "HeadSnapshot bc = Some t \<Longrightarrow> \<exists>p. NewPool bc now = Some p"
  by (simp add: NewPool_def init_bcp_def init_cp_def genChainId_def Head_disk_def snapshotCh_def Let_def)

lemma NewNode_returns: "\<exists>N. NewNode life cfg now = Some N"
proof -
  have "HeadSnapshot (SetChainListener (Some reqPoolListener) (ex0\<lparr>reqs := newReqPool\<rparr>)) = Some genesisSnapshot"
    by (simp add: SetChainListener_def HeadSnapshot_def ex0_simps(2) [unfolded HeadSnapshot_def])
  then obtain p where "NewPool (SetChainListener (Some reqPoolListener) (ex0\<lparr>reqs := newReqPool\<rparr>)) now = Some p"
    using NewPool_returns by blast
  then show ?thesis by (simp add: NewNode_def ex0 NewLedger_def)
qed

lemmas node_lifecycle_defs = enter_phase_def CompareAndSwap_def Init_p2p_def Start_p2p_def Stop_p2p_def
  SetHandlerFn_def SetHandShaker_def call_life_def orderly_def phases_def

text \<open>A node that was initialised, one that runs, with a resting or a working miner.\<close>

definition node_inited :: "node \<Rightarrow> bool" where
  "node_inited N \<longleftrightarrow> status (net (nSyncer N)) = 2 \<and> orderly (cLife N) \<and> calls (cState N) = take 2 phases \<and> updateRoutines (cState N) = 0 \<and> nWallet N \<noteq> None \<and> poolOpen N \<and> \<not> nClosed N \<and>
     \<not> stClosed (nSyncer N) \<and> (\<forall>m. nMiner N = Some m \<longrightarrow> resting m)"

definition node_running :: "node \<Rightarrow> bool" where
  "node_running N \<longleftrightarrow> status (net (nSyncer N)) = 4 \<and> orderly (cLife N) \<and> calls (cState N) = take 4 phases \<and>
     updateRoutines (cState N) = 1 \<and> nWallet N \<noteq> None \<and> poolOpen N \<and> \<not> nClosed N \<and>
     \<not> stClosed (nSyncer N) \<and> (\<forall>m. nMiner N = Some m \<longrightarrow> resting m \<or> working m \<or> mining m)"

definition miner_works :: "node \<Rightarrow> bool" where
  "miner_works N \<longleftrightarrow> (\<exists>m. nMiner N = Some m \<and> working m)"

text \<open>The worker of the miner has taken a notification.\<close>

definition miner_mines :: "node \<Rightarrow> bool" where
  "miner_mines N \<longleftrightarrow> (\<exists>m. nMiner N = Some m \<and> mining m)"

lemma Init_node_ok:
  assumes "NewNode life cfg now = Some N" "orderly life"
  shows "\<exists>N'. Init_node N = Some N' \<and> node_inited N' \<and> (nMiner N' = None \<longleftrightarrow> nMiner N = None)"
proof -
  have n: "status (net (nSyncer N)) = 0" "cState N = \<lparr>calls = [], updateRoutines = 0\<rparr>" "cLife N = life" "poolOpen N" "\<not> nClosed N" "\<not> stClosed (nSyncer N)"
    "nMiner N = (if cfgEnabled cfg \<and> cfgHexCoinbase cfg \<noteq> '''' then Some (NewMiner (cfgHexCoinbase cfg)) else None)"
    using assms(1) by (auto simp: NewNode_def NewSyncer_def NewP2P_def split: Option.bind_splits)
  show ?thesis
  proof (cases "nMiner N")
    case None
    then show ?thesis using n(1-6) assms(2) by (simp add: Init_node_def node_inited_def node_lifecycle_defs)
  next
    case (Some m)
    then have "m = NewMiner (cfgHexCoinbase cfg)" using n(7) by (simp split: if_splits)
    then obtain m1 where "Init_miner m = Some m1" "resting m1" using Init_miner_resting by blast
    then show ?thesis using n(1-6) assms(2) Some by (simp add: Init_node_def node_inited_def node_lifecycle_defs)
  qed
qed

lemma Init_node_committee: "Init_node N = Some N' \<Longrightarrow> nCommittee N' = nCommittee N"
  by (auto simp: Init_node_def Let_def split: option.splits Option.bind_splits)

lemma Start_node_committee:
  "Start_node N = Some N' \<Longrightarrow> info (committeeTeller (nCommittee N')) = info (committeeTeller (nCommittee N))"
  by (auto simp: Start_node_def startMiner_def Start_miner_def Subscribe_def Let_def split: option.splits Option.bind_splits)

lemma startMiner_running:
  assumes "resting m" "status (net (nSyncer N)) = 4" "orderly (cLife N)" "calls (cState N) = take 4 phases" "updateRoutines (cState N) = 1" "nWallet N \<noteq> None" "poolOpen N" "\<not> nClosed N" "\<not> stClosed (nSyncer N)"
  shows "node_running (startMiner m N) \<and> miner_works (startMiner m N)"
  using Start_miner_working [OF assms(1), of "syncDone (nSyncer N)" "nCommittee N"] assms
  by (auto simp: startMiner_def node_running_def miner_works_def case_prod_beta)

lemma Start_node_ok:
  assumes "node_inited N"
  shows "\<exists>N'. Start_node N = Some N' \<and> node_running N' \<and> (nMiner N \<noteq> None \<longleftrightarrow> miner_works N')"
proof (cases "nMiner N")
  case None
  then show ?thesis using assms by (simp add: Start_node_def node_inited_def node_running_def miner_works_def node_lifecycle_defs)
next
  case (Some m)
  then have "resting m" using assms by (simp add: node_inited_def)
  then show ?thesis
    using Some assms startMiner_running [of m]
    by (simp add: Start_node_def node_inited_def node_lifecycle_defs)
qed

lemma StopMiner_ok:
  assumes "node_running N" "nMiner N = None \<or> miner_works N"
  shows "\<exists>N'. StopMiner N = Some (Returns N') \<and> node_running N' \<and> \<not> miner_works N' \<and> \<not> miner_mines N' \<and> (nMiner N' = None \<longleftrightarrow> nMiner N = None) \<and>
     nSyncer N' = nSyncer N \<and> cState N' = cState N"
proof (cases "nMiner N")
  case None
  then show ?thesis using assms by (simp add: StopMiner_def stopMiner_def miner_works_def miner_mines_def)
next
  case (Some m)
  then have "working m" using assms(2) by (simp add: miner_works_def)
  then obtain m' where m': "Stop_miner m (nCommittee N) = Some (Returns (m', Subscribe None (nCommittee N)))" "resting m'"
    using Stop_miner_resting by blast
  have "\<not> working m'" "\<not> mining m'" using m'(2) miner_states by blast+
  then show ?thesis using Some m' assms(1) by (simp add: StopMiner_def stopMiner_def node_running_def miner_works_def miner_mines_def)
qed

lemma StartMiner_ok:
  assumes "node_running N" "\<not> miner_works N" "\<not> miner_mines N"
  shows "\<exists>N'. StartMiner N = Some N' \<and> node_running N' \<and> miner_works N'"
proof (cases "nMiner N")
  case (Some m)
  then have "resting m" using assms by (auto simp: node_running_def miner_works_def miner_mines_def)
  then show ?thesis using Some assms(1) startMiner_running [of m N] by (simp add: StartMiner_def node_running_def)
next
  case None
  obtain w where w: "nWallet N = Some w" using assms(1) by (auto simp: node_running_def)
  obtain addr w1 where c: "CoinBase w = (addr, w1)" by fastforce
  obtain m where m: "Init_miner (NewMiner addr) = Some m" "resting m" using Init_miner_resting by blast
  show ?thesis
    using None w c m assms(1)
      startMiner_running [OF m(2), of "N\<lparr>nWallet := Some w1, nCfg := (nCfg N)\<lparr>cfgHexCoinbase := addr\<rparr>, busSubs := Suc (busSubs N)\<rparr>"]
    by (simp add: StartMiner_def node_running_def)
qed

lemma Stop_node_ok:
  assumes "node_running N" "nMiner N = None \<or> miner_works N"
  shows "\<exists>N'. Stop_node N = Some (Returns N') \<and> status (net (nSyncer N')) = 6 \<and> calls (cState N') = phases \<and> nClosed N' \<and> \<not> miner_works N'"
proof (cases "nMiner N")
  case None
  then show ?thesis
    using assms by (simp add: Stop_node_def stopMiner_def node_running_def stop_st_def miner_works_def node_lifecycle_defs)
next
  case (Some m)
  then have "working m" using assms(2) by (simp add: miner_works_def)
  then obtain m' where m': "Stop_miner m (nCommittee N) = Some (Returns (m', Subscribe None (nCommittee N)))" "resting m'"
    using Stop_miner_resting by blast
  have "\<not> working m'" using m'(2) by (auto simp: resting_def working_def)
  then show ?thesis using Some m' assms(1)
    by (simp add: Stop_node_def stopMiner_def node_running_def stop_st_def miner_works_def node_lifecycle_defs)
qed

lemma Stop_miner_blocks:
  assumes "node_running N" "miner_mines N"
  shows "StopMiner N = Some Blocks" "Stop_node N = Some Blocks"
  using assms Stop_miner_mining
  by (auto simp: StopMiner_def Stop_node_def stopMiner_def miner_mines_def node_running_def)

lemma notify_node_ok:
  assumes "node_running N" "notify_node order t N = Some N'"
  shows "node_running N' \<and> (nMiner N' = None \<longleftrightarrow> nMiner N = None) \<and> (miner_works N \<or> miner_mines N \<longleftrightarrow> miner_works N' \<or> miner_mines N')"
proof (cases "nMiner N")
  case None
  then show ?thesis using assms by (simp add: notify_node_def)
next
  case (Some m)
  show ?thesis
  proof (cases "busy (mWorker m)")
    case True
    then show ?thesis using assms Some by (simp add: notify_node_def)
  next
    case False
    then obtain w L where w: "update_worker order (coinbase m) t (mWorker m) (Leger N) = Some (w, L)"
      and N': "N' = setLeger L (N\<lparr>nMiner := Some (m\<lparr>mWorker := w\<rparr>)\<rparr>)"
      using assms(2) Some by (auto simp: notify_node_def split: Option.bind_splits)
    consider "resting m" | "working m" using assms(1) Some False by (auto simp: node_running_def mining_def)
    then show ?thesis
    proof cases
      case 1
      then have "m\<lparr>mWorker := w\<rparr> = m" using w by (simp add: update_worker_def resting_def)
      then show ?thesis
        using assms(1) Some N' by (auto simp: node_running_def miner_works_def miner_mines_def setLeger_def)
    next
      case 2
      then show ?thesis
        using update_worker_working [OF 2 w] assms(1) Some N' by (auto simp: node_running_def miner_works_def miner_mines_def setLeger_def)
    qed
  qed
qed

text \<open>
  The runs of a node: it is built, initialised and started; then its miner is started while it
  does not work and stopped while it works, its worker takes notifications, and everything else
  goes on, which touches neither the life cycles nor the channels.
\<close>

definition same_life :: "node \<Rightarrow> node \<Rightarrow> bool" where
  "same_life N N' \<longleftrightarrow> status (net (nSyncer N')) = status (net (nSyncer N)) \<and> cLife N' = cLife N \<and> cState N' = cState N \<and>
     nMiner N' = nMiner N \<and> (nWallet N' = None \<longleftrightarrow> nWallet N = None) \<and> poolOpen N' = poolOpen N \<and> nClosed N' = nClosed N \<and>
     stClosed (nSyncer N') = stClosed (nSyncer N)"

inductive node_run :: "node \<Rightarrow> bool" where
  started: "orderly life \<Longrightarrow> NewNode life cfg now = Some N0 \<Longrightarrow> Init_node N0 = Some N1 \<Longrightarrow> Start_node N1 = Some N \<Longrightarrow> node_run N"
| minerStart: "node_run N \<Longrightarrow> \<not> miner_works N \<Longrightarrow> \<not> miner_mines N \<Longrightarrow> StartMiner N = Some N' \<Longrightarrow> node_run N'"
| minerStop: "node_run N \<Longrightarrow> miner_works N \<Longrightarrow> StopMiner N = Some (Returns N') \<Longrightarrow> node_run N'"
| notified: "node_run N \<Longrightarrow> notify_node order t N = Some N' \<Longrightarrow> node_run N'"
| others: "node_run N \<Longrightarrow> same_life N N' \<Longrightarrow> node_run N'"

lemma node_run_running: "node_run N \<Longrightarrow> node_running N"
proof (induction rule: node_run.induct)
  case (started life cfg now N0 N1 N)
  have "node_inited N1" using Init_node_ok [OF started(2,1)] started(3) by auto
  then show ?case using Start_node_ok [of N1] started(4) by auto
next
  case (minerStart N N')
  then show ?case using StartMiner_ok [of N] by auto
next
  case (minerStop N N')
  then show ?case using StopMiner_ok [of N] by auto
next
  case (notified N order t N')
  then show ?case using notify_node_ok by blast
next
  case (others N N')
  then show ?case by (auto simp: node_running_def same_life_def)
qed

text \<open>
  C34. A node comes up: for every configuration it is built, initialised and started without a
  panic, its miner works exactly when one was configured with an address, the consensus runs
  one goroutine, and the node can be stopped again at once, which ends every life cycle. When
  the interval times the number of members is not 0 in 32 bits, no round of that goroutine
  panics, however long it runs; when it is 0, every round does. The life cycle of the consensus
  comes from another repository: the hypothesis is that its calls return in the order of a life.
\<close>

theorem node_comes_up:
  assumes "orderly life"
  shows "\<exists>N0 N1 N2 N3. NewNode life cfg now = Some N0 \<and> Init_node N0 = Some N1 \<and> Start_node N1 = Some N2 \<and>
     (miner_works N2 \<longleftrightarrow> cfgEnabled cfg \<and> cfgHexCoinbase cfg \<noteq> '''') \<and> updateRoutines (cState N2) = 1 \<and>
     (\<forall>c t later taken order. update_run (nCommittee N2) c \<longrightarrow>
        (update_round t later taken order c = None \<longleftrightarrow> wrap32 (wrap32 (cfgInterval cfg) * wrap32 (cfgMemCnt cfg)) = 0)) \<and>
     Stop_node N2 = Some (Returns N3) \<and> status (net (nSyncer N3)) = 6 \<and> calls (cState N3) = phases \<and> \<not> miner_works N3"
proof -
  obtain N0 where N0: "NewNode life cfg now = Some N0" using NewNode_returns by blast
  have m: "nMiner N0 = (if cfgEnabled cfg \<and> cfgHexCoinbase cfg \<noteq> '''' then Some (NewMiner (cfgHexCoinbase cfg)) else None)"
    "nCommittee N0 = NewConsensus (Ttimestamp genesisSnapshot) cfg now"
    using N0 by (auto simp: NewNode_def split: Option.bind_splits)
  obtain N1 where N1: "Init_node N0 = Some N1" "node_inited N1" "nMiner N1 = None \<longleftrightarrow> nMiner N0 = None"
    using Init_node_ok [OF N0 assms] by (elim exE conjE) (rule that)
  obtain N2 where N2: "Start_node N1 = Some N2" "node_running N2" "nMiner N1 \<noteq> None \<longleftrightarrow> miner_works N2"
    using Start_node_ok [OF N1(2)] by (elim exE conjE) (rule that)
  have "nMiner N2 = None \<or> miner_works N2"
    using N2(1,3) by (cases "nMiner N1") (auto simp: Start_node_def split: Option.bind_splits)
  then obtain N3 where N3: "Stop_node N2 = Some (Returns N3)" "status (net (nSyncer N3)) = 6" "calls (cState N3) = phases" "\<not> miner_works N3"
    using Stop_node_ok [OF N2(2)] by blast
  have "info (committeeTeller (nCommittee N2)) = info (committeeTeller (nCommittee N0))"
    using Init_node_committee [OF N1(1)] Start_node_committee [OF N2(1)] by simp
  then have "info (committeeTeller c) = \<lparr>genesisTime = Ttimestamp genesisSnapshot, memberCnt = wrap32 (cfgMemCnt cfg), interval = wrap32 (cfgInterval cfg)\<rparr>"
    if "update_run (nCommittee N2) c" for c
    using update_run_info [OF that] m(2) by (simp add: NewCommittee_def newTeller_def)
  then have rounds: "\<forall>c t later taken order. update_run (nCommittee N2) c \<longrightarrow>
      (update_round t later taken order c = None \<longleftrightarrow> wrap32 (wrap32 (cfgInterval cfg) * wrap32 (cfgMemCnt cfg)) = 0)"
    by (simp add: update_round_panics_iff)
  have works: "miner_works N2 \<longleftrightarrow> cfgEnabled cfg \<and> cfgHexCoinbase cfg \<noteq> ''''" using N2(3) N1(3) m(1) by (auto split: if_splits)
  have "updateRoutines (cState N2) = 1" using N2(2) by (simp add: node_running_def)
  then show ?thesis using N0 N1(1) N2(1) N3 rounds works by (intro exI conjI) assumption+
qed

text \<open>
  However a node runs, stopping it succeeds when it has no miner or its miner works and was not
  notified; when the worker has taken a notification the stop waits for ever; and a miner that
  was stopped by itself before makes the stop of the node panic, because the stopped miner is
  stopped again.
\<close>

theorem node_stop:
  assumes "node_run N"
  shows "if miner_mines N then Stop_node N = Some Blocks \<and> StopMiner N = Some Blocks
    else if nMiner N = None \<or> miner_works N
    then \<exists>N'. Stop_node N = Some (Returns N') \<and> status (net (nSyncer N')) = 6 \<and> calls (cState N') = phases
    else Stop_node N = None \<and> StopMiner N = None"
proof (cases "nMiner N = None \<or> miner_works N")
  case True
  then have "\<not> miner_mines N" using miner_states(3) by (auto simp: miner_works_def miner_mines_def)
  then show ?thesis using True Stop_node_ok [OF node_run_running [OF assms]] by auto
next
  case no: False
  show ?thesis
  proof (cases "miner_mines N")
    case True
    then show ?thesis using Stop_miner_blocks [OF node_run_running [OF assms]] by simp
  next
    case False
    then obtain m where m: "nMiner N = Some m" "resting m"
      using no node_run_running [OF assms] by (auto simp: node_running_def miner_works_def miner_mines_def)
    then have "mStatus m = 2 \<or> mStatus m = 6" by (simp add: resting_def)
    then have "enter_phase PreStop (mStatus m) = None" by (auto simp: enter_phase_def CompareAndSwap_def)
    then show ?thesis using False no m by (simp add: Stop_node_def StopMiner_def stopMiner_def Stop_miner_def)
  qed
qed

section \<open>Witness\<close>

definition ex_cfg :: nodeConfig where
  "ex_cfg = \<lparr>cfgNodeId = ''1'', cfgPort = 8080, cfgNetId = 0, cfgLinkBootAddr = ''localhost:8000'', cfgInterval = 1, cfgMemCnt = 5, cfgEnabled = True,
     cfgHexCoinbase = ''addr''\<rparr>"

text \<open>A life cycle that panics on every call out of order, as the one of this repository does.\<close>

definition ex_life :: lifecycle where
  "ex_life h = (run_phases h 0 \<noteq> None)"

lemma ex_life_orderly: "orderly ex_life"
  by (simp add: orderly_def ex_life_def phases_def enter_phase_def CompareAndSwap_def)

theorem node_comes_up_witness:
  "\<exists>N0 N1 N2 N3. NewNode ex_life ex_cfg 0 = Some N0 \<and> Init_node N0 = Some N1 \<and> Start_node N1 = Some N2 \<and> miner_works N2 \<and>
     update_round 0 0 True [] (nCommittee N2) \<noteq> None \<and> Stop_node N2 = Some (Returns N3) \<and> \<not> miner_works N3"
proof -
  obtain N0 N1 N2 N3 where N: "NewNode ex_life ex_cfg 0 = Some N0" "Init_node N0 = Some N1" "Start_node N1 = Some N2"
    "miner_works N2 \<longleftrightarrow> cfgEnabled ex_cfg \<and> cfgHexCoinbase ex_cfg \<noteq> ''''"
    "\<forall>c t later taken order. update_run (nCommittee N2) c \<longrightarrow>
        (update_round t later taken order c = None \<longleftrightarrow> wrap32 (wrap32 (cfgInterval ex_cfg) * wrap32 (cfgMemCnt ex_cfg)) = 0)"
    "Stop_node N2 = Some (Returns N3)" "\<not> miner_works N3"
    using node_comes_up [OF ex_life_orderly, of ex_cfg 0] by (elim exE conjE) (rule that)
  have "update_round 0 0 True [] (nCommittee N2) \<noteq> None"
    using N(5) update_run.here [of "nCommittee N2"] by (simp add: ex_cfg_def wrap32_def)
  moreover have "miner_works N2" using N(4) by (simp add: ex_cfg_def)
  ultimately show ?thesis using N(1,2,3,6,7) by blast
qed

theorem node_stop_witness:
  "\<exists>N N'. node_run N \<and> Stop_node N = Some (Returns N') \<and> (\<exists>M. node_run M \<and> Stop_node M = None)"
proof -
  obtain N0 where N0: "NewNode ex_life ex_cfg 0 = Some N0" using NewNode_returns by blast
  have m: "nMiner N0 = Some (NewMiner ''addr'')" using N0 by (auto simp: NewNode_def ex_cfg_def split: Option.bind_splits)
  obtain N1 where N1: "Init_node N0 = Some N1" "node_inited N1" "nMiner N1 = None \<longleftrightarrow> nMiner N0 = None" using Init_node_ok [OF N0 ex_life_orderly] by (elim exE conjE) (rule that)
  obtain N where N: "Start_node N1 = Some N" "nMiner N1 \<noteq> None \<longleftrightarrow> miner_works N" using Start_node_ok [OF N1(2)] by (elim exE conjE) (rule that)
  have r: "node_run N" "miner_works N" using node_run.started [OF ex_life_orderly N0 N1(1) N(1)] N(2) N1(3) m by simp_all
  have nm: "\<not> miner_mines N" using r(2) miner_states(3) by (auto simp: miner_works_def miner_mines_def)
  obtain M where M: "StopMiner N = Some (Returns M)" "\<not> miner_works M" "nMiner M \<noteq> None" "\<not> miner_mines M"
    using StopMiner_ok [OF node_run_running [OF r(1)]] r(2) by (auto simp: miner_works_def)
  have rM: "node_run M" by (rule node_run.minerStop [OF r M(1)])
  show ?thesis using node_stop [OF r(1)] r nm node_stop [OF rM] rM M(2,3,4) by auto
qed

end
