(* ===== verification/Boot.thy ===== *)
theory Boot
  imports P2P
begin

text \<open>
  How nodes find each other: the boot node (\<open>p2p/bootnode.go\<close>), the link of a node to it
  (\<open>p2p/bootnode_linker.go\<close>) and the dialling of what it answers (\<open>p2p/p2p.go\<close>). The HTTP
  server and the websocket are arguments: whether a connection was upgraded, and what was read
  from it, where \<^const>\<open>None\<close> is a message that could not be read.
\<close>

section \<open>The boot node\<close>

record bootReq =
  Tp :: int
  brId :: string
  brAddr :: string

record ('s, 'm) boot =
  bId :: string
  bPeers :: "('s, 'm) bootnode"
  bCfg :: string
  bServing :: bool
  bClosed :: bool

text \<open>\<^const>\<open>None\<close> is the nil boot node for an empty address.\<close>

definition NewBoot :: "string \<Rightarrow> ('s, 'm) boot option" where
  "NewBoot addr =
     (if addr = '''' then None
      else Some \<lparr>bId = '''', bPeers = Map.empty, bCfg = addr, bServing = False, bClosed = False\<rparr>)"

definition Start_boot :: "('s, 'm) boot \<Rightarrow> ('s, 'm) boot" where
  "Start_boot b = b\<lparr>bServing := True\<rparr>"

text \<open>A new connection; a first message that could not be read is taken for the empty one.\<close>

definition ws_boot :: "bool \<Rightarrow> bootReq option \<Rightarrow> nat \<Rightarrow> ('s, 'm) boot \<Rightarrow> ('s, 'm) boot" where
  "ws_boot upgraded msg c b =
     (if \<not> upgraded then b
      else (let req = (case msg of None \<Rightarrow> \<lparr>Tp = 0, brId = '''', brAddr = ''''\<rparr> | Some r \<Rightarrow> r);
                p = newPeer (brId req) (bId b) (brAddr req) c None
            in b\<lparr>bPeers := snd (addPeer_boot p (bPeers b))\<rparr>))"

text \<open>
  One round of the goroutine that reads from a peer: whether it goes on, and the list that it
  sends. When it returns it removes the peer.
\<close>

definition loopread_boot ::
  "string list \<Rightarrow> bootReq option \<Rightarrow> ('s, 'm) peer \<Rightarrow> ('s, 'm) boot \<Rightarrow> bool \<times> (string \<times> string) list option \<times> ('s, 'm) boot" where
  "loopread_boot order msg p b =
     (let leave = (False, None, b\<lparr>bPeers := snd (removePeer_boot p (bPeers b))\<rparr>)
      in if bClosed b \<or> peerClosed p then leave
         else (case msg of
                 None \<Rightarrow> leave
               | Some req \<Rightarrow> (True, if Tp req = 1 then Some (All_boot order (bPeers b)) else None, b)))"

text \<open>
  Stopping closes every peer and the channel, and waits for the reading goroutines, each of which
  removes its peer.
\<close>

definition Stop_boot :: "('s, 'm) boot \<Rightarrow> ('s, 'm) boot option" where
  "Stop_boot b = (if bClosed b then None else Some (b\<lparr>bPeers := Map.empty, bServing := False, bClosed := True\<rparr>))"

section \<open>The link of a node\<close>

record linker =
  lkUrl :: string
  lkLinked :: bool
  lkClosed :: bool

definition newLinker :: "string \<Rightarrow> linker" where
  "newLinker u = \<lparr>lkUrl = u, lkLinked = False, lkClosed = False\<rparr>"

definition start_linker :: "bool \<Rightarrow> linker \<Rightarrow> linker" where
  "start_linker dialled l = (if dialled then l\<lparr>lkLinked := True\<rparr> else l)"

definition stop_linker :: "linker \<Rightarrow> linker option" where
  "stop_linker l = (if lkClosed l then None else Some (l\<lparr>lkLinked := False, lkClosed := True\<rparr>))"

text \<open>The first message that the writing goroutine sends, and the one it sends at every tick.\<close>

definition loopWrite_hello :: "('s, 'm) p2p \<Rightarrow> bootReq" where
  "loopWrite_hello n = \<lparr>Tp = 0, brId = nodeId n, brAddr = srvAddr n\<rparr>"

definition loopWrite_tick :: bootReq where
  "loopWrite_tick = \<lparr>Tp = 1, brId = '''', brAddr = ''''\<rparr>"

section \<open>Discovery\<close>

text \<open>The runs of a boot node: connections come, are read from and go.\<close>

inductive boot_run :: "('s, 'm) boot \<Rightarrow> bool" where
  start: "NewBoot addr = Some b \<Longrightarrow> boot_run (Start_boot b)"
| connection: "boot_run b \<Longrightarrow> boot_run (ws_boot up msg c b)"
| reading: "boot_run b \<Longrightarrow> loopread_boot order msg p b = (go, ans, b') \<Longrightarrow> boot_run b'"
| remove: "boot_run b \<Longrightarrow> boot_run (b\<lparr>bPeers := snd (removePeer_boot p (bPeers b))\<rparr>)"

lemma boot_run_keyed:
  assumes "boot_run b"
  shows "bPeers b i = Some p \<longrightarrow> peerId p = i"
  using assms
proof (induction arbitrary: i p)
  case (start addr b)
  then show ?case by (auto simp: NewBoot_def Start_boot_def split: if_splits)
next
  case (connection b up msg c)
  then show ?case by (auto simp: ws_boot_def addPeer_boot_def Let_def newPeer_def split: if_splits)
next
  case (reading b order msg q go ans b')
  then show ?case
    by (auto simp: loopread_boot_def removePeer_boot_def Let_def split: if_splits option.splits)
next
  case (remove b q)
  then show ?case by (auto simp: removePeer_boot_def split: if_splits option.splits)
qed

text \<open>What a node takes up from a list of peers: of the entries for one id the first.\<close>

lemma linkAll_frame [simp]: "peers (linkAll rs n) = peers n" "nodeId (linkAll rs n) = nodeId n"
  by (induction rs n rule: linkAll.induct) (simp_all add: addDial_def)

lemma linkAll_pending:
  "pendingDials (linkAll rs n) i =
     (if i = nodeId n \<or> peers n i \<noteq> None \<or> pendingDials n i \<noteq> None then pendingDials n i else map_of rs i)"
  by (induction rs n rule: linkAll.induct) (auto simp: addDial_def)

lemma map_of_All_boot:
  assumes "\<And>i p. bp i = Some p \<Longrightarrow> peerId p = i" "set order = dom bp"
  shows "map_of (All_boot order bp) i = map_option peerSrvAddr (bp i)"
proof -
  have "map_of (map (\<lambda>p. (peerId p, peerSrvAddr p)) (List.map_filter bp xs)) i =
      (if i \<in> set xs then map_option peerSrvAddr (bp i) else None)" for xs
    using assms(1) by (induction xs) (auto simp: List.map_filter_simps split: option.split)
  then show ?thesis using assms(2) by (auto simp: All_boot_def dom_def)
qed

text \<open>
  What a node learns from the boot node: however the boot node ran, when it answers the
  request that a node sends at every tick, the node takes up exactly the peers that
  are registered there and that it neither is, nor is connected to, nor is going to dial already,
  each with its registered address.
\<close>

theorem discovery:
  assumes "boot_run b" "\<not> bClosed b" "\<not> peerClosed p" "set order = dom (bPeers b)"
  shows "\<exists>rs. loopread_boot order (Some loopWrite_tick) p b = (True, Some rs, b) \<and>
    (\<forall>i. pendingDials (linkAll rs n) i =
       (if i = nodeId n \<or> peers n i \<noteq> None \<or> pendingDials n i \<noteq> None then pendingDials n i
        else map_option peerSrvAddr (bPeers b i)))"
  using assms map_of_All_boot [of "bPeers b" order] boot_run_keyed [OF assms(1)]
  by (simp add: loopread_boot_def loopWrite_tick_def linkAll_pending)

section \<open>Dialling\<close>

lemma connect_frame:
  "pendingDials (snd (connect r n)) = pendingDials n" "peers n i \<noteq> None \<Longrightarrow> peers (snd (connect r n)) i \<noteq> None"
  "r = Linked q \<Longrightarrow> peerId q = i \<Longrightarrow> peers (snd (connect r n)) i \<noteq> None"
  by (auto simp: connect_def addPeer_def split: dialResult.split option.split)

lemma dialLoop_keeps: "peers n i \<noteq> None \<Longrightarrow> peers (dialLoop net is n) i \<noteq> None"
proof (induction "is" arbitrary: n)
  case (Cons j "is")
  have "peers (snd (connect r n)) i \<noteq> None" for r using connect_frame(2) [of n i] Cons.prems .
  then show ?case using Cons by (simp add: case_prod_beta split: option.split)
qed simp

lemma dialLoop_connects:
  assumes "i \<in> set is" "distinct is" "pendingDials n i = Some v" "net v = Linked q" "peerId q = i"
  shows "peers (dialLoop net is n) i \<noteq> None"
  using assms(1-3)
proof (induction "is" arbitrary: n)
  case (Cons j "is")
  show ?case
  proof (cases "peers n i = None \<and> j \<noteq> i")
    case True
    then have IH: "\<exists>y. peers (dialLoop net is n1) i = Some y" if "pendingDials n1 i = Some v" for n1
      using Cons.IH [of n1] Cons.prems that by auto
    show ?thesis using Cons.prems(3) True by (auto simp: case_prod_beta connect_frame(1) IH split: option.split)
  next
    case False
    show ?thesis
    proof (cases "peers n i")
      case None
      then have "j = i" using False by simp
      moreover have "peers (snd (connect (Linked q) n)) i \<noteq> None" using connect_frame(3) assms(5) by blast
      ultimately show ?thesis using None Cons.prems(3) assms(4)
          dialLoop_keeps [of "(snd (connect (Linked q) n))\<lparr>pendingDials := (pendingDials (snd (connect (Linked q) n)))(i := None)\<rparr>" i]
        by (simp add: case_prod_beta)
    qed (use dialLoop_keeps [of n i] in \<open>simp del: dialLoop.simps\<close>)
  qed
qed simp

text \<open>
  C35. Nodes meet. A node registers with the boot node by the first message of its link; another
  node, which has no dial to it pending, asks the boot node, takes up the answer and dials. When
  the handshake with the node behind the registered address succeeds, the first node is in the
  table of the second after one tick of dialling, whatever else the boot node lists and however
  those dials end.
\<close>

theorem nodes_meet:
  fixes A B :: "('s, 'm) p2p" and b :: "('s, 'm) boot" and c :: nat
  defines "b1 \<equiv> ws_boot True (Some (loopWrite_hello A)) c b"
  assumes "boot_run b" "\<not> bClosed b" "\<not> peerClosed p" "set order = dom (bPeers b1)"
    "nodeId A \<noteq> nodeId B" "pendingDials B (nodeId A) = None" "set is = dom (pendingDials (linkAll (All_boot order (bPeers b1)) B))" "distinct is"
    "handshake own (Some \<lparr>hmNetId = netId A, hmId = nodeId A, hmAddr = srvAddr A, hmS = s\<rparr>) check decode c2 B = (m, Inr q)"
    "net (srvAddr A) = Linked q"
  shows "\<exists>rs. loopread_boot order (Some loopWrite_tick) p b1 = (True, Some rs, b1) \<and> peers (dialLoop net is (linkAll rs B)) (nodeId A) \<noteq> None"
proof -
  let ?i = "nodeId A" and ?rs = "All_boot order (bPeers b1)"
  have r1: "boot_run b1" unfolding b1_def by (rule boot_run.connection [OF assms(2)])
  have b1: "bPeers b1 ?i = Some (newPeer ?i (bId b) (srvAddr A) c None)" "\<not> bClosed b1"
    using assms(3) by (simp_all add: b1_def ws_boot_def addPeer_boot_def loopWrite_hello_def newPeer_def Let_def)
  have read: "loopread_boot order (Some loopWrite_tick) p b1 = (True, Some ?rs, b1)"
    using b1(2) assms(4) by (simp add: loopread_boot_def loopWrite_tick_def)
  have q: "peerId q = ?i" using assms(10) by (auto simp: handshake_def newPeer_def split: sum.splits option.splits if_splits)
  have mo: "map_of ?rs ?i = Some (srvAddr A)"
    using map_of_All_boot [of "bPeers b1" order] boot_run_keyed [OF r1] assms(5) b1(1) by (simp add: newPeer_def)
  have "peers (dialLoop net is (linkAll ?rs B)) ?i \<noteq> None"
  proof (cases "peers B ?i")
    case None
    then have pd: "pendingDials (linkAll ?rs B) ?i = Some (srvAddr A)" using mo assms(6,7) by (simp add: linkAll_pending)
    then show ?thesis using dialLoop_connects [of ?i "is" "linkAll ?rs B" _ net, OF _ assms(9) pd assms(11) q] assms(8) by blast
  next
    case (Some q')
    then show ?thesis by (intro dialLoop_keeps) simp
  qed
  then show ?thesis using read by blast
qed

text \<open>
  A connection whose first message cannot be read is registered all the same, under the empty
  name, and handed out to every node that asks.
\<close>

theorem unread_hello_listed:
  assumes "boot_run b" "nodeId n \<noteq> ''''" "peers n '''' = None" "pendingDials n '''' = None"
    "set order = dom (bPeers (ws_boot True None c b))"
  shows "pendingDials (linkAll (All_boot order (bPeers (ws_boot True None c b))) n) '''' = Some ''''"
proof -
  let ?b1 = "ws_boot True None c b"
  have r: "boot_run ?b1" by (rule boot_run.connection [OF assms(1)])
  have p: "bPeers ?b1 '''' = Some (newPeer '''' (bId b) '''' c None)" by (simp add: ws_boot_def addPeer_boot_def newPeer_def Let_def)
  have "map_of (All_boot order (bPeers ?b1)) '''' = Some ''''"
    using map_of_All_boot [of "bPeers ?b1" order "''''"] boot_run_keyed [OF r] assms(5) p by (simp add: newPeer_def)
  then show ?thesis using assms(2-4) by (simp add: linkAll_pending)
qed

section \<open>Witnesses\<close>

definition ex_boot :: "(string, string) boot" where
  "ex_boot = Start_boot (the (NewBoot ''localhost:8000''))"

definition ex_A :: "(string, string) p2p" where
  "ex_A = NewP2P ''A'' 1 8081"

definition ex_B :: "(string, string) p2p" where
  "ex_B = NewP2P ''B'' 1 8082"

lemma ex_boot_run: "boot_run ex_boot" "bPeers ex_boot = Map.empty" "\<not> bClosed ex_boot"
proof -
  have n: "NewBoot ''localhost:8000'' = Some (the (NewBoot ''localhost:8000'' :: (string, string) boot option))" by (simp add: NewBoot_def)
  show "boot_run ex_boot" unfolding ex_boot_def by (rule boot_run.start [OF n])
  show "bPeers ex_boot = Map.empty" "\<not> bClosed ex_boot" by (simp_all add: ex_boot_def NewBoot_def Start_boot_def)
qed

theorem nodes_meet_witness:
  "\<exists>rs. loopread_boot [''A''] (Some loopWrite_tick) (newPeer ''B'' '''' '''' 2 None) (ws_boot True (Some (loopWrite_hello ex_A)) 7 ex_boot) =
      (True, Some rs, ws_boot True (Some (loopWrite_hello ex_A)) 7 ex_boot) \<and>
    peers (dialLoop (\<lambda>_. Linked (newPeer ''A'' ''B'' (srvAddr ex_A) 3 (Some ''s''))) [''A''] (linkAll rs ex_B)) ''A'' \<noteq> None"
proof -
  let ?b1 = "ws_boot True (Some (loopWrite_hello ex_A)) 7 ex_boot"
  have A: "nodeId ex_A = ''A''" "nodeId ex_B = ''B''" "netId ex_A = netId ex_B" "pendingDials ex_B = Map.empty" "peers ex_B = Map.empty"
    by (simp_all add: ex_A_def ex_B_def NewP2P_def)
  have b1: "bPeers ?b1 = [''A'' \<mapsto> newPeer ''A'' (bId ex_boot) (srvAddr ex_A) 7 None]"
    using ex_boot_run(2) A by (simp add: ws_boot_def addPeer_boot_def loopWrite_hello_def newPeer_def Let_def)
  have "All_boot [''A''] (bPeers ?b1) = [(''A'', srvAddr ex_A)]" by (simp add: b1 All_boot_def List.map_filter_simps newPeer_def)
  then have pd: "dom (pendingDials (linkAll (All_boot [''A''] (bPeers ?b1)) ex_B)) = {''A''}"
    using A by (auto simp: addDial_def dom_def)
  show ?thesis
    using nodes_meet [OF ex_boot_run(1,3), of "newPeer ''B'' '''' '''' 2 None" "[''A'']" ex_A 7 ex_B "[''A'']"
        "Inr ''own''" "''s''" "\<lambda>_ _. None" Some 3 "Some \<lparr>hmNetId = netId ex_B, hmId = ''B'', hmAddr = srvAddr ex_B, hmS = ''own''\<rparr>"
        "newPeer ''A'' ''B'' (srvAddr ex_A) 3 (Some ''s'')" "\<lambda>_. Linked (newPeer ''A'' ''B'' (srvAddr ex_A) 3 (Some ''s''))"]
      A b1 pd
    by (simp add: newPeer_def handshake_def)
qed

theorem unread_hello_listed_witness:
  "pendingDials (linkAll (All_boot [''''] (bPeers (ws_boot True None 7 ex_boot))) ex_B) '''' = Some ''''"
proof -
  have "bPeers (ws_boot True None 7 ex_boot) = ['''' \<mapsto> newPeer '''' (bId ex_boot) '''' 7 None]"
    using ex_boot_run(2) by (simp add: ws_boot_def addPeer_boot_def newPeer_def Let_def)
  then show ?thesis
    using unread_hello_listed [OF ex_boot_run(1), of ex_B "['''']" 7] by (simp add: ex_B_def NewP2P_def)
qed

end
