(* ===== verification/Ledger_Transfer.thy ===== *)
theory Ledger_Transfer
  imports Ledger
begin

text \<open>
  A transfer between two accounts of a node, from the request over the pool of unreceived
  transactions to the response: the operations of \<open>ledger/ledger.go\<close> together with the verifier,
  the pool, the chain and the request pool behind them.
\<close>

section \<open>Sending\<close>

lemma sendBlock_simps:
  fixes sn :: SnapshotBlock and t :: int and fro to :: string
  assumes "0 \<le> n" "n < Amount prev" "Amount prev < 2 ^ 63"
  defines "b \<equiv> sendBlock (Some prev) sn t fro to (- n)"
  shows "Theight b = Theight prev + 1" "TpreHash b = Thash prev" "Tsigner b = fro" "Amount b = Amount prev - n"
    "ModifiedAmount b = - n" "SnapshotHeight b = Theight sn" "SnapshotHash b = Thash sn" "BlockTypeOf b = SEND"
    "From b = fro" "To b = to"
  using assms(1-3) by (simp_all add: b_def sendBlock_def Let_def SetHash_def NewAccountBlockFrom_def wrap64_id int64_range_def)

lemma RequestAccountBlock_holds:
  assumes "chain_inv (pBc (bpool L))" "fro \<noteq> snapshotHeadKey" "to \<noteq> snapshotHeadKey"
    and prev: "acHead (acOf (pBc (bpool L)) fro) = Some prev"
    and sn: "HeadSnapshot (pBc (bpool L)) = Some sn" "SnapshotHeight prev \<le> Theight sn"
    and amount: "0 \<le> n" "n < Amount prev" "Amount prev < 2 ^ 63"
    and pools: "\<forall>p. pendingAc (bpool L) fro = Some p \<longrightarrow> currentOf p \<noteq> None"
  defines "b \<equiv> sendBlock (Some prev) sn (clockSec L) fro to (- n)"
  shows "\<exists>L' bc. RequestAccountBlock fro to (- n) L = Some (None, L') \<and> sent L' = sent L @ [BroadcastAccountBlocks fro [b]] \<and>
    same_chain (pBc (bpool L)) bc \<and> InsertAccountBlock fro b bc = Some (None, pBc (bpool L')) \<and>
    AccountInsertCallback (acListener (acOf (pBc (bpool L)) fro)) b (reqs (pBc (bpool L))) = Some (reqs (pBc (bpool L'))) \<and>
    (\<forall>x. x \<noteq> fro \<longrightarrow> pendingAc (bpool L') x = pendingAc (bpool L) x)"
proof -
  let ?bc = "pBc (bpool L)"
  define bc1 where "bc1 = touch ?bc fro"
  note b = sendBlock_simps [OF amount, of sn "clockSec L" fro to, folded b_def]
  have same1: "same_chain ?bc bc1" by (simp add: bc1_def)
  have inv1: "chain_inv bc1" by (rule chain_inv_same [OF same1 assms(1)])
  have st: "acOf bc1 a = acOf ?bc a" "HeadSnapshot bc1 = HeadSnapshot ?bc" "reqs bc1 = reqs ?bc" "touch bc1 fro = bc1" for a
    by (simp_all add: bc1_def)
  let ?S = "(bpool L)\<lparr>pBc := bc1\<rparr>"
  have known: "snapshot_known bc1 b" using snapshot_known_head [OF inv1] sn(1) st(2) b(6,7) by simp
  have self: "self_ok bc1 b"
    using prev st(1) b sn(2) amount by (simp add: self_ok_def opens_account_def follows_def wrap64_id int64_range_def)
  have fr: "from_ok bc1 b" using b(8) by (simp add: from_ok_def)
  obtain r where r: "AccountInsertCallback (acListener (acOf ?bc fro)) b (reqs ?bc) = Some r"
    using blockInsert_send [OF b(8)] by (cases "acListener (acOf ?bc fro)") auto
  obtain S' bc where S': "AddDirectAccountBlock fro b ?S = Some (None, S')" "same_chain bc1 bc"
    "InsertAccountBlock fro b bc = Some (None, pBc S')" "reqs (pBc S') = r" "\<forall>x. x \<noteq> fro \<longrightarrow> pendingAc S' x = pendingAc ?S x"
    using AddDirectAccountBlock_taken [of ?S fro b r] inv1 known self fr r st b assms(3) pools by auto
  define L' where "L' = L\<lparr>bpool := S', sent := sent L @ [BroadcastAccountBlocks fro [b]]\<rparr>"
  have "RequestAccountBlock fro to (- n) L = Some (None, L')"
    using prev sn(1) S'(1) by (simp add: RequestAccountBlock_def HeadAccount_def bc1_def [symmetric] st b_def [symmetric] L'_def)
  moreover have "same_chain ?bc bc" by (rule same_chain_trans [OF same1 S'(2)])
  ultimately show ?thesis using S'(3,4,5) r by (intro exI [of _ L'] exI [of _ bc]) (simp add: L'_def)
qed

section \<open>Receiving twice\<close>

text \<open>A request that the account has received, above its first block, is refused and nothing changes.\<close>

lemma ResponseAccountBlock_again:
  assumes "chain_inv (pBc (bpool L))" "to \<noteq> snapshotHeadKey" "HeadSnapshot (pBc (bpool L)) = Some sn"
    "GetAccountByHeight (store (pBc (bpool L))) to h = Some x" "1 \<le> h" "BlockTypeOf x = RECEIVED" "SourceHash x = req"
  shows "\<exists>e L'. ResponseAccountBlock fro to req L = Some (Some e, L') \<and> sent L' = sent L \<and>
    same_chain (pBc (bpool L)) (pBc (bpool L'))"
proof -
  let ?bc = "pBc (bpool L)"
  define bc0 where "bc0 = touch ?bc fro"
  define bc1 where "bc1 = touch bc0 to"
  have same1: "same_chain ?bc bc1" "same_chain ?bc bc0" by (simp_all add: bc0_def bc1_def)
  have inv1: "chain_inv bc1" by (rule chain_inv_same [OF same1(1) assms(1)])
  have st: "store bc1 = store ?bc" "acOf bc1 a = acOf ?bc a" "HeadSnapshot bc1 = HeadSnapshot ?bc" "touch bc1 to = bc1" for a
    by (simp_all add: bc0_def bc1_def)
  have ok: "chain_ok (GetAccountByHeight (store ?bc) to) (acHead (acOf ?bc to))"
    using chain_invD(4) [OF assms(1,2)] by (simp add: account_ok_def)
  obtain prev where prev: "acHead (acOf ?bc to) = Some prev" "0 \<le> Theight prev"
    using ok assms(4) chain_okD(1) by (cases "acHead (acOf ?bc to)") (auto simp: chain_ok_def)
  obtain r where r: "getBySourceBlock (acOf bc1 to) (store bc1) req = Some r" "r \<noteq> None"
    using getBySourceBlock_spec [OF inv1 assms(2), of req] assms(4-7) st(1) by (auto split: option.splits)
  let ?S = "(bpool L)\<lparr>pBc := bc1\<rparr>"
  have no: "\<exists>e S'. AddDirectAccountBlock to b ?S = Some (Some e, S') \<and> same_chain bc1 (pBc S')"
    if "To b = to" "BlockTypeOf b = RECEIVED" "SourceHash b = req" "Theight b = Theight prev + 1" for b
  proof -
    have "\<not> self_ok bc1 b" using that r prev(2) by (auto simp: self_ok_def opens_account_def)
    then show ?thesis using AddDirectAccountBlock_refused [of ?S to b] st(4) inv1 that assms(2) by simp
  qed
  show ?thesis
  proof (cases "GetAccountByHash_bc ?bc fro req")
    case (Pair q bcq)
    then have bcq: "bcq = bc0" by (simp add: GetAccountByHash_bc_def bc0_def)
    show ?thesis
    proof (cases "\<exists>s. q = Some s \<and> Thash s = req")
      case False
      then show ?thesis using Pair bcq same1(2) by (cases q) (auto simp: ResponseAccountBlock_def Let_def)
    next
      case True
      then obtain s where s: "q = Some s" "Thash s = req" by blast
      define m where "m = wrap64 (- ModifiedAmount s)"
      define b0 where "b0 = NewAccountBlock (Theight prev + 1) '''' (Thash prev) to (clockSec L) (wrap64 (Amount prev + m)) m
         (Theight sn) (Thash sn) RECEIVED fro to req (Theight s)"
      define b where "b = SetHash (CalculateAccountHash b0) b0"
      have b: "To b = to" "BlockTypeOf b = RECEIVED" "SourceHash b = req" "Theight b = Theight prev + 1"
        by (simp_all add: b_def b0_def SetHash_def NewAccountBlock_def)
      obtain e S' where S': "AddDirectAccountBlock to b ?S = Some (Some e, S')" "same_chain bc1 (pBc S')" using no [OF b] by blast
      have hd: "HeadAccount bc0 to = (Some prev, bc1)" using prev(1) by (simp add: HeadAccount_def bc1_def bc0_def)
      have "ResponseAccountBlock fro to req L = Some (Some e, L\<lparr>bpool := S'\<rparr>)"
        using Pair bcq s hd assms(3) st(3) S'(1)
        by (simp add: ResponseAccountBlock_def m_def [symmetric] b0_def [symmetric] b_def [symmetric])
      then show ?thesis using same_chain_trans [OF same1(1) S'(2)] by simp
    qed
  qed
qed

section \<open>A transfer\<close>

lemma after_insert:
  assumes "chain_inv bc" "same_chain bc bcx" "a \<noteq> snapshotHeadKey" "extends (acHead (acOf bc a)) b" "InsertAccountBlock a b bcx = Some (None, bc')"
  shows "chain_inv bc'" "HeadSnapshot bc' = HeadSnapshot bc" "GetAccountByHash (store bc') (Thash b) = Some b"
    "GetAccountByHeight (store bc') a (Theight b) = Some b" "acHead (acOf bc' a) = Some b"
    "x \<noteq> a \<Longrightarrow> GetAccountByHeight (store bc') x h = GetAccountByHeight (store bc) x h"
    "x \<noteq> a \<Longrightarrow> acHead (acOf bc' x) = acHead (acOf bc x)" "acListener (acOf bc' x) = acListener (acOf bc x)"
proof -
  note st = same_chainD [OF assms(2)]
  have wf: "chain_inv bcx" "ac_wf bcx" using chain_inv_same [OF assms(2,1)] chain_invD(1) by blast+
  have ext: "extends (acHead (acOf bcx a)) b" using assms(4) st(2) by simp
  show "chain_inv bc'" by (rule chain_inv_InsertAccountBlock [OF wf(1) assms(3) ext assms(5)])
  show "HeadSnapshot bc' = HeadSnapshot bc" using InsertAccountBlock_Some(3) [OF assms(5)] st(3) by (simp add: HeadSnapshot_def)
  show "GetAccountByHash (store bc') (Thash b) = Some b" using InsertAccountBlock_Some(5) [OF assms(5)] insertChain_ac_Some(7) by fastforce
  show "GetAccountByHeight (store bc') a (Theight b) = Some b"
    "x \<noteq> a \<Longrightarrow> GetAccountByHeight (store bc') x h = GetAccountByHeight (store bc) x h"
    using InsertAccountBlock_GetAccountByHeight [OF assms(5) wf(2)] st(1) by simp_all
  show "acHead (acOf bc' a) = Some b" by (rule InsertAccountBlock_head [OF assms(5)])
  show "x \<noteq> a \<Longrightarrow> acHead (acOf bc' x) = acHead (acOf bc x)" using InsertAccountBlock_other_head [OF assms(5) wf(2)] st(2) by simp
  show "acListener (acOf bc' x) = acListener (acOf bc x)"
    using acc_frame_InsertAccountBlock [OF assms(5) wf(2)] st(2) by (simp add: acc_frame_def)
qed

lemma transfer_holds:
  assumes inv: "chain_inv (pBc (bpool L))" and adr: "fro \<noteq> snapshotHeadKey" "to \<noteq> snapshotHeadKey" "fro \<noteq> to"
    and heads: "acHead (acOf (pBc (bpool L)) fro) = Some p" "acHead (acOf (pBc (bpool L)) to) = Some q"
    and sn: "HeadSnapshot (pBc (bpool L)) = Some sn" "SnapshotHeight p \<le> Theight sn" "SnapshotHeight q \<le> Theight sn"
    and amount: "0 \<le> n" "n < Amount p" "Amount p < 2 ^ 63" "0 < Amount q" "Amount q + n < 2 ^ 63"
    and listen: "\<forall>x. acListener (acOf (pBc (bpool L)) x) = reqPoolListener"
    and pools: "\<forall>x ap. pendingAc (bpool L) x = Some ap \<longrightarrow> currentOf ap \<noteq> None"
    and fresh: "\<forall>h x. 1 \<le> h \<longrightarrow> GetAccountByHeight (store (pBc (bpool L))) to h = Some x \<longrightarrow> BlockTypeOf x = RECEIVED \<longrightarrow>
      SourceHash x \<noteq> Thash (sendBlock (Some p) sn (clockSec L) fro to (- n))"
  shows "\<exists>b c L1 L2 e L3. b = sendBlock (Some p) sn (clockSec L) fro to (- n) \<and> RequestAccountBlock fro to (- n) L = Some (None, L1) \<and>
    getReq (reqs (pBc (bpool L1))) to (Thash b) = Some \<lparr>ReqHash = Thash b, reqAcc = None, reqState = 2, reqAmount = - n, reqFrom = fro\<rparr> \<and>
    ResponseAccountBlock fro to (Thash b) L1 = Some (None, L2) \<and>
    sent L2 = sent L @ [BroadcastAccountBlocks fro [b], BroadcastAccountBlocks to [c]] \<and>
    fst (GetAccountBalance fro L2) = Amount p - n \<and> fst (GetAccountBalance to L2) = Amount q + n \<and>
    confirmed (reqs (pBc (bpool L2))) to (Thash b) = Some (NewAccountHashH to (Thash c) (Theight c)) \<and>
    ResponseAccountBlock fro to (Thash b) L2 = Some (Some e, L3) \<and> same_chain (pBc (bpool L2)) (pBc (bpool L3)) \<and> sent L3 = sent L2"
proof -
  let ?bc = "pBc (bpool L)"
  define b where "b = sendBlock (Some p) sn (clockSec L) fro to (- n)"
  note b = sendBlock_simps [OF amount(1-3), of sn "clockSec L" fro to, folded b_def]
  obtain L1 bcx where L1: "RequestAccountBlock fro to (- n) L = Some (None, L1)" "sent L1 = sent L @ [BroadcastAccountBlocks fro [b]]"
    "same_chain ?bc bcx" "InsertAccountBlock fro b bcx = Some (None, pBc (bpool L1))"
    "AccountInsertCallback (acListener (acOf ?bc fro)) b (reqs ?bc) = Some (reqs (pBc (bpool L1)))"
    "\<forall>x. x \<noteq> fro \<longrightarrow> pendingAc (bpool L1) x = pendingAc (bpool L) x"
    using RequestAccountBlock_holds [OF inv adr(1,2) heads(1) sn(1,2) amount(1-3) spec [OF pools, of fro], folded b_def]
    by (elim exE conjE) (rule that)
  let ?bc1 = "pBc (bpool L1)"
  have "extends (acHead (acOf ?bc fro)) b" using b(1,2) heads(1) by (simp add: extends_def)
  note i1 = after_insert [OF inv L1(3) adr(1) this L1(4)]
  have req: "getReq (reqs ?bc1) to (Thash b) = Some \<lparr>ReqHash = Thash b, reqAcc = None, reqState = 2, reqAmount = - n, reqFrom = fro\<rparr>"
  proof -
    have "reqs ?bc1 = setReq (reqs ?bc) to (Thash b) \<lparr>ReqHash = Thash b, reqAcc = None, reqState = 2, reqAmount = - n, reqFrom = fro\<rparr>"
      using L1(5) listen blockInsert_send [OF b(8), of "reqs ?bc"] b by simp
    then show ?thesis by simp
  qed
  have fresh1: "\<forall>h x. 1 \<le> h \<longrightarrow> GetAccountByHeight (store ?bc1) to h = Some x \<longrightarrow> BlockTypeOf x = RECEIVED \<longrightarrow> SourceHash x \<noteq> Thash b"
    using fresh i1(6) [of to] adr(3) by (simp add: b_def)
  have q1: "acHead (acOf ?bc1 to) = Some q" "HeadSnapshot ?bc1 = Some sn" using i1(2) i1(7) [of to] adr(3) heads(2) sn(1) by simp_all
  have l1: "acListener (acOf ?bc1 to) = reqPoolListener" using i1(8) listen by simp
  have am: "- (2 ^ 63) < ModifiedAmount b" "ModifiedAmount b \<le> 0" "0 < Amount q - ModifiedAmount b" "Amount q - ModifiedAmount b < 2 ^ 63"
    using amount b(5) by simp_all
  have lis: "acListener (acOf ?bc1 to) = defaultChainListener \<or> getReq (reqs ?bc1) to (Thash b) \<noteq> None" using req by simp
  have pl: "\<forall>ap. pendingAc (bpool L1) to = Some ap \<longrightarrow> currentOf ap \<noteq> None" using L1(6) pools adr(3) by simp
  have sb: "SnapshotHeight b \<le> Theight sn" using b(6) by simp
  obtain L2 c bcy where L2: "ResponseAccountBlock fro to (Thash b) L1 = Some (None, L2)" "sent L2 = sent L1 @ [BroadcastAccountBlocks to [c]]"
    "same_chain ?bc1 bcy" "InsertAccountBlock to c bcy = Some (None, pBc (bpool L2))"
    "AccountInsertCallback (acListener (acOf ?bc1 to)) c (reqs ?bc1) = Some (reqs (pBc (bpool L2)))"
    "BlockTypeOf c = RECEIVED" "To c = to" "SourceHash c = Thash b" "Theight c = Theight q + 1" "TpreHash c = Thash q"
    "Amount c = Amount q - ModifiedAmount b"
    using ResponseAccountBlock_holds [OF i1(1) adr(1,2) i1(3) refl i1(4) fresh1 q1 sb sn(3) am lis pl]
    by (elim exE conjE) (rule that)
  let ?bc2 = "pBc (bpool L2)"
  have "extends (acHead (acOf ?bc1 to)) c" using L2(9,10) q1(1) by (simp add: extends_def)
  note i2 = after_insert [OF i1(1) L2(3) adr(2) this L2(4)]
  have bal: "fst (GetAccountBalance fro L2) = Amount p - n" "fst (GetAccountBalance to L2) = Amount q + n"
    using i2(5) i2(7) [of fro] i1(5) adr(3) b(4,5) L2(11) by (simp_all add: GetAccountBalance_def HeadAccount_def)
  have conf: "confirmed (reqs ?bc2) to (Thash b) = Some (NewAccountHashH to (Thash c) (Theight c))"
    using blockInsert_received_confirms [OF L2(6), of "reqs ?bc1"] L2(5,7,8) l1 by simp
  have "chain_ok (GetAccountByHeight (store ?bc1) to) (Some q)" using chain_invD(4) [OF i1(1) adr(2)] q1(1) by (simp add: account_ok_def)
  then have "1 \<le> Theight c" using chain_okD(1) L2(9) by fastforce
  then obtain e L3 where L3: "ResponseAccountBlock fro to (Thash b) L2 = Some (Some e, L3)" "sent L3 = sent L2" "same_chain ?bc2 (pBc (bpool L3))"
    using ResponseAccountBlock_again [OF i2(1) adr(2) _ i2(4) _ L2(6,8), of sn fro] i2(2) q1(2) by auto
  have "sent L2 = sent L @ [BroadcastAccountBlocks fro [b], BroadcastAccountBlocks to [c]]" using L2(2) L1(2) by simp
  with b_def L1(1) req L2(1) bal conf L3 show ?thesis by (intro exI conjI)
qed

text \<open>
  C6. A transfer between accounts that both have a chain already works and conserves the amount.
  A node with the request pool as listener sends
  \<open>n\<close> from one account to another, whose heads refer to snapshots that the chain has: the send
  block is inserted and broadcast, the request waits in the request pool under the hash of that
  block, and answering it inserts and broadcasts a receive block. The sender has \<open>n\<close> less, the
  receiver \<open>n\<close> more, the request is confirmed and no longer listed, and answering it a second
  time is refused and changes nothing. Not yet having a receive block for the hash of the new
  send block is a hypothesis, since hashes could collide.  A receiver without a chain is not
  covered: its receive block opens the chain at height 0, where the search for an earlier
  receive does not look, and a second one is accepted.
\<close>

theorem transfer:
  assumes inv: "chain_inv (pBc (bpool L))" and adr: "fro \<noteq> snapshotHeadKey" "to \<noteq> snapshotHeadKey" "fro \<noteq> to"
    and heads: "acHead (acOf (pBc (bpool L)) fro) = Some p" "acHead (acOf (pBc (bpool L)) to) = Some q"
    and sn: "HeadSnapshot (pBc (bpool L)) = Some sn" "SnapshotHeight p \<le> Theight sn" "SnapshotHeight q \<le> Theight sn"
    and amount: "0 \<le> n" "n < Amount p" "Amount p < 2 ^ 63" "0 < Amount q" "Amount q + n < 2 ^ 63"
    and listen: "\<forall>x. acListener (acOf (pBc (bpool L)) x) = reqPoolListener"
    and pools: "\<forall>x ap. pendingAc (bpool L) x = Some ap \<longrightarrow> currentOf ap \<noteq> None"
    and fresh: "\<forall>h x. 1 \<le> h \<longrightarrow> GetAccountByHeight (store (pBc (bpool L))) to h = Some x \<longrightarrow> BlockTypeOf x = RECEIVED \<longrightarrow>
      SourceHash x \<noteq> Thash (sendBlock (Some p) sn (clockSec L) fro to (- n))"
  shows "\<exists>b c L1 L2 e L3. b = sendBlock (Some p) sn (clockSec L) fro to (- n) \<and> RequestAccountBlock fro to (- n) L = Some (None, L1) \<and>
    getReq (reqs (pBc (bpool L1))) to (Thash b) = Some \<lparr>ReqHash = Thash b, reqAcc = None, reqState = 2, reqAmount = - n, reqFrom = fro\<rparr> \<and>
    ResponseAccountBlock fro to (Thash b) L1 = Some (None, L2) \<and>
    sent L2 = sent L @ [BroadcastAccountBlocks fro [b], BroadcastAccountBlocks to [c]] \<and>
    fst (GetAccountBalance fro L2) = Amount p - n \<and> fst (GetAccountBalance to L2) = Amount q + n \<and>
    confirmed (reqs (pBc (bpool L2))) to (Thash b) = Some (NewAccountHashH to (Thash c) (Theight c)) \<and>
    ResponseAccountBlock fro to (Thash b) L2 = Some (Some e, L3) \<and> same_chain (pBc (bpool L2)) (pBc (bpool L3)) \<and> sent L3 = sent L2"
  by (rule transfer_holds) (fact assms)+

section \<open>Witness\<close>

theorem transfer_witness:
  "\<exists>b c L1 L2. RequestAccountBlock ''viteshan'' ''jie'' (- 10) (ex_ledger ex_new) = Some (None, L1) \<and>
    ResponseAccountBlock ''viteshan'' ''jie'' (Thash b) L1 = Some (None, L2) \<and>
    sent L2 = [BroadcastAccountBlocks ''viteshan'' [b], BroadcastAccountBlocks ''jie'' [c]] \<and>
    fst (GetAccountBalance ''viteshan'' L2) = 190 \<and> fst (GetAccountBalance ''jie'' L2) = 210"
proof -
  let ?p = "genesisAccountBlock ''viteshan''" and ?q = "genesisAccountBlock ''jie''"
  have h: "acHead (acOf ex_new ''viteshan'') = Some ?p" "acHead (acOf ex_new ''jie'') = Some ?q"
    by (simp_all add: ex_new_head ex0_head)
  have f: "\<forall>h x. 1 \<le> h \<longrightarrow> GetAccountByHeight (store (pBc (bpool (ex_ledger ex_new)))) ''jie'' h = Some x \<longrightarrow> BlockTypeOf x = RECEIVED \<longrightarrow>
      SourceHash x \<noteq> Thash (sendBlock (Some ?p) genesisSnapshot (clockSec (ex_ledger ex_new)) ''viteshan'' ''jie'' (- 10))"
    by (auto split: if_splits)
  show ?thesis
    using transfer [of "ex_ledger ex_new" "''viteshan''" "''jie''" ?p ?q genesisSnapshot 10] ex_new_inv h f
    by simp (elim exE conjE, intro exI conjI, assumption+)
qed

end
