(* ===== verification/Go_Text.thy ===== *)
theory Go_Text
  imports Go_Prelude "HOL-Library.Multiset"
begin

text \<open>
  Text in Go's standard library, as far as the programs use it: \<open>strconv.Atoi\<close>, the conversion
  \<open>string(i)\<close> of an integer, the lines that a \<open>bufio.Scanner\<close> takes from a connection, and
  \<open>json.Marshal\<close> of a map from strings to strings. A string is its list of bytes.
\<close>

section \<open>Reading numbers: \<open>strconv.Atoi\<close>\<close>

definition isDigit :: "char \<Rightarrow> bool" where
  "isDigit c \<longleftrightarrow> 48 \<le> (of_char c :: nat) \<and> (of_char c :: nat) \<le> 57"

definition clamp64 :: "int \<Rightarrow> int" where
  "clamp64 i = max (- (2 ^ 63)) (min (2 ^ 63 - 1) i)"

definition parseInt :: "string \<Rightarrow> int option" where
  "parseInt s =
     (let (neg, ds) = (case s of [] \<Rightarrow> (False, [])
                       | c # cs \<Rightarrow> if c = CHR ''-'' then (True, cs) else if c = CHR ''+'' then (False, cs) else (False, s))
      in if ds = [] \<or> \<not> list_all isDigit ds then None
         else Some (if neg then - int (foldl undigit 0 ds) else int (foldl undigit 0 ds)))"

text \<open>The number alone, for callers that drop the error: 0 for a syntax error and clamped when out of range.\<close>

definition Atoi :: "string \<Rightarrow> int" where
  "Atoi s = (case parseInt s of None \<Rightarrow> 0 | Some i \<Rightarrow> clamp64 i)"

text \<open>The number when there is no error, for callers that test the error.\<close>

definition AtoiErr :: "string \<Rightarrow> int option" where
  "AtoiErr s = (case parseInt s of None \<Rightarrow> None | Some i \<Rightarrow> if int64_range i then Some i else None)"

lemma isDigit_utoa: "list_all isDigit (utoa n)"
  using utoa_digits [of _ n] by (auto simp: list_all_iff isDigit_def)

lemma utoa_nonempty: "utoa n \<noteq> []"
  by (simp add: utoa.simps [of n])

text \<open>Reading what \<open>strconv.Itoa\<close> printed gives the number back.\<close>

lemma parseInt_itoa: "parseInt (itoa n) = Some n"
proof (cases "n < 0")
  case True
  then show ?thesis
    using isDigit_utoa utoa_nonempty by (simp add: itoa_def parseInt_def foldl_undigit_utoa)
next
  case False
  obtain c cs where u: "utoa (nat n) = c # cs" using utoa_nonempty by (cases "utoa (nat n)") auto
  then have "isDigit c" using isDigit_utoa [of "nat n"] by simp
  then have "c \<noteq> CHR ''-''" "c \<noteq> CHR ''+''" by (auto simp: isDigit_def)
  then show ?thesis
    using False isDigit_utoa [of "nat n"] u foldl_undigit_utoa [of "nat n"]
    by (simp add: itoa_def parseInt_def del: foldl_Cons)
qed

lemma Atoi_itoa: "int64_range n \<Longrightarrow> Atoi (itoa n) = n"
  by (simp add: Atoi_def parseInt_itoa clamp64_def int64_range_def)

lemma AtoiErr_itoa: "int64_range n \<Longrightarrow> AtoiErr (itoa n) = Some n"
  by (simp add: AtoiErr_def parseInt_itoa)

lemma AtoiErr_range: "AtoiErr s = Some n \<Longrightarrow> int64_range n"
  by (auto simp: AtoiErr_def split: option.splits if_splits)

section \<open>Integers as code points: \<open>string(i)\<close>\<close>

text \<open>
  The UTF-8 encoding of the code point \<open>i\<close>, and of the replacement character U+FFFD when \<open>i\<close> is
  not a code point.
\<close>

definition runeError :: string where
  "runeError = [char_of (0xEF :: int), char_of (0xBF :: int), char_of (0xBD :: int)]"

definition isRune :: "int \<Rightarrow> bool" where
  "isRune i \<longleftrightarrow> 0 \<le> i \<and> i \<le> 0x10FFFF \<and> \<not> (0xD800 \<le> i \<and> i \<le> 0xDFFF)"

definition string_of_int :: "int \<Rightarrow> string" where
  "string_of_int i =
     (if \<not> isRune i then runeError
      else if i < 0x80 then [char_of i]
      else if i < 0x800 then [char_of (0xC0 + i div 64), char_of (0x80 + i mod 64)]
      else if i < 0x10000 then
        [char_of (0xE0 + i div 4096), char_of (0x80 + i div 64 mod 64), char_of (0x80 + i mod 64)]
      else [char_of (0xF0 + i div 262144), char_of (0x80 + i div 4096 mod 64),
            char_of (0x80 + i div 64 mod 64), char_of (0x80 + i mod 64)])"

text \<open>Integers that are no code points are all converted to the same string.\<close>

lemma string_of_int_collides: "\<not> isRune i \<Longrightarrow> \<not> isRune j \<Longrightarrow> string_of_int i = string_of_int j"
  by (simp add: string_of_int_def)

section \<open>Lines of a connection: \<open>bufio.Scanner\<close>\<close>

text \<open>
  A connection is the list of the byte strings that its reads still return; the end of the list
  is the end of the stream. A scanner keeps what it has read beyond the line it returned; a new
  scanner on the same connection starts empty, so that those bytes are lost. Lines are shorter
  than the scanner's limit of 64 kB.
\<close>

type_synonym conn_input = "string list"

definition newline :: char where
  "newline = CHR 0x0A"

fun splitLine :: "string \<Rightarrow> (string \<times> string) option" where
  "splitLine [] = None"
| "splitLine (c # cs) = (if c = newline then Some ([], cs)
     else case splitLine cs of None \<Rightarrow> None | Some (l, r) \<Rightarrow> Some (c # l, r))"

definition dropCR :: "string \<Rightarrow> string" where
  "dropCR l = (if l \<noteq> [] \<and> last l = CHR 0x0D then butlast l else l)"

text \<open>One \<open>Scan\<close> with the buffered bytes \<open>buf\<close>: the line (\<^const>\<open>None\<close>: there is none), the bytes
  buffered afterwards and the rest of the connection.\<close>

fun Scan :: "string \<Rightarrow> conn_input \<Rightarrow> string option \<times> string \<times> conn_input" where
  "Scan buf input =
     (case splitLine buf of
        Some (l, r) \<Rightarrow> (Some (dropCR l), r, input)
      | None \<Rightarrow> (case input of
            [] \<Rightarrow> if buf = [] then (None, [], []) else (Some (dropCR buf), [], [])
          | c # cs \<Rightarrow> Scan (buf @ c) cs))"

declare Scan.simps [simp del]

lemma splitLine_line: "newline \<notin> set l \<Longrightarrow> splitLine (l @ newline # r) = Some (l, r)"
  by (induction l) auto

text \<open>A line that arrives in one read is returned as it was sent.\<close>

lemma Scan_line:
  assumes "newline \<notin> set l" "CHR 0x0D \<notin> set l"
  shows "Scan [] ((l @ [newline]) # cs) = (Some l, [], cs)"
proof -
  have "dropCR l = l" using assms(2) by (auto simp: dropCR_def dest: last_in_set)
  moreover have "Scan [] ((l @ [newline]) # cs) = Scan (l @ [newline]) cs"
    by (subst Scan.simps) simp
  ultimately show ?thesis
    using splitLine_line [OF assms(1), of "[]"] by (subst (asm) (2) Scan.simps) simp
qed

section \<open>\<open>json.Marshal\<close> of a map of strings\<close>

definition hexDigit :: "int \<Rightarrow> char" where
  "hexDigit d = ''0123456789abcdef'' ! nat d"

definition isCont :: "char \<Rightarrow> bool" where
  "isCont c \<longleftrightarrow> 0x80 \<le> (of_char c :: int) \<and> (of_char c :: int) \<le> 0xBF"

definition between :: "int \<Rightarrow> char \<Rightarrow> int \<Rightarrow> bool" where
  "between lo c hi \<longleftrightarrow> lo \<le> of_char c \<and> of_char c \<le> hi"

text \<open>The number of bytes of the valid UTF-8 sequence at the head of a string, 0 when there is none.\<close>

definition runeLen :: "string \<Rightarrow> nat" where
  "runeLen s =
     (case s of
        [] \<Rightarrow> 0
      | [a] \<Rightarrow> if between 0 a 0x7F then 1 else 0
      | [a, b] \<Rightarrow> if between 0 a 0x7F then 1 else if between 0xC2 a 0xDF \<and> isCont b then 2 else 0
      | a # b # c # r \<Rightarrow>
          if between 0 a 0x7F then 1
          else if between 0xC2 a 0xDF \<and> isCont b then 2
          else if isCont c \<and> (between 0xE0 a 0xE0 \<and> between 0xA0 b 0xBF \<or> between 0xE1 a 0xEC \<and> isCont b \<or>
             between 0xED a 0xED \<and> between 0x80 b 0x9F \<or> between 0xEE a 0xEF \<and> isCont b) then 3
          else if isCont c \<and> r \<noteq> [] \<and> isCont (hd r) \<and> (between 0xF0 a 0xF0 \<and> between 0x90 b 0xBF \<or>
             between 0xF1 a 0xF3 \<and> isCont b \<or> between 0xF4 a 0xF4 \<and> between 0x80 b 0x8F) then 4
          else 0)"

text \<open>One ASCII byte inside a JSON string, with the HTML escapes that \<open>Marshal\<close> applies.\<close>

definition jsonByte :: "char \<Rightarrow> string" where
  "jsonByte c =
     (if c = CHR 0x22 \<or> c = CHR 0x5C then [CHR 0x5C, c]
      else if c = CHR 0x0A then [CHR 0x5C, CHR ''n'']
      else if c = CHR 0x0D then [CHR 0x5C, CHR ''r'']
      else if c = CHR 0x09 then [CHR 0x5C, CHR ''t'']
      else if between 0 c 0x1F \<or> c = CHR ''<'' \<or> c = CHR ''>'' \<or> c = CHR ''&''
        then CHR 0x5C # ''u00'' @ [hexDigit (of_char c div 16), hexDigit (of_char c mod 16)]
      else [c])"

function jsonBody :: "string \<Rightarrow> string" where
  "jsonBody [] = []"
| "jsonBody (c # cs) =
     (let n = runeLen (c # cs)
      in if n = 0 then CHR 0x5C # ''ufffd'' @ jsonBody cs
         else if n = 1 then jsonByte c @ jsonBody cs
         else if n = 3 \<and> take 2 (c # cs) = [CHR 0xE2, CHR 0x80] \<and> (cs ! 1 = CHR 0xA8 \<or> cs ! 1 = CHR 0xA9)
           then CHR 0x5C # ''u202'' @ [hexDigit (of_char (cs ! 1) mod 16)] @ jsonBody (drop 2 cs)
         else take n (c # cs) @ jsonBody (drop (n - 1) cs))"
  by pat_completeness auto
termination
  by (relation "measure length") auto

definition jsonString :: "string \<Rightarrow> string" where
  "jsonString s = [CHR 0x22] @ jsonBody s @ [CHR 0x22]"

fun joinWith :: "string \<Rightarrow> string list \<Rightarrow> string" where
  "joinWith sep [] = []"
| "joinWith sep [x] = x"
| "joinWith sep (x # xs) = x @ sep @ joinWith sep xs"

text \<open>The members in the order of their keys; \<open>m\<close> is an association list with distinct keys.\<close>

definition marshalMap :: "(string \<times> string) list \<Rightarrow> string" where
  "marshalMap m =
     ''{'' @ joinWith '','' (map (\<lambda>(k, v). jsonString k @ '':'' @ jsonString v) (sort_key fst m)) @ ''}''"

text \<open>The text depends on the map alone, not on the order in which its entries were added.\<close>

lemma marshalMap_mset:
  assumes "distinct (map fst m)" "distinct (map fst n)" "set m = set n"
  shows "marshalMap m = marshalMap n"
proof -
  have "mset m = mset n"
    using assms set_eq_iff_mset_eq_distinct [of m n] by (simp add: distinct_map)
  then have "mset m = mset (sort_key fst n)" by simp
  moreover have "inj_on fst (set m)" using assms(1) by (simp add: distinct_map)
  ultimately have "sort_key fst m = sort_key fst n"
    by (rule sort_key_inj_key_eq) simp
  then show ?thesis by (simp add: marshalMap_def)
qed

end
