(* ===== verification/Console.thy ===== *)
theory Console
  imports Node Boot Ledger_Transfer Go_Text
begin

text \<open>
  The interactive shell, \<open>cmd/node/main.go\<close>: every command of the groups boot, node, miner,
  account, ablock, sblock and pool, with the guards in front of it. The lines that a command reads
  and its arguments are arguments of the definition. The shell keeps the boot node and the node in
  two variables that may be nil; a node that no variable refers to any longer keeps running, and
  the field \<open>detached\<close> remembers those. The library that runs the shell, the monitor and profile
  commands and the formatting of blocks as JSON are left out.

  The result \<^const>\<open>None\<close> is a panic and \<open>Blocks\<close> a command that never returns.
\<close>

section \<open>State and output\<close>

datatype out =
    Say string
  | SayError string error
  | SayPeer string "handState option"
  | SayAccount "AccountStateBlock option"
  | SaySnapshot "SnapshotBlock option"

record console =
  bootNode :: "(handState, netMsg) boot option"
  conNode :: "node option"
  detached :: "node list"

definition newConsole :: console where
  "newConsole = \<lparr>bootNode = None, conNode = None, detached = []\<rparr>"

type_synonym reply = "(out list \<times> console) outcome option"

definition say :: "string \<Rightarrow> console \<Rightarrow> reply" where
  "say s C = Some (Returns ([Say s], C))"

text \<open>The guard of a command that needs the node.\<close>

definition withNode :: "string \<Rightarrow> (node \<Rightarrow> console \<Rightarrow> reply) \<Rightarrow> console \<Rightarrow> reply" where
  "withNode msg f C = (case conNode C of None \<Rightarrow> say msg C | Some N \<Rightarrow> f N C)"

definition setNode :: "node \<Rightarrow> console \<Rightarrow> console" where
  "setNode N C = C\<lparr>conNode := Some N\<rparr>"

text \<open>The address that the wallet of a node works with.\<close>

definition coinBase :: "node \<Rightarrow> (string \<times> node) option" where
  "coinBase N = do { w \<leftarrow> nWallet N; let (a, w1) = CoinBase w; Some (a, N\<lparr>nWallet := Some w1\<rparr>) }"

definition tab :: string where
  "tab = [CHR 0x09]"

section \<open>The boot node\<close>

definition defaultBootAddr :: string where
  "defaultBootAddr = ''localhost:8000''"

definition startBoot :: "string \<Rightarrow> (handState, netMsg) boot option" where
  "startBoot bootAddr = do { b \<leftarrow> NewBoot bootAddr; Some (Start_boot b) }"

definition boot_start :: "string \<Rightarrow> console \<Rightarrow> reply" where
  "boot_start line C =
     (case bootNode C of
        Some b \<Rightarrow> say ''boot has started.'' C
      | None \<Rightarrow>
          (let bootAddr = (if line = '''' then defaultBootAddr else line)
           in do {
                b \<leftarrow> startBoot bootAddr;
                say (''boot start for['' @ bootAddr @ ''] successfully.'') (C\<lparr>bootNode := Some b\<rparr>)
              }))"

definition boot_stop :: "console \<Rightarrow> reply" where
  "boot_stop C =
     (case bootNode C of
        None \<Rightarrow> say ''boot has stopped.'' C
      | Some b \<Rightarrow> do { b1 \<leftarrow> Stop_boot b; say ''boot stop successfully.'' (C\<lparr>bootNode := None\<rparr>) })"

definition boot_list :: "string list \<Rightarrow> console \<Rightarrow> reply" where
  "boot_list order C =
     (case bootNode C of
        None \<Rightarrow> say ''boot should be started.'' C
      | Some b \<Rightarrow> Some (Returns ([Say ''-----boot links -----'', Say (''Id'' @ tab @ ''Addr'')] @
          map (\<lambda>(i, a). Say (i @ tab @ a)) (All_boot order (bPeers b)), C)))"

section \<open>The node and its miner\<close>

definition startNode :: "lifecycle \<Rightarrow> int \<Rightarrow> string \<Rightarrow> int \<Rightarrow> string \<Rightarrow> node option" where
  "startNode life now bootAddr port nid =
     do {
       N0 \<leftarrow> NewNode life \<lparr>cfgNodeId = nid, cfgPort = port, cfgNetId = 0, cfgLinkBootAddr = bootAddr, cfgInterval = 1,
               cfgMemCnt = int (length DefaultMembers), cfgEnabled = False, cfgHexCoinbase = ''''\<rparr> now;
       N1 \<leftarrow> Init_node N0;
       Start_node N1
     }"

text \<open>\<open>resolve\<close> is \<open>net.ResolveTCPAddr\<close>: the resolved address, or \<^const>\<open>None\<close> for an error.\<close>

definition node_start :: "lifecycle \<Rightarrow> (string \<Rightarrow> string option) \<Rightarrow> int \<Rightarrow> string \<Rightarrow> string \<Rightarrow> string \<Rightarrow> console \<Rightarrow> reply" where
  "node_start life resolve now nid port bootAddr C =
     (case conNode C of
        Some N \<Rightarrow> say ''node has started.'' C
      | None \<Rightarrow>
          (let (warn, addr) =
             (if bootAddr = '''' \<or> resolve bootAddr = None
              then ([Say (''input boot address error, use default bootAddr['' @ defaultBootAddr @ ''].'')], defaultBootAddr)
              else ([], the (resolve bootAddr)))
           in do {
                N \<leftarrow> startNode life now addr (Atoi port) nid;
                Some (Returns (warn @ [Say (''node start for['' @ addr @ ''] successfully.'')], setNode N C))
              }))"

definition node_stop_cmd :: "console \<Rightarrow> reply" where
  "node_stop_cmd = withNode ''node has stopped.'' (\<lambda>N C.
     do {
       r \<leftarrow> Stop_node N;
       case r of
         Blocks \<Rightarrow> Some Blocks
       | Returns N1 \<Rightarrow> say ''node stop successfully.'' (C\<lparr>conNode := None\<rparr>)
     })"

definition node_peers :: "string list \<Rightarrow> console \<Rightarrow> reply" where
  "node_peers order = withNode ''node must be started.'' (\<lambda>N C.
     Some (Returns ([Say ''-----net peers -----'', Say (''Id'' @ tab @ ''Remote'' @ tab @ ''State'')] @
       map (\<lambda>p. SayPeer (peerId p) (GetState p)) (AllPeer order (net (nSyncer N))), C)))"

definition miner_start :: "console \<Rightarrow> reply" where
  "miner_start = withNode ''node should be started.'' (\<lambda>N C.
     do {
       (base, N1) \<leftarrow> coinBase N;
       if base = '''' then say ''please set coinBase.'' (setNode N1 C)
       else do { N2 \<leftarrow> StartMiner N1; say ''miner start successfully.'' (setNode N2 C) }
     })"

text \<open>The command also forgets the node, which goes on running.\<close>

definition miner_stop :: "console \<Rightarrow> reply" where
  "miner_stop = withNode ''node should be stopped.'' (\<lambda>N C.
     do {
       r \<leftarrow> StopMiner N;
       case r of
         Blocks \<Rightarrow> Some Blocks
       | Returns N1 \<Rightarrow> say ''miner stop successfully.'' (C\<lparr>conNode := None, detached := N1 # detached C\<rparr>)
     })"

section \<open>Accounts\<close>

definition account_set :: "string list \<Rightarrow> string \<Rightarrow> console \<Rightarrow> reply" where
  "account_set args line = withNode ''node should be started.'' (\<lambda>N C.
     (let addr = (case args of [a] \<Rightarrow> a | _ \<Rightarrow> line)
      in if addr = '''' then say ''address is empty.'' C
         else do {
           w \<leftarrow> nWallet N;
           say ''set address successfully.'' (setNode (N\<lparr>nWallet := Some (SetCoinBase addr w)\<rparr>) C)
         }))"

definition account_create :: "string \<Rightarrow> console \<Rightarrow> reply" where
  "account_create line = withNode ''node should be stopped.'' (\<lambda>N C.
     if line = '''' then say ''address is empty.'' C
     else do {
       w \<leftarrow> nWallet N;
       say ''create address successfully.'' (setNode (N\<lparr>nWallet := Some (snd (CreateAccount line w))\<rparr>) C)
     })"

definition account_balance :: "console \<Rightarrow> reply" where
  "account_balance = withNode ''node should be started.'' (\<lambda>N C.
     do {
       (base, N1) \<leftarrow> coinBase N;
       if base = '''' then say ''please set current address.'' (setNode N1 C)
       else (let (balance, L) = GetAccountBalance base (Leger N1)
             in say (''balance is  '' @ itoa balance) (setNode (setLeger L N1) C))
     })"

definition sayResult :: "string \<Rightarrow> string \<Rightarrow> err \<Rightarrow> console \<Rightarrow> reply" where
  "sayResult good bad e C = Some (Returns ([case e of None \<Rightarrow> Say good | Some x \<Rightarrow> SayError bad x], C))"

definition account_send :: "string \<Rightarrow> string \<Rightarrow> console \<Rightarrow> reply" where
  "account_send toAddress amount = withNode ''node should be stopped.'' (\<lambda>N C.
     do {
       (base, N1) \<leftarrow> coinBase N;
       if base = '''' then say ''please set coinBase.'' (setNode N1 C)
       else if toAddress = '''' then say ''to address is empty.'' (setNode N1 C)
       else do {
         (base2, N2) \<leftarrow> coinBase N1;
         (e, L) \<leftarrow> RequestAccountBlock base2 toAddress (wrap64 (- Atoi amount)) (Leger N2);
         sayResult ''send tx success.'' ''send tx fail.'' e (setNode (setLeger L N2) C)
       }
     })"

definition account_receive :: "string \<Rightarrow> string \<Rightarrow> console \<Rightarrow> reply" where
  "account_receive fromAddress reqHash = withNode ''node should be started.'' (\<lambda>N C.
     do {
       (base, N1) \<leftarrow> coinBase N;
       if base = '''' then say ''please set coinBase.'' (setNode N1 C)
       else if fromAddress = '''' then say ''from address is empty.'' (setNode N1 C)
       else if reqHash = '''' then say ''from hash is empty.'' (setNode N1 C)
       else do {
         (base2, N2) \<leftarrow> coinBase N1;
         (e, L) \<leftarrow> ResponseAccountBlock fromAddress base2 reqHash (Leger N2);
         sayResult ''receive tx success.'' ''receive tx fail.'' e (setNode (setLeger L N2) C)
       }
     })"

section \<open>Blocks\<close>

text \<open>A line of a listing; a nil block in it is a panic.\<close>

definition blockLine :: "'a Tblock_scheme \<Rightarrow> string" where
  "blockLine b = itoa (Theight b) @ tab @ Thash b @ tab @ TpreHash b"

text \<open>The address that the ablock commands use: the only argument, or the coin base.\<close>

definition addrOf :: "string list \<Rightarrow> node \<Rightarrow> (string \<times> node) option" where
  "addrOf args N = do { (base, N1) \<leftarrow> coinBase N; Some (case args of [a] \<Rightarrow> a | _ \<Rightarrow> base, N1) }"

definition ablock_list :: "string list \<Rightarrow> console \<Rightarrow> reply" where
  "ablock_list args = withNode ''node should be started.'' (\<lambda>N C.
     do {
       (addr, N1) \<leftarrow> addrOf args N;
       let (bs, L) = ListAccountBlock addr (Leger N1);
       blocks \<leftarrow> those bs;
       Some (Returns ([Say (''-----address['' @ addr @ ''] blocks-----''), Say (''Height'' @ tab @ ''Hash'' @ tab @ ''PrevHash'')] @
         map (Say \<circ> blockLine) blocks, setNode (setLeger L N1) C))
     })"

definition ablock_head :: "string list \<Rightarrow> console \<Rightarrow> reply" where
  "ablock_head args = withNode ''node should be stopped.'' (\<lambda>N C.
     do {
       (addr, N1) \<leftarrow> addrOf args N;
       let L = Leger N1;
       let (head, bc) = HeadAccount (pBc (bpool L)) addr;
       say (case head of
              Some b \<Rightarrow> ''head info, height:'' @ itoa (Theight b) @ '', hash:'' @ Thash b @ '', prev:'' @ TpreHash b
            | None \<Rightarrow> ''head is empty.'') (setNode (setLeger (L\<lparr>bpool := (bpool L)\<lparr>pBc := bc\<rparr>\<rparr>) N1) C)
     })"

definition ablock_reqs :: "string list \<Rightarrow> string list \<Rightarrow> console \<Rightarrow> reply" where
  "ablock_reqs order args = withNode ''node should be stopped.'' (\<lambda>N C.
     do {
       (addr, N1) \<leftarrow> addrOf args N;
       Some (Returns ([Say (''-----address['' @ addr @ ''] request blocks-----''), Say (''From'' @ tab @ ''Amount'' @ tab @ ''ReqHash'')] @
         map (\<lambda>r. Say (reqFrom r @ tab @ itoa (reqAmount r) @ tab @ ReqHash r)) (ListRequest addr order (Leger N1)), setNode N1 C))
     })"

definition ablock_detail :: "string list \<Rightarrow> console \<Rightarrow> reply" where
  "ablock_detail args = withNode ''node should be stopped.'' (\<lambda>N C.
     do {
       (base, N1) \<leftarrow> coinBase N;
       let (addr, height) = (case args of [a, h] \<Rightarrow> (a, Atoi h) | _ \<Rightarrow> (base, -1));
       let L = Leger N1;
       let (b, bc) = GetAccountByHeight_bc (pBc (bpool L)) addr height;
       Some (Returns ([SayAccount b], setNode (setLeger (L\<lparr>bpool := (bpool L)\<lparr>pBc := bc\<rparr>\<rparr>) N1) C))
     })"

text \<open>There is no guard in front of the listing of snapshot blocks.\<close>

definition sblock_list :: "console \<Rightarrow> reply" where
  "sblock_list C =
     do {
       N \<leftarrow> conNode C;
       bs \<leftarrow> ListSnapshotBlock (Leger N);
       blocks \<leftarrow> those bs;
       Some (Returns ([Say ''-----snapshot blocks-----'', Say (''Height'' @ tab @ ''Hash'' @ tab @ ''PrevHash'' @ tab @ ''AccountLen'' @ tab @ ''Time'')] @
         map (\<lambda>b. Say (blockLine b @ tab @ itoa (int (length (Accounts b))))) blocks, C))
     }"

definition sblock_head :: "console \<Rightarrow> reply" where
  "sblock_head = withNode ''node should be stopped.'' (\<lambda>N C.
     do {
       b \<leftarrow> HeadSnapshot (pBc (bpool (Leger N)));
       say (''head info, height:'' @ itoa (Theight b) @ '', hash:'' @ Thash b @ '', prev:'' @ TpreHash b) C
     })"

definition sblock_detail :: "string list \<Rightarrow> console \<Rightarrow> reply" where
  "sblock_detail args = withNode ''node should be stopped.'' (\<lambda>N C.
     do {
       let height = (case args of [h] \<Rightarrow> Atoi h | _ \<Rightarrow> -1);
       b \<leftarrow> GetSnapshotByHeight_bc (pBc (bpool (Leger N))) height;
       Some (Returns ([SaySnapshot b], C))
     })"

section \<open>The pool\<close>

definition pool_sprint :: "console \<Rightarrow> reply" where
  "pool_sprint = withNode ''node should be started.'' (\<lambda>N C.
     do {
       (s, p) \<leftarrow> Info '''' (bpool (Leger N));
       say s (setNode (setLeger ((Leger N)\<lparr>bpool := p\<rparr>) N) C)
     })"

definition pool_aprint :: "string list \<Rightarrow> console \<Rightarrow> reply" where
  "pool_aprint args = withNode ''node should be stopped.'' (\<lambda>N C.
     (case args of
        [addr] \<Rightarrow>
          do {
            (s, p) \<leftarrow> Info addr (bpool (Leger N));
            say s (setNode (setLeger ((Leger N)\<lparr>bpool := p\<rparr>) N) C)
          }
      | _ \<Rightarrow> say ''aprint [addr]'' C))"

section \<open>Sessions\<close>

datatype command =
    BootStart string | BootStop | BootList
  | NodeStart string string string | NodeStop | NodePeers
  | MinerStart | MinerStop
  | AccountSet "string list" string | AccountCreate string | AccountBalance | AccountSend string string | AccountReceive string string
  | AblockList "string list" | AblockHead "string list" | AblockReqs "string list" | AblockDetail "string list"
  | SblockList | SblockHead | SblockDetail "string list"
  | PoolSprint | PoolAprint "string list"

text \<open>What a command finds outside the shell: the resolver, the clock, and the order of ranges over maps.\<close>

record env =
  envLife :: lifecycle
  envResolve :: "string \<Rightarrow> string option"
  envNow :: int
  envOrder :: "string list"

primrec exec :: "env \<Rightarrow> command \<Rightarrow> console \<Rightarrow> reply" where
  "exec E (BootStart line) = boot_start line"
| "exec E BootStop = boot_stop"
| "exec E BootList = boot_list (envOrder E)"
| "exec E (NodeStart nid port addr) = node_start (envLife E) (envResolve E) (envNow E) nid port addr"
| "exec E NodeStop = node_stop_cmd"
| "exec E NodePeers = node_peers (envOrder E)"
| "exec E MinerStart = miner_start"
| "exec E MinerStop = miner_stop"
| "exec E (AccountSet args line) = account_set args line"
| "exec E (AccountCreate line) = account_create line"
| "exec E AccountBalance = account_balance"
| "exec E (AccountSend to amount) = account_send to amount"
| "exec E (AccountReceive fro req) = account_receive fro req"
| "exec E (AblockList args) = ablock_list args"
| "exec E (AblockHead args) = ablock_head args"
| "exec E (AblockReqs args) = ablock_reqs (envOrder E) args"
| "exec E (AblockDetail args) = ablock_detail args"
| "exec E SblockList = sblock_list"
| "exec E SblockHead = sblock_head"
| "exec E (SblockDetail args) = sblock_detail args"
| "exec E PoolSprint = pool_sprint"
| "exec E (PoolAprint args) = pool_aprint args"

fun session :: "env \<Rightarrow> command list \<Rightarrow> console \<Rightarrow> (out list list \<times> console) outcome option" where
  "session E [] C = Some (Returns ([], C))"
| "session E (c # cs) C =
     do {
       r \<leftarrow> exec E c C;
       case r of
         Blocks \<Rightarrow> Some Blocks
       | Returns (o1, C1) \<Rightarrow>
           do {
             r2 \<leftarrow> session E cs C1;
             Some (case r2 of Blocks \<Rightarrow> Blocks | Returns (os, C2) \<Rightarrow> Returns (o1 # os, C2))
           }
     }"

lemma session_cons:
  assumes "exec E c C = Some (Returns (o1, C1))" "session E cs C1 = Some (Returns (os, C2))"
  shows "session E (c # cs) C = Some (Returns (o1 # os, C2))"
  using assms by simp

section \<open>Without a node\<close>

text \<open>
  While no node runs, every command of the groups miner, account, ablock, sblock and pool, and
  those of the group node but its start, says so in one line and changes nothing; only listing
  the snapshot blocks has no guard and panics.
\<close>

theorem no_node:
  assumes "conNode C = None" "\<nexists>line. cmd = BootStart line" "cmd \<noteq> BootStop" "cmd \<noteq> BootList" "\<nexists>i p a. cmd = NodeStart i p a"
  shows "if cmd = SblockList then exec E cmd C = None else \<exists>s. exec E cmd C = Some (Returns ([Say s], C))"
  using assms
  by (cases cmd)
    (simp_all add: node_stop_cmd_def node_peers_def miner_start_def miner_stop_def account_set_def account_create_def
      account_balance_def account_send_def account_receive_def ablock_list_def ablock_head_def ablock_reqs_def ablock_detail_def
      sblock_list_def sblock_head_def sblock_detail_def pool_sprint_def pool_aprint_def withNode_def say_def)

text \<open>Asking for the details of a snapshot block without a height asks for height -1, which panics.\<close>

theorem sblock_detail_panics:
  assumes "conNode C = Some N"
  shows "exec E (SblockDetail []) C = None"
  using assms by (simp add: sblock_detail_def withNode_def go_defs GetBlockHeight_sc_def)

text \<open>An amount that is not a number is taken for 0: the send command then sends nothing, and reports success.\<close>

theorem garbled_amount: "account_send to ''ten'' = account_send to ''0''"
proof -
  have a: "Atoi ''ten'' = 0" "Atoi ''0'' = 0" by (simp_all add: Atoi_def parseInt_def isDigit_def clamp64_def undigit_def)
  show ?thesis unfolding account_send_def a ..
qed

section \<open>Starting and stopping\<close>

lemma same_life_refl [simp]: "same_life N N"
  by (simp add: same_life_def)

lemma same_life_trans: "same_life N N' \<Longrightarrow> same_life N' N'' \<Longrightarrow> same_life N N''"
  by (auto simp: same_life_def)

lemma same_life_coinBase: "coinBase N = Some (a, N') \<Longrightarrow> same_life N N'"
  by (auto simp: coinBase_def same_life_def Let_def split: Option.bind_splits prod.splits)

lemma same_life_addrOf: "addrOf args N = Some (a, N') \<Longrightarrow> same_life N N'"
  by (auto simp: addrOf_def same_life_coinBase split: Option.bind_splits)

lemma same_life_setLeger [simp]: "same_life N (setLeger L N') = same_life N N'"
  by (simp add: same_life_def setLeger_def)

lemma same_life_wallet [simp]: "nWallet N = Some w \<Longrightarrow> same_life N (N\<lparr>nWallet := Some w'\<rparr>)"
  by (simp add: same_life_def)

text \<open>The commands that start and stop something.\<close>

definition lifecycle_cmd :: "command \<Rightarrow> bool" where
  "lifecycle_cmd cmd \<longleftrightarrow> (case cmd of
     BootStart _ \<Rightarrow> True | BootStop \<Rightarrow> True | NodeStart _ _ _ \<Rightarrow> True | NodeStop \<Rightarrow> True | MinerStart \<Rightarrow> True | MinerStop \<Rightarrow> True | _ \<Rightarrow> False)"

definition same_lives :: "console \<Rightarrow> console \<Rightarrow> bool" where
  "same_lives C C' \<longleftrightarrow> bootNode C' = bootNode C \<and> detached C' = detached C \<and>
     rel_option same_life (conNode C) (conNode C')"

lemma same_lives_refl [simp]: "same_lives C C"
  by (simp add: same_lives_def rel_option_reflI)

lemma same_lives_setNode: "conNode C = Some N \<Longrightarrow> same_lives C (setNode N' C) \<longleftrightarrow> same_life N N'"
  by (simp add: same_lives_def setNode_def)

lemma withNode_lives:
  assumes "withNode msg f C = Some (Returns (os, C'))"
    "\<And>N. conNode C = Some N \<Longrightarrow> f N C = Some (Returns (os, C')) \<Longrightarrow> same_lives C C'"
  shows "same_lives C C'"
  using assms by (cases "conNode C") (auto simp: withNode_def say_def)

lemmas quiet_cmd_defs = node_peers_def account_set_def account_create_def account_balance_def account_send_def account_receive_def
  ablock_list_def ablock_head_def ablock_reqs_def ablock_detail_def sblock_head_def sblock_detail_def pool_sprint_def pool_aprint_def

text \<open>Every other command leaves all lives as they are.\<close>

lemma exec_same_lives:
  assumes "exec E cmd C = Some (Returns (os, C'))" "\<not> lifecycle_cmd cmd"
  shows "same_lives C C'"
proof (cases cmd)
  case BootList
  then show ?thesis using assms by (auto simp: boot_list_def say_def split: option.splits)
next
  case SblockList
  then show ?thesis using assms by (auto simp: sblock_list_def split: Option.bind_splits)
next
  case (AccountSend to amount)
  show ?thesis
    by (rule withNode_lives, use assms AccountSend in \<open>simp add: account_send_def\<close>)
      (auto simp: say_def sayResult_def same_lives_setNode split: Option.bind_splits if_splits
        dest!: same_life_coinBase; blast intro: same_life_trans)
next
  case (AccountReceive fro req)
  show ?thesis
    by (rule withNode_lives, use assms AccountReceive in \<open>simp add: account_receive_def\<close>)
      (auto simp: say_def sayResult_def same_lives_setNode split: Option.bind_splits if_splits
        dest!: same_life_coinBase; blast intro: same_life_trans)
qed (use assms in \<open>auto simp: lifecycle_cmd_def quiet_cmd_defs say_def Let_def case_prod_beta same_lives_setNode
      split: Option.bind_splits if_splits list.splits prod.splits
      elim!: withNode_lives dest!: same_life_coinBase same_life_addrOf intro: same_life_trans\<close>)

text \<open>
  The runs of a shell: commands that return, and in between the node and the boot node go on by
  themselves and the worker of the miner takes notifications. A miner that works already is not
  started again.
\<close>

inductive console_run :: "console \<Rightarrow> bool" where
  start: "console_run newConsole"
| command: "console_run C \<Longrightarrow> orderly (envLife E) \<Longrightarrow> exec E cmd C = Some (Returns (os, C')) \<Longrightarrow>
    (\<And>N. cmd = MinerStart \<Longrightarrow> conNode C = Some N \<Longrightarrow> \<not> miner_works N \<and> \<not> miner_mines N) \<Longrightarrow> console_run C'"
| background: "console_run C \<Longrightarrow> conNode C = Some N \<Longrightarrow> same_life N N' \<Longrightarrow> console_run (setNode N' C)"
| notification: "console_run C \<Longrightarrow> conNode C = Some N \<Longrightarrow> notify_node order t N = Some N' \<Longrightarrow> console_run (setNode N' C)"
| bootBackground: "console_run C \<Longrightarrow> bootNode C = Some b \<Longrightarrow> bClosed b' = bClosed b \<Longrightarrow> console_run (C\<lparr>bootNode := Some b'\<rparr>)"

definition stoppable :: "node \<Rightarrow> bool" where
  "stoppable N \<longleftrightarrow> node_run N \<and> (nMiner N = None \<or> miner_works N \<or> miner_mines N)"

definition console_ok :: "console \<Rightarrow> bool" where
  "console_ok C \<longleftrightarrow> (\<forall>N. conNode C = Some N \<longrightarrow> stoppable N) \<and> (\<forall>b. bootNode C = Some b \<longrightarrow> \<not> bClosed b)"

text \<open>The worker of the miner of the node of the shell has taken a notification.\<close>

definition shell_mines :: "console \<Rightarrow> bool" where
  "shell_mines C \<longleftrightarrow> (case conNode C of None \<Rightarrow> False | Some N \<Rightarrow> miner_mines N)"

lemma stoppable_notified:
  assumes "stoppable N" "notify_node order t N = Some N'"
  shows "stoppable N'"
  using notify_node_ok [OF node_run_running assms(2)] node_run.notified [OF _ assms(2)] assms(1) by (auto simp: stoppable_def)

lemma stoppable_same: "stoppable N \<Longrightarrow> same_life N N' \<Longrightarrow> stoppable N'"
  using node_run.others [of N N'] by (auto simp: stoppable_def same_life_def miner_works_def miner_mines_def)

lemma startNode_ok:
  assumes "orderly life"
  shows "\<exists>N. startNode life now addr port nid = Some N \<and> stoppable N"
proof -
  let ?cfg = "\<lparr>cfgNodeId = nid, cfgPort = port, cfgNetId = 0, cfgLinkBootAddr = addr, cfgInterval = 1,
      cfgMemCnt = int (length DefaultMembers), cfgEnabled = False, cfgHexCoinbase = ''''\<rparr>"
  obtain N0 where N0: "NewNode life ?cfg now = Some N0" using NewNode_returns by blast
  have m: "nMiner N0 = None" using N0 by (auto simp: NewNode_def split: Option.bind_splits)
  obtain N1 where N1: "Init_node N0 = Some N1" "node_inited N1" "nMiner N1 = None" using Init_node_ok [OF N0 assms] m by auto
  obtain N where N: "Start_node N1 = Some N" "node_running N" using Start_node_ok [OF N1(2)] by blast
  have "nMiner N = None" using N(1) N1(3) by (auto simp: Start_node_def split: Option.bind_splits)
  then show ?thesis using N0 N1(1) N(1) node_run.started [OF assms N0 N1(1) N(1)] by (auto simp: startNode_def stoppable_def)
qed

lemma node_start_ok:
  assumes "conNode C = None" "orderly (envLife E)"
  shows "\<exists>os N. exec E (NodeStart nid port addr) C = Some (Returns (os, setNode N C)) \<and> stoppable N"
proof -
  define a where "a = (if addr = '''' \<or> envResolve E addr = None then defaultBootAddr else the (envResolve E addr))"
  obtain N where "startNode (envLife E) (envNow E) a (Atoi port) nid = Some N" "stoppable N"
    using startNode_ok [OF assms(2)] by blast
  then show ?thesis using assms(1) by (cases "addr = '''' \<or> envResolve E addr = None") (auto simp: node_start_def a_def Let_def)
qed

lemma coinBase_stoppable:
  assumes "stoppable N"
  shows "\<exists>base N1. coinBase N = Some (base, N1) \<and> stoppable N1 \<and> miner_works N1 = miner_works N \<and> miner_mines N1 = miner_mines N"
proof -
  have "nWallet N \<noteq> None" using assms node_run_running by (auto simp: stoppable_def node_running_def)
  then obtain base N1 where c: "coinBase N = Some (base, N1)" by (auto simp: coinBase_def Let_def case_prod_beta)
  moreover have "stoppable N1" using stoppable_same [OF assms same_life_coinBase [OF c]] .
  ultimately show ?thesis using same_life_coinBase [OF c] by (auto simp: same_life_def miner_works_def miner_mines_def)
qed

lemma StartMiner_stoppable:
  assumes "stoppable N"
  shows "\<exists>N'. StartMiner N = Some N' \<and> (\<not> miner_works N \<and> \<not> miner_mines N \<longrightarrow> stoppable N')"
proof (cases "miner_works N \<or> miner_mines N")
  case True
  then show ?thesis by (auto simp: miner_works_def miner_mines_def StartMiner_def split: option.splits)
next
  case False
  then obtain N' where "StartMiner N = Some N'" "miner_works N'"
    using StartMiner_ok [of N] assms node_run_running by (auto simp: stoppable_def)
  then show ?thesis using node_run.minerStart [of N N'] False assms by (auto simp: stoppable_def)
qed

text \<open>
  The commands that start and stop something return in every run, and keep the invariant, unless
  they would stop a miner whose worker has taken a notification.
\<close>

lemma lifecycle_returns:
  assumes "console_ok C" "lifecycle_cmd cmd" "orderly (envLife E)" "shell_mines C \<longrightarrow> cmd \<notin> {NodeStop, MinerStop}"
  shows "\<exists>os C'. exec E cmd C = Some (Returns (os, C')) \<and>
    ((\<forall>N. cmd = MinerStart \<longrightarrow> conNode C = Some N \<longrightarrow> \<not> miner_works N \<and> \<not> miner_mines N) \<longrightarrow> console_ok C')"
proof (cases cmd)
  case (BootStart line)
  then show ?thesis using assms(1)
    by (cases "bootNode C")
      (auto simp: boot_start_def say_def startBoot_def NewBoot_def Start_boot_def console_ok_def Let_def defaultBootAddr_def)
next
  case BootStop
  then show ?thesis using assms(1) by (cases "bootNode C") (auto simp: boot_stop_def say_def Stop_boot_def console_ok_def)
next
  case (NodeStart nid port addr)
  show ?thesis
  proof (cases "conNode C")
    case None
    obtain os N where "exec E cmd C = Some (Returns (os, setNode N C))" "stoppable N" using NodeStart node_start_ok [OF None assms(3)] by blast
    then show ?thesis using assms(1) by (auto simp: console_ok_def setNode_def)
  qed (use assms(1) NodeStart in \<open>auto simp: node_start_def say_def\<close>)
next
  case NodeStop
  show ?thesis
  proof (cases "conNode C")
    case (Some N)
    then have "stoppable N" "\<not> miner_mines N" using assms(1,4) NodeStop by (simp_all add: console_ok_def shell_mines_def)
    then obtain N' where "Stop_node N = Some (Returns N')"
      using Stop_node_ok node_run_running by (auto simp: stoppable_def)
    then show ?thesis using Some NodeStop assms(1) by (auto simp: node_stop_cmd_def withNode_def say_def console_ok_def)
  qed (use assms(1) NodeStop in \<open>auto simp: node_stop_cmd_def withNode_def say_def\<close>)
next
  case MinerStart
  show ?thesis
  proof (cases "conNode C")
    case (Some N)
    then have N: "stoppable N" using assms(1) by (simp add: console_ok_def)
    then obtain base N1 where c: "coinBase N = Some (base, N1)" "stoppable N1" "miner_works N1 = miner_works N" "miner_mines N1 = miner_mines N"
      using coinBase_stoppable by blast
    obtain N2 where s: "StartMiner N1 = Some N2" "\<not> miner_works N1 \<and> \<not> miner_mines N1 \<longrightarrow> stoppable N2" using StartMiner_stoppable [OF c(2)] by blast
    then show ?thesis using Some MinerStart assms(1) c by (auto simp: miner_start_def withNode_def say_def console_ok_def setNode_def)
  qed (use assms(1) MinerStart in \<open>auto simp: miner_start_def withNode_def say_def\<close>)
next
  case MinerStop
  show ?thesis
  proof (cases "conNode C")
    case (Some N)
    then have "stoppable N" "\<not> miner_mines N" using assms(1,4) MinerStop by (simp_all add: console_ok_def shell_mines_def)
    then obtain N' where "StopMiner N = Some (Returns N')"
      using StopMiner_ok node_run_running by (auto simp: stoppable_def)
    then show ?thesis using Some MinerStop assms(1) by (auto simp: miner_stop_def withNode_def say_def console_ok_def)
  qed (use assms(1) MinerStop in \<open>auto simp: miner_stop_def withNode_def say_def\<close>)
qed (use assms(2) in \<open>simp_all add: lifecycle_cmd_def\<close>)

text \<open>Those wait for ever.\<close>

lemma mining_stop_blocks:
  assumes "console_ok C" "shell_mines C" "cmd \<in> {NodeStop, MinerStop}"
  shows "exec E cmd C = Some Blocks"
proof -
  obtain N where N: "conNode C = Some N" "miner_mines N" using assms(2) by (auto simp: shell_mines_def split: option.splits)
  then have "node_running N" using assms(1) node_run_running by (auto simp: console_ok_def stoppable_def)
  from Stop_miner_blocks [OF this N(2)] show ?thesis
    using N(1) assms(3) by (auto simp: node_stop_cmd_def miner_stop_def withNode_def)
qed

lemma console_run_ok: "console_run C \<Longrightarrow> console_ok C"
proof (induction rule: console_run.induct)
  case start
  show ?case by (simp add: console_ok_def newConsole_def)
next
  case (command C E cmd os C')
  show ?case
  proof (cases "lifecycle_cmd cmd")
    case True
    have "shell_mines C \<longrightarrow> cmd \<notin> {NodeStop, MinerStop}"
      using mining_stop_blocks [OF command.IH, of cmd E] command.hyps(3) by auto
    then show ?thesis using lifecycle_returns [OF command.IH True command.hyps(2)] command.hyps(3,4) by auto
  next
    case False
    from exec_same_lives [OF command.hyps(3) False] show ?thesis
      using command.IH stoppable_same by (auto simp: console_ok_def same_lives_def rel_option_iff split: option.splits)
  qed
next
  case (background C N N')
  then show ?case using stoppable_same by (auto simp: console_ok_def setNode_def)
next
  case (notification C N order t N')
  then show ?case using stoppable_notified by (auto simp: console_ok_def setNode_def)
next
  case (bootBackground C b b')
  then show ?case by (simp add: console_ok_def)
qed


section \<open>A transfer in the shell\<close>

lemma Leger_simps [simp]:
  "Leger (setLeger L N) = L" "Leger (N\<lparr>nWallet := w\<rparr>) = Leger N" "nWallet (setLeger L N) = nWallet N"
  by (simp_all add: Leger_def setLeger_def)

lemma coinBase_current: "nWallet N = Some w \<Longrightarrow> wCurrent w \<noteq> '''' \<Longrightarrow> coinBase N = Some (wCurrent w, N)"
  by (cases N) (simp add: coinBase_def CoinBase_def)

lemma setLeger_simps [simp]:
  "setLeger (Leger N) N = N" "setLeger L (setLeger L' N) = setLeger L N" "(setLeger L N)\<lparr>nWallet := x\<rparr> = setLeger L (N\<lparr>nWallet := x\<rparr>)"
  by (simp_all add: Leger_def setLeger_def)

text \<open>The shell \<open>C\<close> with the wallet \<open>w\<close> and the ledger \<open>L\<close> in its node.\<close>

definition shell_at :: "console \<Rightarrow> node \<Rightarrow> wallet \<Rightarrow> ledger \<Rightarrow> console" where
  "shell_at C N w L = C\<lparr>conNode := Some (setLeger L (N\<lparr>nWallet := Some w\<rparr>))\<rparr>"

lemma shell_at_self: "conNode C = Some N \<Longrightarrow> nWallet N = Some w \<Longrightarrow> shell_at C N w (Leger N) = C"
  using setLeger_simps(1) [of N] by (cases C; cases N) (simp add: shell_at_def Leger_def setLeger_def)

lemma shell_at_set:
  "a \<noteq> '''' \<Longrightarrow> exec E (AccountSet [a] line) (shell_at C N w L) =
     Some (Returns ([Say ''set address successfully.''], shell_at C N (SetCoinBase a w) L))"
  by (simp add: account_set_def withNode_def say_def shell_at_def setNode_def)

text \<open>The commands of a node whose wallet has a current address, over the operations of the ledger.\<close>

lemma shell_at_send:
  assumes "wCurrent w \<noteq> ''''" "to \<noteq> ''''" "int64_range n" "int64_range (- n)" "RequestAccountBlock (wCurrent w) to (- n) L = Some (e, L')"
  shows "exec E (AccountSend to (itoa n)) (shell_at C N w L) =
    Some (Returns ([case e of None \<Rightarrow> Say ''send tx success.'' | Some x \<Rightarrow> SayError ''send tx fail.'' x], shell_at C N w L'))"
  using assms by (simp add: account_send_def withNode_def coinBase_current Atoi_itoa wrap64_id sayResult_def shell_at_def setNode_def)

lemma shell_at_receive:
  assumes "wCurrent w \<noteq> ''''" "fro \<noteq> ''''" "h \<noteq> ''''" "ResponseAccountBlock fro (wCurrent w) h L = Some (e, L')"
  shows "exec E (AccountReceive fro h) (shell_at C N w L) =
    Some (Returns ([case e of None \<Rightarrow> Say ''receive tx success.'' | Some x \<Rightarrow> SayError ''receive tx fail.'' x], shell_at C N w L'))"
  using assms by (simp add: account_receive_def withNode_def coinBase_current sayResult_def shell_at_def setNode_def)

lemma shell_at_balance:
  assumes "wCurrent w \<noteq> ''''" "fst (GetAccountBalance (wCurrent w) L) = x"
  shows "exec E AccountBalance (shell_at C N w L) =
    Some (Returns ([Say (''balance is  '' @ itoa x)], shell_at C N w (snd (GetAccountBalance (wCurrent w) L))))"
  using assms by (simp add: account_balance_def withNode_def coinBase_current say_def case_prod_beta shell_at_def setNode_def)

lemma GetAccountBalance_same:
  "same_chain (pBc (bpool L)) (pBc (bpool L')) \<Longrightarrow> fst (GetAccountBalance a L') = fst (GetAccountBalance a L)"
  using same_chainD(2) by (simp add: GetAccountBalance_def HeadAccount_def)

lemma GetAccountBalance_again: "fst (GetAccountBalance a (snd (GetAccountBalance b L))) = fst (GetAccountBalance a L)"
  by (simp add: GetAccountBalance_def HeadAccount_def)

lemma wCurrent_SetCoinBase [simp]: "wCurrent (SetCoinBase a w) = a"
  by (simp add: SetCoinBase_def)

text \<open>
  C7. A transfer typed into the shell between accounts that both have a chain already works. On a
  node whose ledger satisfies the conditions of such a transfer, the user selects the sender,
  sends an amount, selects the receiver and receives the block: the shell reports success for
  both, refuses to receive it again, and shows balances that changed by exactly the amount
  typed in.  A receiver without a chain is not covered, as for the ledger.
\<close>

theorem console_transfer:
  assumes node: "conNode C = Some N" "nWallet N = Some w" "Leger N = L" "fro \<noteq> ''''" "to \<noteq> ''''"
    and inv: "chain_inv (pBc (bpool L))" and adr: "fro \<noteq> snapshotHeadKey" "to \<noteq> snapshotHeadKey" "fro \<noteq> to"
    and heads: "acHead (acOf (pBc (bpool L)) fro) = Some p" "acHead (acOf (pBc (bpool L)) to) = Some q"
    and sn: "HeadSnapshot (pBc (bpool L)) = Some sn" "SnapshotHeight p \<le> Theight sn" "SnapshotHeight q \<le> Theight sn"
    and amount: "0 \<le> n" "n < Amount p" "Amount p < 2 ^ 63" "0 < Amount q" "Amount q + n < 2 ^ 63"
    and listen: "\<forall>x. acListener (acOf (pBc (bpool L)) x) = reqPoolListener"
    and pools: "\<forall>x ap. pendingAc (bpool L) x = Some ap \<longrightarrow> currentOf ap \<noteq> None"
    and fresh: "\<forall>h x. 1 \<le> h \<longrightarrow> GetAccountByHeight (store (pBc (bpool L))) to h = Some x \<longrightarrow> BlockTypeOf x = RECEIVED \<longrightarrow>
      SourceHash x \<noteq> Thash (sendBlock (Some p) sn (clockSec L) fro to (- n))"
  shows "\<exists>h e C'. session E
      [AccountSet [fro] '''', AccountSend to (itoa n), AccountSet [to] '''', AccountReceive fro h, AccountReceive fro h, AccountBalance,
       AccountSet [fro] '''', AccountBalance] C =
    Some (Returns ([[Say ''set address successfully.''], [Say ''send tx success.''], [Say ''set address successfully.''],
       [Say ''receive tx success.''], [SayError ''receive tx fail.'' e], [Say (''balance is  '' @ itoa (Amount q + n))],
       [Say ''set address successfully.''], [Say (''balance is  '' @ itoa (Amount p - n))]], C'))"
proof -
  obtain b c L1 L2 e L3 where t: "b = sendBlock (Some p) sn (clockSec L) fro to (- n)" "RequestAccountBlock fro to (- n) L = Some (None, L1)"
    "ResponseAccountBlock fro to (Thash b) L1 = Some (None, L2)" "fst (GetAccountBalance fro L2) = Amount p - n"
    "fst (GetAccountBalance to L2) = Amount q + n" "ResponseAccountBlock fro to (Thash b) L2 = Some (Some e, L3)"
    "same_chain (pBc (bpool L2)) (pBc (bpool L3))"
    using transfer_holds [OF inv adr heads sn amount listen pools fresh] by (elim exE conjE) (rule that)
  have h: "Thash b \<noteq> ''''" using t(1) by (simp add: sendBlock_def Let_def SetHash_def)
  have rng: "int64_range n" "int64_range (- n)" using amount by (simp_all add: int64_range_def)
  have bal: "fst (GetAccountBalance to L3) = Amount q + n" "fst (GetAccountBalance fro (snd (GetAccountBalance to L3))) = Amount p - n"
    using GetAccountBalance_same [OF t(7)] t(4,5) by (simp_all add: GetAccountBalance_again)
  have "session E
      [AccountSet [fro] '''', AccountSend to (itoa n), AccountSet [to] '''', AccountReceive fro (Thash b), AccountReceive fro (Thash b),
       AccountBalance, AccountSet [fro] '''', AccountBalance] (shell_at C N w L) =
    Some (Returns ([[Say ''set address successfully.''], [Say ''send tx success.''], [Say ''set address successfully.''],
       [Say ''receive tx success.''], [SayError ''receive tx fail.'' e], [Say (''balance is  '' @ itoa (Amount q + n))],
       [Say ''set address successfully.''], [Say (''balance is  '' @ itoa (Amount p - n))]],
      shell_at C N (SetCoinBase fro (SetCoinBase to (SetCoinBase fro w))) (snd (GetAccountBalance fro (snd (GetAccountBalance to L3))))))"
    using node(4,5) h rng t(2,3,6) bal
    by (simp add: shell_at_set shell_at_send shell_at_receive shell_at_balance del: exec.simps)
  then show ?thesis using shell_at_self [OF node(1,2)] node(3) by auto
qed

section \<open>What the shell loses\<close>

lemma exec_detached: "exec E cmd C = Some (Returns (os, C')) \<Longrightarrow> set (detached C) \<subseteq> set (detached C')"
proof (cases "lifecycle_cmd cmd")
  case True
  assume "exec E cmd C = Some (Returns (os, C'))"
  with True show ?thesis
    by (cases cmd) (auto simp: lifecycle_cmd_def boot_start_def boot_stop_def node_start_def node_stop_cmd_def miner_start_def miner_stop_def
        withNode_def say_def setNode_def Let_def split: option.splits Option.bind_splits outcome.splits if_splits prod.splits)
qed (auto dest: exec_same_lives simp: same_lives_def)

lemma session_detached: "session E cs C = Some (Returns (os, C')) \<Longrightarrow> set (detached C) \<subseteq> set (detached C')"
proof (induction cs arbitrary: C os)
  case (Cons c cs)
  then obtain o1 C1 os2 where s: "exec E c C = Some (Returns (o1, C1))" "session E cs C1 = Some (Returns (os2, C'))"
    by (auto split: Option.bind_splits outcome.splits)
  show ?case using exec_detached [OF s(1)] Cons.IH [OF s(2)] by blast
qed simp

text \<open>
  Stopping the miner loses the node. In every run of a shell with a node whose worker has not
  taken a notification, the command that stops the miner also forgets the node, though the node keeps its connections, its consensus and
  its pool: the shell says that no node runs, a second one can be started beside it, and
  whatever is typed in afterwards, the first one is never stopped.
\<close>

theorem miner_stop_loses_node:
  assumes "console_run C" "conNode C = Some N" "\<not> miner_mines N" "orderly (envLife E)"
  shows "\<exists>N' C' C'' os. exec E MinerStop C = Some (Returns ([Say ''miner stop successfully.''], C')) \<and>
    exec E NodeStop C' = Some (Returns ([Say ''node has stopped.''], C')) \<and>
    exec E (NodeStart nid port addr) C' = Some (Returns (os, C'')) \<and> conNode C'' \<noteq> None \<and>
    node_running N' \<and> nSyncer N' = nSyncer N \<and>
    (\<forall>cmds outs D. session E cmds C' = Some (Returns (outs, D)) \<longrightarrow> N' \<in> set (detached D))"
proof -
  have st: "stoppable N" using console_run_ok [OF assms(1)] assms(2) by (simp add: console_ok_def)
  then obtain N' where N': "StopMiner N = Some (Returns N')" "node_running N'" "nSyncer N' = nSyncer N"
    using StopMiner_ok [of N] node_run_running assms(3) by (auto simp: stoppable_def)
  define C' where "C' = C\<lparr>conNode := None, detached := N' # detached C\<rparr>"
  have ms: "exec E MinerStop C = Some (Returns ([Say ''miner stop successfully.''], C'))"
    using N'(1) assms(2) by (simp add: miner_stop_def withNode_def say_def C'_def)
  have ns: "exec E NodeStop C' = Some (Returns ([Say ''node has stopped.''], C'))"
    by (simp add: node_stop_cmd_def withNode_def say_def C'_def)
  have "conNode C' = None" by (simp add: C'_def)
  then obtain os M where "exec E (NodeStart nid port addr) C' = Some (Returns (os, setNode M C'))"
    using node_start_ok [OF _ assms(4)] by blast
  moreover have "\<forall>cmds outs D. session E cmds C' = Some (Returns (outs, D)) \<longrightarrow> N' \<in> set (detached D)"
    using session_detached [of E _ C'] by (fastforce simp: C'_def)
  moreover have "conNode (setNode M C') \<noteq> None" by (simp add: setNode_def)
  ultimately show ?thesis using ms ns N'(2,3) by blast
qed

text \<open>
  Starting the miner twice makes the stop of the node wait for ever: the shell does not ask whether
  the miner works.
\<close>

theorem double_miner_start_blocks:
  assumes "console_run C" "conNode C = Some N" "miner_works N" "coinBase N = Some (a, N)" "a \<noteq> ''''"
  shows "\<exists>C'. exec E MinerStart C = Some (Returns ([Say ''miner start successfully.''], C')) \<and> exec E NodeStop C' = Some Blocks"
proof -
  obtain m where m: "nMiner N = Some m" "working m" using assms(3) by (auto simp: miner_works_def split: option.splits)
  define M where "M = startMiner m N"
  have nc: "\<not> nClosed M" "nMiner M = Some (fst (Start_miner (syncDone (nSyncer N)) m (nCommittee N)))"
    using console_run_ok [OF assms(1)] assms(2) node_run_running [of N]
    by (auto simp: M_def startMiner_def case_prod_beta console_ok_def stoppable_def node_running_def)
  have "exec E MinerStart C = Some (Returns ([Say ''miner start successfully.''], setNode M C))"
    using assms(2,4,5) m(1) by (simp add: miner_start_def withNode_def say_def StartMiner_def M_def)
  moreover have "Stop_node M = Some Blocks"
    using nc second_start_blocks [OF m(2)] by (simp add: Stop_node_def stopMiner_def)
  then have "exec E NodeStop (setNode M C) = Some Blocks" by (simp add: node_stop_cmd_def withNode_def setNode_def)
  ultimately show ?thesis by blast
qed

section \<open>Witnesses\<close>

definition ex_env :: env where
  "ex_env = \<lparr>envLife = ex_life, envResolve = Some, envNow = 1533550900000000000, envOrder = []\<rparr>"

lemma startNode_fresh:
  assumes "startNode life now addr port nid = Some N"
  shows "nWallet N = Some NewWallet" "pBc (bpool (Leger N)) = ex_new" "pendingAc (bpool (Leger N)) = Map.empty"
proof -
  have "nWallet N = Some NewWallet \<and> pBc (bpool (Leger N)) = ex_new \<and> pendingAc (bpool (Leger N)) = Map.empty"
    using assms
    by (auto simp: startNode_def NewNode_def NewLedger_def NewPool_def Init_node_def Start_node_def NewSyncer_def Leger_def ex0 ex_new_def
        split: Option.bind_splits)
  then show "nWallet N = Some NewWallet" "pBc (bpool (Leger N)) = ex_new" "pendingAc (bpool (Leger N)) = Map.empty" by blast+
qed

lemma ex_console:
  obtains os N where "exec ex_env (NodeStart ''1'' ''8080'' '''') newConsole = Some (Returns (os, setNode N newConsole))" "stoppable N"
    "nWallet N = Some NewWallet" "pBc (bpool (Leger N)) = ex_new" "pendingAc (bpool (Leger N)) = Map.empty"
    "console_run (setNode N newConsole)" "nMiner N = None"
proof -
  obtain N where N: "startNode ex_life (envNow ex_env) defaultBootAddr (Atoi ''8080'') ''1'' = Some N" "stoppable N"
    using startNode_ok [OF ex_life_orderly] by blast
  then obtain os where e: "exec ex_env (NodeStart ''1'' ''8080'' '''') newConsole = Some (Returns (os, setNode N newConsole))"
    by (auto simp: node_start_def newConsole_def ex_env_def)
  have "console_run (setNode N newConsole)"
    by (rule console_run.command [OF console_run.start _ e]) (simp_all add: ex_env_def ex_life_orderly)
  moreover have "nMiner N = None"
    using N(1) by (auto simp: startNode_def NewNode_def Init_node_def Start_node_def split: Option.bind_splits)
  ultimately show thesis using that [OF e N(2) startNode_fresh [OF N(1)]] by blast
qed

theorem no_node_witness: "exec ex_env SblockList newConsole = None \<and> (\<exists>s. exec ex_env AccountBalance newConsole = Some (Returns ([Say s], newConsole)))"
  using no_node [of newConsole SblockList ex_env] no_node [of newConsole AccountBalance ex_env] by (simp add: newConsole_def del: exec.simps)

text \<open>A shell whose node has a miner, before and after its worker takes a notification.\<close>

lemma ex_mining_console:
  obtains C C' where "console_run C" "conNode C \<noteq> None" "\<not> shell_mines C" "console_run C'" "shell_mines C'"
proof -
  obtain os N where e: "stoppable N" "nWallet N = Some NewWallet" "pBc (bpool (Leger N)) = ex_new" "nMiner N = None"
    "console_run (setNode N newConsole)" using ex_console by blast
  have o: "orderly (envLife ex_env)" by (simp add: ex_env_def ex_life_orderly)
  let ?C = "setNode N newConsole"
  define C1 where "C1 = setNode (N\<lparr>nWallet := Some (SetCoinBase ''viteshan'' NewWallet)\<rparr>) ?C"
  have s1: "exec ex_env (AccountSet [''viteshan''] '''') ?C = Some (Returns ([Say ''set address successfully.''], C1))"
    using e(2) by (simp add: account_set_def withNode_def say_def setNode_def C1_def)
  have r1: "console_run C1" by (rule console_run.command [OF e(5) o s1]) simp
  define N1 where "N1 = N\<lparr>nWallet := Some (SetCoinBase ''viteshan'' NewWallet)\<rparr>"
  have c1: "conNode C1 = Some N1" "nMiner N1 = None" using e(4) by (simp_all add: C1_def setNode_def N1_def)
  have ok1: "stoppable N1" using console_run_ok [OF r1] c1(1) by (simp add: console_ok_def)
  then obtain N2 where N2: "StartMiner N1 = Some N2" "miner_works N2"
    using StartMiner_ok [of N1] c1(2) node_run_running by (auto simp: stoppable_def miner_works_def miner_mines_def)
  have cb: "coinBase N1 = Some (''viteshan'', N1)" by (simp add: coinBase_current N1_def)
  have s2: "exec ex_env MinerStart C1 = Some (Returns ([Say ''miner start successfully.''], setNode N2 C1))"
    using c1(1) cb N2(1) by (simp add: miner_start_def withNode_def say_def)
  have r2: "console_run (setNode N2 C1)"
    by (rule console_run.command [OF r1 o s2]) (use c1 in \<open>auto simp: miner_works_def miner_mines_def\<close>)
  obtain m where m: "nMiner N2 = Some m" "working m" using N2(2) by (auto simp: miner_works_def)
  have "pBc (bpool (Leger N2)) = ex_new"
    using N2(1) c1(2) e(3) by (auto simp: StartMiner_def startMiner_def N1_def Leger_def Let_def split: Option.bind_splits prod.splits)
  then have g: "genAndInsert [] (coinbase m) 0 (Leger N2) = Some Blocks"
    using ex_new_simps(2)
    by (simp add: genAndInsert_def MiningSnapshotBlock_def nextSnapshotBlock_def AddDirectSnapshotBlock_locked_def RLock_def
        NextAccountSnapshot_def Let_def HeadSnapshot_def)
  define N3 where "N3 = setLeger (Leger N2) (N2\<lparr>nMiner := Some (m\<lparr>mWorker := (mWorker m)\<lparr>busy := True\<rparr>\<rparr>)\<rparr>)"
  have n: "notify_node [] 0 N2 = Some N3"
    using m g by (auto simp: notify_node_def update_worker_def working_def N3_def)
  have r3: "console_run (setNode N3 (setNode N2 C1))"
    by (rule console_run.notification [OF r2 _ n]) (simp add: setNode_def)
  have "shell_mines (setNode N3 (setNode N2 C1))"
    using m by (auto simp: shell_mines_def setNode_def miner_mines_def N3_def setLeger_def mining_def working_def)
  moreover have "\<not> shell_mines (setNode N2 C1)"
    using m miner_states(3) by (auto simp: shell_mines_def setNode_def miner_mines_def)
  moreover have "conNode (setNode N2 C1) \<noteq> None" by (simp add: setNode_def)
  ultimately show thesis using that r2 r3 by blast
qed


theorem miner_stop_loses_node_witness:
  "\<exists>C N' C' C'' os. console_run C \<and> exec ex_env MinerStop C = Some (Returns ([Say ''miner stop successfully.''], C')) \<and>
     exec ex_env (NodeStart ''2'' ''8080'' '''') C' = Some (Returns (os, C'')) \<and> conNode C'' \<noteq> None \<and> node_running N' \<and> N' \<in> set (detached C')"
proof -
  obtain os N where N: "console_run (setNode N newConsole)" "nMiner N = None" using ex_console by blast
  have c: "conNode (setNode N newConsole) = Some N" "\<not> miner_mines N" "orderly (envLife ex_env)"
    using N(2) by (simp_all add: setNode_def miner_mines_def ex_env_def ex_life_orderly)
  obtain N' C' C'' os where w: "exec ex_env MinerStop (setNode N newConsole) = Some (Returns ([Say ''miner stop successfully.''], C'))"
    "exec ex_env (NodeStart ''2'' ''8080'' '''') C' = Some (Returns (os, C''))" "conNode C'' \<noteq> None" "node_running N'"
    "\<forall>cmds outs D. session ex_env cmds C' = Some (Returns (outs, D)) \<longrightarrow> N' \<in> set (detached D)"
    using miner_stop_loses_node [OF N(1) c, of "''2''" "''8080''" "''''"] by (elim exE conjE) (rule that)
  then have "N' \<in> set (detached C')" using spec [OF w(5), of "[]"] by simp
  then show ?thesis using N(1) w(1-4) by blast
qed

theorem console_transfer_witness:
  "\<exists>h e o1 C'. session ex_env
      [NodeStart ''1'' ''8080'' '''', AccountSet [''viteshan''] '''', AccountSend ''jie'' (itoa 10), AccountSet [''jie''] '''',
       AccountReceive ''viteshan'' h, AccountReceive ''viteshan'' h, AccountBalance, AccountSet [''viteshan''] '''', AccountBalance] newConsole =
    Some (Returns ([o1, [Say ''set address successfully.''], [Say ''send tx success.''], [Say ''set address successfully.''],
       [Say ''receive tx success.''], [SayError ''receive tx fail.'' e], [Say (''balance is  '' @ itoa 210)],
       [Say ''set address successfully.''], [Say (''balance is  '' @ itoa 190)]], C'))"
proof -
  obtain os N where N: "exec ex_env (NodeStart ''1'' ''8080'' '''') newConsole = Some (Returns (os, setNode N newConsole))"
    "nWallet N = Some NewWallet" "pBc (bpool (Leger N)) = ex_new" "pendingAc (bpool (Leger N)) = Map.empty"
    using ex_console by blast
  have c: "conNode (setNode N newConsole) = Some N" by (simp add: setNode_def)
  have h: "acHead (acOf ex_new ''viteshan'') = Some (genesisAccountBlock ''viteshan'')" "acHead (acOf ex_new ''jie'') = Some (genesisAccountBlock ''jie'')"
    by (simp_all add: ex_new_head ex0_head)
  have f: "\<forall>h x. 1 \<le> h \<longrightarrow> GetAccountByHeight (store ex_new) ''jie'' h = Some x \<longrightarrow> BlockTypeOf x = RECEIVED \<longrightarrow>
      SourceHash x \<noteq> Thash (sendBlock (Some (genesisAccountBlock ''viteshan'')) genesisSnapshot (clockSec (Leger N)) ''viteshan'' ''jie'' (- 10))"
    by (auto split: if_splits)
  have am: "Amount (genesisAccountBlock ''jie'') + 10 = 210" "Amount (genesisAccountBlock ''viteshan'') - 10 = 190" by simp_all
  have "\<exists>hh e C'. session ex_env
      [AccountSet [''viteshan''] '''', AccountSend ''jie'' (itoa 10), AccountSet [''jie''] '''',
       AccountReceive ''viteshan'' hh, AccountReceive ''viteshan'' hh, AccountBalance, AccountSet [''viteshan''] '''', AccountBalance] (setNode N newConsole) =
    Some (Returns ([[Say ''set address successfully.''], [Say ''send tx success.''], [Say ''set address successfully.''],
       [Say ''receive tx success.''], [SayError ''receive tx fail.'' e], [Say (''balance is  '' @ itoa (Amount (genesisAccountBlock ''jie'') + 10))],
       [Say ''set address successfully.''], [Say (''balance is  '' @ itoa (Amount (genesisAccountBlock ''viteshan'') - 10))]], C'))"
    by (rule console_transfer [OF c N(2) refl, where sn = genesisSnapshot]) (use ex_new_inv h f N(3,4) in simp_all)
  then show ?thesis unfolding am using session_cons [OF N(1)] by blast
qed

end
