(* ===== verification/Monitor.thy ===== *)
theory Monitor
  imports Go_Prelude "HOL-Library.Multiset"
begin

text \<open>
  Monitoring, package \<open>monitor\<close>: the ring that keeps the last values (\<open>monitor/ring.go\<close>), the
  counters of events and times, the snapshot that is taken of them every second, and the
  sums over the ring (\<open>monitor/monitor.go\<close>). An index out of range is the panic \<^const>\<open>None\<close>.
  The averages of a statistic are floating point numbers that nothing else reads; they are
  left out.
\<close>

section \<open>The ring\<close>

record 'a ring =
  rcap :: int
  datas :: "'a option list"
  ri :: int

definition newRing :: "nat \<Rightarrow> 'a ring" where
  "newRing n = \<lparr>rcap = 0, datas = replicate n None, ri = 0\<rparr>"

definition lastI :: "'a ring \<Rightarrow> int \<Rightarrow> int" where
  "lastI r i = (if i = 0 then int (length (datas r)) - 1 else i - 1)"

definition nextI :: "'a ring \<Rightarrow> int \<Rightarrow> int" where
  "nextI r i = (if i + 1 \<ge> int (length (datas r)) then 0 else i + 1)"

definition add_ring :: "'a \<Rightarrow> 'a ring \<Rightarrow> 'a ring option" where
  "add_ring x r =
     (if 0 \<le> ri r \<and> ri r < int (length (datas r)) then
        Some (r\<lparr>datas := (datas r)[nat (ri r) := Some x], ri := nextI r (ri r),
                rcap := (if rcap r < int (length (datas r)) then rcap r + 1 else rcap r)\<rparr>)
      else None)"

definition reset_ring :: "'a ring \<Rightarrow> 'a ring" where
  "reset_ring r = r\<lparr>ri := 0, rcap := 0\<rparr>"

text \<open>The loop of \<open>all\<close>: walk backwards from the write position, filling the result from its end.\<close>

fun allLoop :: "'a ring \<Rightarrow> nat \<Rightarrow> int \<Rightarrow> 'a option list \<Rightarrow> 'a option list option" where
  "allLoop r 0 j acc = Some acc"
| "allLoop r (Suc n) j acc =
     (let j1 = lastI r j
      in if 0 \<le> j1 \<and> j1 < int (length (datas r)) then allLoop r n j1 (datas r ! nat j1 # acc) else None)"

definition all_ring :: "'a ring \<Rightarrow> 'a option list option" where
  "all_ring r = allLoop r (nat (rcap r)) (ri r) []"

section \<open>The ring keeps the last values\<close>

text \<open>A ring of size \<open>n\<close> that was given the values \<open>xs\<close> since it was empty.\<close>

definition ring_holds :: "nat \<Rightarrow> 'a list \<Rightarrow> 'a ring \<Rightarrow> bool" where
  "ring_holds n xs r \<longleftrightarrow> length (datas r) = n \<and> ri r = int (length xs mod n) \<and> rcap r = int (min (length xs) n) \<and>
     (\<forall>k < length xs. length xs \<le> k + n \<longrightarrow> datas r ! (k mod n) = Some (xs ! k))"

lemma ring_holds_new: "ring_holds n [] (newRing n)"
  by (simp add: ring_holds_def newRing_def)

lemma ring_holds_reset: "ring_holds n xs r \<Longrightarrow> ring_holds n [] (reset_ring r)"
  by (simp add: ring_holds_def reset_ring_def)

lemma mod_neq_if_close: "k < m \<Longrightarrow> m < k + n \<Longrightarrow> k mod n \<noteq> m mod n" for k m n :: nat
  by (metis add_diff_inverse_nat less_diff_conv2 mod_eq_dvd_iff_nat nat_dvd_not_less nat_less_le not_less
      order.strict_implies_order add.commute zero_less_diff)

lemma ring_holds_add:
  assumes "ring_holds n xs r" "0 < n"
  shows "\<exists>r'. add_ring x r = Some r' \<and> ring_holds n (xs @ [x]) r'"
proof -
  let ?m = "length xs"
  have r: "length (datas r) = n" "ri r = int (?m mod n)" "rcap r = int (min ?m n)"
    "\<And>k. k < ?m \<Longrightarrow> ?m \<le> k + n \<Longrightarrow> datas r ! (k mod n) = Some (xs ! k)"
    using assms(1) by (simp_all add: ring_holds_def)
  define r' where "r' = r\<lparr>datas := (datas r)[?m mod n := Some x], ri := nextI r (ri r),
      rcap := (if rcap r < int (length (datas r)) then rcap r + 1 else rcap r)\<rparr>"
  have "add_ring x r = Some r'" using r assms(2) by (simp add: add_ring_def r'_def)
  moreover have "ri r' = int (Suc ?m mod n)"
    using mod_less_divisor [OF assms(2), of ?m] r(1,2) by (auto simp: r'_def nextI_def mod_Suc)
  moreover have "rcap r' = int (min (Suc ?m) n)" using r by (auto simp: r'_def)
  moreover have "datas r' ! (k mod n) = Some ((xs @ [x]) ! k)" if k: "k < Suc ?m" "Suc ?m \<le> k + n" for k
  proof (cases "k = ?m")
    case True
    then show ?thesis using assms(2) r(1) by (simp add: r'_def)
  next
    case False
    then have "k < ?m" "?m < k + n" using k by auto
    then have "k mod n \<noteq> ?m mod n" "datas r ! (k mod n) = Some (xs ! k)" using mod_neq_if_close r(4) by auto
    then show ?thesis using \<open>k < ?m\<close> by (simp add: r'_def nth_append)
  qed
  ultimately show ?thesis using r(1) by (auto simp: ring_holds_def r'_def)
qed

lemma lastI_mod: "0 < m \<Longrightarrow> 0 < length (datas r) \<Longrightarrow> lastI r (int (m mod length (datas r))) = int ((m - 1) mod length (datas r))"
  by (cases m) (auto simp: lastI_def mod_Suc split: if_splits)

lemma allLoop_spec:
  assumes "length (datas r) = n" "0 < n" "c \<le> m" "m \<le> length xs"
    "\<And>k. k < m \<Longrightarrow> m \<le> k + c \<Longrightarrow> datas r ! (k mod n) = Some (xs ! k)"
  shows "allLoop r c (int (m mod n)) acc = Some (map Some (drop (m - c) (take m xs)) @ acc)"
  using assms(3-5)
proof (induction c arbitrary: m acc)
  case (Suc c)
  obtain p where m: "m = Suc p" using Suc.prems(1) by (cases m) auto
  have j: "lastI r (int (m mod n)) = int (p mod n)" using lastI_mod [of m r] m assms(1,2) by simp
  have "datas r ! (p mod n) = Some (xs ! p)" using Suc.prems(3) [of p] m by simp
  then have "allLoop r (Suc c) (int (m mod n)) acc = allLoop r c (int (p mod n)) (Some (xs ! p) # acc)"
    using j assms(1,2) by (simp add: Let_def)
  also have "\<dots> = Some (map Some (drop (p - c) (take p xs)) @ Some (xs ! p) # acc)"
    using Suc.IH [of p "Some (xs ! p) # acc"] Suc.prems m by simp
  also have "map Some (drop (p - c) (take p xs)) @ Some (xs ! p) # acc = map Some (drop (m - Suc c) (take m xs)) @ acc"
    using m Suc.prems(1,2) by (simp add: take_Suc_conv_app_nth)
  finally show ?case .
qed simp

lemma all_ring_holds:
  assumes "ring_holds n xs r" "0 < n"
  shows "all_ring r = Some (map Some (drop (length xs - n) xs))"
proof -
  have r: "length (datas r) = n" "ri r = int (length xs mod n)" "rcap r = int (min (length xs) n)"
    "\<And>k. k < length xs \<Longrightarrow> length xs \<le> k + n \<Longrightarrow> datas r ! (k mod n) = Some (xs ! k)"
    using assms(1) by (simp_all add: ring_holds_def)
  have "allLoop r (min (length xs) n) (int (length xs mod n)) [] =
      Some (map Some (drop (length xs - min (length xs) n) (take (length xs) xs)) @ [])"
    using r by (intro allLoop_spec [OF r(1) assms(2)]) auto
  moreover have "length xs - min (length xs) n = length xs - n" by simp
  ultimately show ?thesis using r by (simp add: all_ring_def)
qed

text \<open>The values given to a ring one after the other.\<close>

fun add_list :: "'a list \<Rightarrow> 'a ring \<Rightarrow> 'a ring option" where
  "add_list [] r = Some r"
| "add_list (x # xs) r = do { r1 \<leftarrow> add_ring x r; add_list xs r1 }"

lemma add_list_holds:
  assumes "ring_holds n xs r" "0 < n"
  shows "\<exists>r'. add_list ys r = Some r' \<and> ring_holds n (xs @ ys) r'"
  using assms(1)
proof (induction ys arbitrary: xs r)
  case (Cons y ys)
  obtain r1 where "add_ring y r = Some r1" "ring_holds n (xs @ [y]) r1" using ring_holds_add [OF Cons.prems assms(2)] by blast
  then show ?case using Cons.IH by fastforce
qed simp

text \<open>
  A ring of \<open>n > 0\<close> places refines the list of everything it was given: adding never
  fails, and reading it returns the last \<open>n\<close> values in the order in which they were added, or
  all of them when there are fewer.
\<close>

theorem ring_refines_last:
  assumes "0 < n"
  shows "\<exists>r. add_list xs (newRing n) = Some r \<and> all_ring r = Some (map Some (drop (length xs - n) xs))"
  using add_list_holds [OF ring_holds_new assms, of xs] all_ring_holds [OF _ assms] by fastforce

theorem ring_refines_last_witness:
  "\<exists>r. add_list [1, 2, 3, 4, 5 :: nat] (newRing 3) = Some r \<and> all_ring r = Some [Some 3, Some 4, Some 5]"
  using ring_refines_last [of 3 "[1, 2, 3, 4, 5 :: nat]"] by simp

section \<open>Counters\<close>

record msg =
  Group :: string
  Type :: int
  Name :: string
  Cnt :: int
  Sum :: int

definition newMsg :: "string \<Rightarrow> string \<Rightarrow> int \<Rightarrow> msg" where
  "newMsg g name t = \<lparr>Group = g, Type = t, Name = name, Cnt = 0, Sum = 0\<rparr>"

definition add_msg :: "int \<Rightarrow> msg \<Rightarrow> msg" where
  "add_msg i m = m\<lparr>Cnt := wrap64 (Cnt m + 1), Sum := wrap64 (Sum m + i)\<rparr>"

definition msg_String :: "msg \<Rightarrow> string" where
  "msg_String m = ''{'' @ [char_of (34 :: nat)] @ ''Cnt'' @ [char_of (34 :: nat)] @ '':'' @ itoa (Cnt m) @ '','' @
     [char_of (34 :: nat)] @ ''Sum'' @ [char_of (34 :: nat)] @ '':'' @ itoa (Sum m) @ ''}''"

definition reset_msg :: "msg \<Rightarrow> msg" where
  "reset_msg m = m\<lparr>Sum := 0, Cnt := 0\<rparr>"

definition key_msg :: "string \<Rightarrow> string \<Rightarrow> string" where
  "key_msg t name = t @ ''-'' @ name"

record monitor =
  ms :: "string \<rightharpoonup> msg"
  mring :: "(string \<rightharpoonup> msg) ring"

definition log_msg :: "string \<Rightarrow> string \<Rightarrow> int \<Rightarrow> int \<Rightarrow> monitor \<Rightarrow> monitor" where
  "log_msg g name t i m =
     (let k = key_msg g name
      in case ms m k of
           Some v \<Rightarrow> m\<lparr>ms := (ms m)(k \<mapsto> add_msg i v)\<rparr>
         | None \<Rightarrow> m\<lparr>ms := (ms m)(k \<mapsto> add_msg i (newMsg g name t))\<rparr>)"

definition LogEvent :: "string \<Rightarrow> string \<Rightarrow> monitor \<Rightarrow> monitor" where
  "LogEvent t name = log_msg t name 1 1"

definition LogDuration :: "string \<Rightarrow> string \<Rightarrow> int \<Rightarrow> monitor \<Rightarrow> monitor" where
  "LogDuration t name duration = log_msg t name 2 duration"

definition LogTime :: "int \<Rightarrow> string \<Rightarrow> string \<Rightarrow> int \<Rightarrow> monitor \<Rightarrow> monitor" where
  "LogTime now t name tm = log_msg t name 2 (now - tm)"

text \<open>The tick of every second: the counters go into the ring and start again from zero.\<close>

definition tick :: "monitor \<Rightarrow> monitor option" where
  "tick m = do { r \<leftarrow> add_ring (ms m) (mring m); Some (m\<lparr>ms := map_option reset_msg \<circ> ms m, mring := r\<rparr>) }"

record Stat =
  statName :: string
  statType :: string
  statCnt :: int
  statSum :: int
  statCap :: int

definition merge_stat :: "msg \<Rightarrow> Stat \<Rightarrow> Stat" where
  "merge_stat m s = s\<lparr>statCnt := wrap64 (statCnt s + Cnt m), statSum := wrap64 (statSum s + Sum m), statCap := wrap32 (statCap s + 1)\<rparr>"

definition mergeAll_stat :: "(string \<rightharpoonup> msg) \<Rightarrow> (string \<rightharpoonup> Stat) \<Rightarrow> (string \<rightharpoonup> Stat)" where
  "mergeAll_stat snap msgs =
     (\<lambda>k. case snap k of
            None \<Rightarrow> msgs k
          | Some v \<Rightarrow>
              if Cnt v \<le> 0 then msgs k
              else (case msgs k of
                      Some s \<Rightarrow> Some (merge_stat v s)
                    | None \<Rightarrow> Some (merge_stat v \<lparr>statName = Name v, statType = Group v, statCnt = 0, statSum = 0, statCap = 0\<rparr>)))"

text \<open>An empty place of the ring would be a failed type assertion.\<close>

definition stats :: "monitor \<Rightarrow> (string \<rightharpoonup> Stat) option" where
  "stats m =
     do {
       all \<leftarrow> all_ring (mring m);
       snaps \<leftarrow> those all;
       Some (fold mergeAll_stat snaps Map.empty)
     }"

text \<open>The order in which the statistics are listed.\<close>

definition Less :: "Stat \<Rightarrow> Stat \<Rightarrow> bool" where
  "Less a b = (if statType a = statType b then statName a < statName b else statType a < statType b)"

lemma Less_transp: "Less a b \<Longrightarrow> Less b c \<Longrightarrow> Less a c"
  by (auto simp: Less_def split: if_splits)

text \<open>
  \<open>Stats\<close>: the statistics of all keys, in that order. The keys come in the order in which the range
  visits the map; the averages, which are floating-point numbers, are left out.
\<close>

fun insert_stat :: "Stat \<Rightarrow> Stat list \<Rightarrow> Stat list" where
  "insert_stat x [] = [x]"
| "insert_stat x (y # ys) = (if Less y x then y # insert_stat x ys else x # y # ys)"

definition Stats :: "string list \<Rightarrow> monitor \<Rightarrow> Stat list option" where
  "Stats order m = do { msgs \<leftarrow> stats m; Some (foldr insert_stat (List.map_filter msgs order) []) }"

lemma Less_total: "\<not> Less a b \<Longrightarrow> \<not> Less b c \<Longrightarrow> \<not> Less a c"
  by (auto simp: Less_def split: if_splits)

lemma insert_stat_set: "mset (insert_stat x ys) = add_mset x (mset ys)"
  by (induction ys) auto

lemma insert_stat_sorted:
  "sorted_wrt (\<lambda>a b. \<not> Less b a) ys \<Longrightarrow> sorted_wrt (\<lambda>a b. \<not> Less b a) (insert_stat x ys)"
proof (induction ys)
  case (Cons y ys)
  have s: "set (insert_stat x ys) = insert x (set ys)" using arg_cong [OF insert_stat_set [of x ys], of set_mset] by simp
  show ?case
  proof (cases "Less y x")
    case True
    then have "\<not> Less x y" using Less_transp [of x y x] by (auto simp: Less_def split: if_splits)
    then show ?thesis using Cons True s by auto
  next
    case False
    then show ?thesis using Cons.prems Less_total [of _ y x] by auto
  qed
qed simp

text \<open>\<open>Stats\<close> lists exactly the statistics of the keys, sorted by type and name.\<close>

theorem Stats_sorted:
  assumes "Stats order m = Some xs" "stats m = Some msgs"
  shows "mset xs = mset (List.map_filter msgs order) \<and> sorted_wrt (\<lambda>a b. \<not> Less b a) xs"
proof -
  have "mset (foldr insert_stat ys []) = mset ys \<and> sorted_wrt (\<lambda>a b. \<not> Less b a) (foldr insert_stat ys [])" for ys
    by (induction ys) (auto simp: insert_stat_set insert_stat_sorted)
  then show ?thesis using assms by (auto simp: Stats_def)
qed

text \<open>The key of a counter does not separate its parts: events of different types may be counted together.\<close>

lemma key_ambiguous: "key_msg ''a'' ''b-c'' = key_msg ''a-b'' ''c''"
  by (simp add: key_msg_def)

text \<open>What an event adds is what the next tick reports, and nothing is reported twice.\<close>

lemma tick_after_event:
  assumes "ring_holds n hist (mring m)" "0 < n"
  shows "\<exists>m'. tick m = Some m' \<and> ring_holds n (hist @ [ms m]) (mring m') \<and>
    (\<forall>k v. ms m' k = Some v \<longrightarrow> Cnt v = 0 \<and> Sum v = 0)"
  using ring_holds_add [OF assms, of "ms m"] by (auto simp: tick_def reset_msg_def)

end
