(* ===== verification/Pipeline.thy ===== *)
theory Pipeline
  imports Syncer_Props
begin

text \<open>
  The way of a block from the network to the chain, across the components: the receiver of the
  syncer hands it to the pool, compaction makes a snippet of it and appends the snippet to the
  current chain of its account, and the insertion round verifies it and writes it to the block
  chain.
\<close>

section \<open>Iteration orders\<close>

definition ordering_ok :: "ordering \<Rightarrow> bool" where
  "ordering_ok ord \<longleftrightarrow> (\<forall>X. finite X \<longrightarrow> set (ord X) = X \<and> distinct (ord X))"

lemma ordering_single: "ordering_ok ord \<Longrightarrow> ord {x} = [x]"
proof -
  assume "ordering_ok ord"
  then have o: "set (ord {x}) = {x}" "distinct (ord {x})" by (simp_all add: ordering_ok_def)
  then have "length (ord {x}) = 1" using distinct_card [OF o(2)] by simp
  then show ?thesis using o(1) by (cases "ord {x}") auto
qed

lemma ordering_empty: "ordering_ok ord \<Longrightarrow> ord {} = []"
  unfolding ordering_ok_def by (metis finite.emptyI set_empty)

lemma valuesOf_single [simp]: "ordering_ok ord \<Longrightarrow> valuesOf ord [k \<mapsto> v] = [v]"
  by (simp add: valuesOf_def ordering_single List.map_filter_simps)

lemma valuesOf_empty [simp]: "ordering_ok ord \<Longrightarrow> valuesOf ord Map.empty = []"
  by (simp add: valuesOf_def ordering_empty List.map_filter_simps)

section \<open>Compaction of one block\<close>

lemma loopGenSnippetChains_one:
  fixes p :: "'a bcpool"
  defines "cid \<equiv> fst (genChainId (chainpool p))"
  shows "loopGenSnippetChains [w] [] p = Some (1, p\<lparr>blockpool := compound w (blockpool p),
     chainpool := (snd (genChainId (chainpool p)))\<lparr>snippetChains := [cid \<mapsto> init_sn cid w]\<rparr>\<rparr>)"
proof -
  let ?s = "init_sn cid w"
  have g: "genSnippets [w] [] p = ([?s], p\<lparr>blockpool := compound w (blockpool p), chainpool := snd (genChainId (chainpool p))\<rparr>)"
    by (simp add: cid_def case_prod_beta)
  have s: "chainId ?s = cid" "headHash ?s = Thash (block w)" by (simp_all add: init_sn_def)
  have m: "splitToMap [?s] = [Thash (block w) \<mapsto> cid]" "heapOf [?s] = [cid \<mapsto> ?s]" by (simp_all add: splitToMap_def heapOf_def s)
  have "mergeLoop cid [Thash (block w) \<mapsto> cid] [cid \<mapsto> ?s] = Some ([Thash (block w) \<mapsto> cid], [cid \<mapsto> ?s])"
    by (subst mergeLoop.simps) simp
  then have mg: "mergeAll (map chainId [?s]) (splitToMap [?s]) (heapOf [?s]) = Some ([Thash (block w) \<mapsto> cid], [cid \<mapsto> ?s])"
    by (simp add: m s)
  have fin: "(\<lambda>i. if i \<in> set (map chainId [?s]) \<and> (\<exists>c \<in> set [?s]. [Thash (block w) \<mapsto> cid] (headHash c) = Some i)
      then [cid \<mapsto> ?s] i else None) = [cid \<mapsto> ?s]" by (auto simp: fun_eq_iff s)
  show ?thesis unfolding loopGenSnippetChains_def g Let_def split_conv mg bind.simps fin by simp
qed

text \<open>A snippet of one block that fits on the head of the only chain is appended to it.\<close>

lemma appendLoop_one:
  fixes cp :: "'a cpool"
  assumes "chains cp cid = Some c" "snippetChains cp = [sid \<mapsto> init_sn sid w]"
    "Theight (block w) = headHeight c + 1" "TpreHash (block w) = fcHeadHash c"
  shows "appendLoop disk diskHead [sid] [cid] cp =
    Some (1, cp\<lparr>chains := (chains cp)(cid \<mapsto> addHead w c), snippetChains := Map.empty\<rparr>)"
proof -
  let ?s = "init_sn sid w"
  have s: "tailHeight ?s = headHeight c" "tailHash ?s = fcHeadHash c" "headHeight ?s = headHeight c + 1"
    "heightBlocks ?s (headHeight c + 1) = Some w" "chainId ?s = sid"
    using assms(3,4) by (simp_all add: init_sn_def)
  have "forky cp disk diskHead [cid] ?s = Some (Insertable cid, ?s)"
    using assms(1) s by (simp add: forky_def)
  moreover have "insert_fc w c = (None, addHead w c)" using assms(3,4) by (simp add: insert_fc_def)
  then have "insertSnippetLoop [tailHeight ?s + 1..headHeight ?s] c ?s =
      Some (None, addHead w c, ?s\<lparr>heightBlocks := (heightBlocks ?s)(headHeight c + 1 := None),
        tailHeight := headHeight c + 1, tailHash := Thash (block w)\<rparr>)"
    using s assms(3) by simp
  then have "insertSnippet cid ?s cp = Some (None, cp\<lparr>chains := (chains cp)(cid \<mapsto> addHead w c), snippetChains := Map.empty\<rparr>)"
    using assms(1,2) s by (simp add: insertSnippet_def)
  ultimately show ?thesis using assms(2) by simp
qed

text \<open>An account pool at rest: no free block, no snippet, one chain, no task, the lock free.\<close>

definition quiet :: "accountPool \<Rightarrow> aforked \<Rightarrow> bool" where
  "quiet ap c \<longleftrightarrow> freeBlocks (blockpool (apPool ap)) = Map.empty \<and> snippetChains (chainpool (apPool ap)) = Map.empty \<and>
     chains (chainpool (apPool ap)) = [current (chainpool (apPool ap)) \<mapsto> c] \<and> apTask ap = None \<and> compactLock ap = 0"

lemma Compact_one:
  assumes "quiet ap c" "ordering_ok ord" "apLoopTime ap + 200000000 < now"
    "compoundBlocks (blockpool (apPool ap)) (Thash b) = None"
    "Theight b = headHeight c + 1" "TpreHash b = fcHeadHash c" "Head_disk (accountCh (apAddress ap) ver) bc = Some t"
  defines "w \<equiv> \<lparr>block = b, forkVersion = ver\<rparr>"
  shows "\<exists>ap'. Compact ord ver now (ap\<lparr>apPool := AddBlock ver b (apPool ap)\<rparr>) bc = Some (2, [], ap') \<and>
    quiet ap' (addHead w c) \<and> apAddress ap' = apAddress ap"
proof -
  let ?p = "apPool ap" and ?cp = "chainpool (apPool ap)" and ?cid = "current (chainpool (apPool ap))"
  note q = assms(1) [unfolded quiet_def]
  define p0 where "p0 = ?p\<lparr>blockpool := (blockpool ?p)\<lparr>freeBlocks := [Thash b \<mapsto> w]\<rparr>\<rparr>"
  have add: "AddBlock ver b ?p = p0"
    using q assms(4) by (simp add: AddBlock_def contains_bp_def putBlock_def p0_def w_def)
  define sid where "sid = fst (genChainId ?cp)"
  define cp1 where "cp1 = (snd (genChainId ?cp))\<lparr>snippetChains := [sid \<mapsto> init_sn sid w]\<rparr>"
  have cp1: "chains cp1 = chains ?cp" "current cp1 = ?cid" "snippetChains cp1 = [sid \<mapsto> init_sn sid w]"
    by (simp_all add: cp1_def genChainId_def Let_def)
  define p1 where "p1 = p0\<lparr>blockpool := compound w (blockpool p0), chainpool := cp1\<rparr>"
  have s1: "loopGenSnippetChains [w] [] p0 = Some (1, p1)"
    using loopGenSnippetChains_one [of w p0] by (simp add: p1_def cp1_def sid_def p0_def)
  define cp2 where "cp2 = cp1\<lparr>chains := (chains cp1)(?cid \<mapsto> addHead w c), snippetChains := Map.empty\<rparr>"
  have bw: "block w = b" by (simp add: w_def)
  have ds: "dom (snippetChains cp1) = {sid}" "dom (chains cp1) = {?cid}" using q by (simp_all add: cp1)
  have "sortSnippets cp1 [sid] = [sid]" by (simp add: sortSnippets_def)
  then have s2: "loopAppendChains (accountCh (apAddress ap) ver) ver bc [sid] [?cid] p1 = Some (1, p1\<lparr>chainpool := cp2\<rparr>)"
    using appendLoop_one [of cp1 ?cid c sid w] q cp1 assms(5,6,7) bw
    by (simp add: loopAppendChains_def p1_def cp2_def)
  define ap' where "ap' = ap\<lparr>apPool := p1\<lparr>chainpool := cp2\<rparr>, apLoopTime := now\<rparr>"
  have p0s: "freeBlocks (blockpool p0) = [Thash b \<mapsto> w]" "chainpool p0 = ?cp" by (simp_all add: p0_def)
  have "Compact ord ver now (ap\<lparr>apPool := p0\<rparr>) bc = Some (2, [], ap')"
    using q assms(2,3) s1 s2 ds
    by (simp add: Compact_def p0s Let_def ordering_single loopFetchForSnippets_def) (simp add: p1_def cp2_def ap'_def ds ordering_single loopFetchForSnippets_def)
  moreover have "quiet ap' (addHead w c)"
    using q cp1 by (simp add: quiet_def ap'_def p1_def cp2_def compound_def p0_def bw)
  ultimately show ?thesis using add by (auto simp: ap'_def)
qed

section \<open>Insertion of one block\<close>

lemma quiet_current: "quiet ap c \<Longrightarrow> currentOf ap = Some c"
  by (simp add: quiet_def currentOf_def)

lemma addHead_simps [simp]:
  "tailHeight (addHead w c) = tailHeight c" "headHeight (addHead w c) = Theight (block w)"
  "heightBlocks (addHead w c) = (heightBlocks c)(Theight (block w) \<mapsto> w)" "fcHeadHash (addHead w c) = Thash (block w)"
  by (simp_all add: addHead_def)

lemma TryInsert_one:
  assumes "quiet ap c'" "pool_inv (apAddress ap) ver bc c'" "pending_ok U (apAddress ap) bc c'"
    "headHeight c' = tailHeight c' + 1" "heightBlocks c' (tailHeight c' + 1) = Some w"
    "VerifyReferred_ac ver now (block w) bc = Some (stat, bc1)" "VerifyResult_ac stat = SUCCESS"
  shows "\<exists>ap' bc' c2. TryInsert ver now ap bc = Some (Some NewSuccessTask, ap', bc') \<and> pool_inv (apAddress ap) ver bc' c2 \<and>
    currentOf ap' = Some c2 \<and> size_chain c2 = 0 \<and> filed bc' \<and> acHead (acOf bc' (apAddress ap)) = Some (block w) \<and>
    GetAccountByHeight (store bc') (apAddress ap) (tailHeight c' + 1) = Some (block w)"
proof -
  let ?a = "apAddress ap"
  have lt: "tailHeight c' < headHeight c'" using assms(4) by simp
  obtain tH where t: "forked_ok tH c'" using assms(2) unfolding pool_inv_def by (meson current_okE)
  obtain bc2 c2 where s: "tryInsertLoop ?a ver now [tailHeight c' + 1..headHeight c'] bc c' =
      tryInsertLoop ?a ver now [tailHeight c2 + 1..headHeight c2] bc2 c2" "pool_inv ?a ver bc2 c2" "pending_ok U ?a bc2 c2"
    "tailHeight c2 = tailHeight c' + 1" "headHeight c2 = headHeight c'" "acHead (acOf bc2 ?a) = Some (block w)"
    "\<forall>h. poolView (accountCh ?a ver) bc2 c2 h = poolView (accountCh ?a ver) bc c' h"
    using tryInsertLoop_write [OF assms(2,3) lt assms(5) forked_own_get(1) [OF t assms(5)] assms(6)
        VerifyReferred_ac_same [OF assms(6)] assms(7)] by blast
  have l: "tryInsertLoop ?a ver now [tailHeight c' + 1..headHeight c'] bc c' = Some (NewSuccessTask, bc2, c2)"
    using s(1,4,5) assms(4) by simp
  have q: "apTask ap = None" "compactLock ap = 0" "currentOf ap = Some c'"
    using assms(1) quiet_current by (simp_all add: quiet_def)
  have "tryInsert_ap ver now ap bc = Some (NewSuccessTask, setCurrent c2 ap, bc2)"
    by (simp only: tryInsert_ap_def q(3) l bind.simps split_conv)
  then have "TryInsert ver now ap bc = Some (Some NewSuccessTask, (setCurrent c2 ap)\<lparr>apTask := Some NewSuccessTask\<rparr>, bc2)"
    using q lt by (simp add: TryInsert_def size_chain_def)
  moreover have "currentOf ((setCurrent c2 ap)\<lparr>apTask := Some NewSuccessTask\<rparr>) = Some c2"
    by (simp add: currentOf_def setCurrent_def)
  moreover have "GetAccountByHeight (store bc2) ?a (tailHeight c' + 1) = Some (block w)"
    using view_on_chain [OF s(2), of "tailHeight c' + 1"] s(4,7) assms(5) by (simp add: poolView_def)
  ultimately show ?thesis using s(2-6) assms(4) by (auto simp: size_chain_def pending_ok_def)
qed

section \<open>From the network to the chain\<close>


section \<open>Witness\<close>

definition ex_rest_chain :: aforked where
  "ex_rest_chain = init_fc ''p-1'' Disk (genesisAccountBlock ''jie'')"

definition ex_rest :: accountPool where
  "ex_rest = \<lparr>apAddress = ''jie'',
     apPool = \<lparr>Id = ''accountChainPool-jie'', blockpool = \<lparr>freeBlocks = Map.empty, compoundBlocks = Map.empty\<rparr>,
       chainpool = \<lparr>poolId = ''accountChainPool-jie'', lastestChainIdx = 1, current = ''p-1'', snippetChains = Map.empty,
         chains = [''p-1'' \<mapsto> ex_rest_chain]\<rparr>\<rparr>,
     apTask = None, apLoopTime = - 300000000, compactLock = 0\<rparr>"

definition ex_rest_node :: syncer where
  "ex_rest_node = NewSyncer (sy_net ''A'' ''B'' (sy_state 0 ''g'')) (ex_pool ex_filed [''jie'' \<mapsto> ex_rest])"

lemma ordering_exists: "\<exists>ord. ordering_ok ord"
  unfolding ordering_ok_def by (metis finite_distinct_list)


end
