(* ===== verification/Peers.thy ===== *)
theory Peers
  imports Syncer_Props
begin

text \<open>
  The reading goroutine of a peer, \<open>loopRead\<close> of \<open>p2p/p2p.go\<close>, over the handlers of the syncer,
  and what messages from the network can do to a node. The websocket delivers events; the
  handlers that other parts could register are left out, as nothing registers any.
\<close>

section \<open>Reading from a peer\<close>

datatype readEvent =
    NetClosed
  | CloseMessage
  | ReadError
  | TextMessage
  | GarbledMessage
  | BinaryMessage bool netMsg

text \<open>A goroutine begins with the event that the peer is connected.\<close>

definition loopRead_start :: "ordering \<Rightarrow> string \<Rightarrow> syncer \<Rightarrow> syncer option" where
  "loopRead_start ord pid S = Handle ord (\<lambda>_. Map.empty) True peerConnectedMsg pid S"

text \<open>One round: whether the goroutine goes on. When it ends, the deferred calls run, last first.\<close>

definition loopRead_step :: "ordering \<Rightarrow> readEvent \<Rightarrow> (handState, netMsg) peer \<Rightarrow> syncer \<Rightarrow> (bool \<times> syncer) option" where
  "loopRead_step ord ev p S =
     (let leave = do {
            S1 \<leftarrow> Handle ord (\<lambda>_. Map.empty) True peerClosedMsg (peerId p) S;
            Some (False, S1\<lparr>net := snd (readDone p (net S1))\<rparr>)
          }
      in case ev of
           NetClosed \<Rightarrow> leave
         | CloseMessage \<Rightarrow> leave
         | ReadError \<Rightarrow> leave
         | TextMessage \<Rightarrow> Some (True, S)
         | GarbledMessage \<Rightarrow> Some (True, S)
         | BinaryMessage ok m \<Rightarrow> do { S1 \<leftarrow> Handle ord (\<lambda>_. Map.empty) ok m (peerId p) S; Some (True, S1) })"

section \<open>Connections\<close>

text \<open>
  The table is well formed, every peer in it has a state, the syncer knows only peers of the
  table, and the snapshot chain has a head.
\<close>

definition conn_ok :: "syncer \<Rightarrow> bool" where
  "conn_ok S \<longleftrightarrow> table_ok (net S) \<and> (\<forall>i p. peers (net S) i = Some p \<longrightarrow> peerState p \<noteq> None) \<and>
     syPeers S \<subseteq> dom (peers (net S)) \<and> HeadSnapshot (pBc (rw S)) \<noteq> None"

definition ok_with :: "string set \<Rightarrow> syncer \<Rightarrow> bool" where
  "ok_with D S \<longleftrightarrow> conn_ok S \<and> dom (peers (net S)) = D"

lemma ok_frame:
  "ok_with D S \<Longrightarrow> net S' = net S \<Longrightarrow> syPeers S' = syPeers S \<Longrightarrow> HeadSnapshot (pBc (rw S')) = HeadSnapshot (pBc (rw S)) \<Longrightarrow> ok_with D S'"
  by (auto simp: ok_with_def conn_ok_def)

lemma retry_sy_frame: "net (snd (retry_sy k S)) = net S" "syPeers (snd (retry_sy k S)) = syPeers S" "rw (snd (retry_sy k S)) = rw S"
  by (simp_all add: retry_sy_def case_prod_beta Let_def)

lemma ok_retry [simp]: "ok_with D S \<Longrightarrow> ok_with D (snd (retry_sy k S))"
  by (erule ok_frame) (simp_all add: retry_sy_frame)

lemma ok_retryAll [simp]: "ok_with D S \<Longrightarrow> ok_with D (snd (retryAll ts S))"
  by (induction ts arbitrary: S) (simp_all add: case_prod_beta Let_def)

lemma ok_done [simp]: "ok_with D S \<Longrightarrow> ok_with D (done_sy h i S)"
  by (erule ok_frame) (simp_all add: done_sy_def)

lemma ok_touchAc [simp]: "ok_with D S \<Longrightarrow> ok_with D (touchAc a S)"
  by (erule ok_frame) (simp_all add: touchAc_def HeadSnapshot_def)

lemma writeTo_safe:
  assumes "ok_with D S"
  shows "\<exists>S'. sending (writeTo pid m) S = Some S' \<and> ok_with D S'"
proof (cases "peers (net S) pid")
  case None
  then show ?thesis using assms by (simp add: sending_def writeTo_def)
next
  case (Some p)
  have t: "table_ok (net S)" using assms by (simp add: ok_with_def conn_ok_def)
  have p: "peerId p = pid" "\<not> peerClosed p" "length (writeCh p) \<le> writeChCap" using t Some by (auto simp: table_ok_def)
  define p' where "p' = (if writeChCap \<le> length (writeCh p) then p else p\<lparr>writeCh := writeCh p @ [m]\<rparr>)"
  have "\<exists>e. Write m p = Some (e, p')" using p(2) by (simp add: Write_def p'_def)
  then have w: "sending (writeTo pid m) S = Some (S\<lparr>net := (net S)\<lparr>peers := (peers (net S))(pid \<mapsto> p')\<rparr>\<rparr>)"
    using Some by (auto simp: sending_def writeTo_def)
  have p': "peerId p' = pid" "\<not> peerClosed p'" "length (writeCh p') \<le> writeChCap" "peerState p' = peerState p"
    using p by (simp_all add: p'_def)
  have "ok_with D (S\<lparr>net := (net S)\<lparr>peers := (peers (net S))(pid \<mapsto> p')\<rparr>\<rparr>)"
    using assms p' Some by (auto simp: ok_with_def conn_ok_def table_ok_def)
  then show ?thesis using w by blast
qed

lemma toBestPeer_safe:
  assumes "ok_with D S"
  shows "\<exists>S'. sending (toBestPeer ord m) S = Some S' \<and> ok_with D S'"
proof (cases "BestPeer (ord (dom (peers (net S)))) (net S)")
  case (Inl e)
  then show ?thesis using assms by (simp add: sending_def toBestPeer_def)
next
  case (Inr p)
  then have "sending (toBestPeer ord m) S = sending (writeTo (peerId p) m) S" by (simp add: sending_def toBestPeer_def)
  then show ?thesis using writeTo_safe [OF assms] by simp
qed

lemmas sender_defs = RequestAccountHash_def RequestSnapshotHash_def RequestAccountBlocks_def RequestSnapshotBlocks_def
  requestSnapshotBlockByPeer_def SendAccountBlocks_def SendSnapshotBlocks_def SendAccountHashes_def SendSnapshotHashes_def

section \<open>Messages\<close>

lemma fetch_safe:
  assumes "ok_with D S"
  shows "\<exists>S'. fetchSnapshotBlockFromPeer hh pid S = Some S' \<and> ok_with D S'"
    "\<exists>S'. fetchSnapshotBlockByHash ord ts S = Some S' \<and> ok_with D S'"
    "\<exists>S'. fetchAccountBlockByHash ord a ts S = Some S' \<and> ok_with D S'"
  using writeTo_safe [OF ok_retry [OF assms]] toBestPeer_safe [OF ok_retryAll [OF assms]] assms
  by (simp_all add: fetchSnapshotBlockFromPeer_def fetchSnapshotBlockByHash_def fetchAccountBlockByHash_def sender_defs case_prod_beta Let_def)

lemma sendAccountHashesAll_safe: "ok_with D S \<Longrightarrow> \<exists>S'. sendAccountHashesAll a ms pid S = Some S' \<and> ok_with D S'"
proof (induction ms arbitrary: S)
  case (Cons m ms)
  obtain S1 where "sending (SendAccountHashes a m pid) S = Some S1" "ok_with D S1"
    using writeTo_safe [OF Cons.prems] by (auto simp: sender_defs)
  then show ?case using Cons.IH [of S1] by simp
qed simp

lemma answers_safe:
  assumes "ok_with D S"
  shows "\<exists>S'. reqAccountHash ok a hh k pid S = Some S' \<and> ok_with D S'"
    "\<exists>S'. reqSnapshotHash ok hh k pid S = Some S' \<and> ok_with D S'"
    "\<exists>S'. reqAccountBlocks a hs pid S = Some S' \<and> ok_with D S'"
    "\<exists>S'. reqSnapshotBlocks hs pid S = Some S' \<and> ok_with D S'"
  using writeTo_safe [OF assms] writeTo_safe [OF ok_touchAc [OF assms]] sendAccountHashesAll_safe [OF assms]
    sendAccountHashesAll_safe [OF ok_touchAc [OF assms]] assms
  by (simp_all add: reqAccountHash_def reqSnapshotHash_def reqAccountBlocks_def reqSnapshotBlocks_def split_def sender_defs Let_def)

lemma AddAccountBlock_safe: "\<exists>P'. AddAccountBlock a b P = Some P' \<and> HeadSnapshot (pBc P') = HeadSnapshot (pBc P)"
proof (cases "pendingAc P a")
  case None
  obtain t where "Head_disk (accountCh a (pVer P)) (pBc P) = Some t" using Head_disk_account by blast
  then show ?thesis using None
    by (simp add: AddAccountBlock_def selfPendingAc_def newAccountPool_def init_bcp_def init_cp_def genChainId_def Let_def setAc_def HeadSnapshot_def)
next
  case (Some p)
  then show ?thesis by (simp add: AddAccountBlock_def selfPendingAc_def setAc_def)
qed

lemma blocks_in_safe:
  "ok_with D S \<Longrightarrow> if None \<in> set bs then snapshotBlocks_in bs S = None else \<exists>S'. snapshotBlocks_in bs S = Some S' \<and> ok_with D S'"
  "ok_with D S \<Longrightarrow> if None \<in> set cs then accountBlocks_in cs S = None else \<exists>S'. accountBlocks_in cs S = Some S' \<and> ok_with D S'"
proof -
  show "ok_with D S \<Longrightarrow> if None \<in> set bs then snapshotBlocks_in bs S = None else \<exists>S'. snapshotBlocks_in bs S = Some S' \<and> ok_with D S'"
  proof (induction bs arbitrary: S)
    case (Cons v vs)
    show ?case
    proof (cases v)
      case (Some b)
      let ?S = "done_sy (Thash b) (Theight b) S"
      have "ok_with D (?S\<lparr>rw := AddSnapshotBlock b (rw ?S)\<rparr>)"
        by (rule ok_frame [OF ok_done [OF Cons.prems]]) (simp_all add: AddSnapshotBlock_def)
      from Cons.IH [OF this] show ?thesis using Some by (simp add: Let_def)
    qed simp
  qed simp
  show "ok_with D S \<Longrightarrow> if None \<in> set cs then accountBlocks_in cs S = None else \<exists>S'. accountBlocks_in cs S = Some S' \<and> ok_with D S'"
  proof (induction cs arbitrary: S)
    case (Cons v vs)
    show ?case
    proof (cases v)
      case (Some b)
      let ?S = "done_sy (Thash b) (Theight b) S"
      obtain P' where P': "AddAccountBlock (Tsigner b) b (rw ?S) = Some P'" "HeadSnapshot (pBc P') = HeadSnapshot (pBc (rw ?S))"
        using AddAccountBlock_safe by blast
      have "ok_with D (?S\<lparr>rw := P'\<rparr>)" by (rule ok_frame [OF ok_done [OF Cons.prems]]) (simp_all add: P'(2))
      from Cons.IH [OF this] show ?thesis using Some P'(1) by (simp add: Let_def)
    qed simp
  qed simp
qed

lemma update_st_safe:
  assumes "ok_with D S" "pid \<in> D"
  shows "\<exists>S'. update_st s pid S = Some S' \<and> ok_with D S'"
proof -
  obtain p where p: "peers (net S) pid = Some p" using assms by (auto simp: ok_with_def)
  obtain hd where hd: "HeadSnapshot (pBc (rw S)) = Some hd" using assms(1) by (auto simp: ok_with_def conn_ok_def)
  have "peerState p \<noteq> None" using assms(1) p by (auto simp: ok_with_def conn_ok_def)
  then obtain st where st: "GetState p = Some st" by (auto simp: GetState_def)
  let ?S = "S\<lparr>net := (net S)\<lparr>peers := (peers (net S))
      (pid \<mapsto> SetState (Some (st\<lparr>handS := \<lparr>Hash = Hash s, Height = Height s\<rparr>\<rparr>)) p)\<rparr>\<rparr>"
  have "ok_with D ?S" using assms(1) p by (auto simp: ok_with_def conn_ok_def table_ok_def SetState_def)
  then show ?thesis using fetch_safe(1) p hd st by (simp add: update_st_def Let_def)
qed

text \<open>Which messages panic: exactly those with a null among their blocks.\<close>

definition null_blocks :: "netMsg \<Rightarrow> bool" where
  "null_blocks m \<longleftrightarrow> (case m of
     snapshotBlocksMsg bs \<Rightarrow> None \<in> set bs | accountBlocksMsg a bs \<Rightarrow> None \<in> set bs | _ \<Rightarrow> False)"

lemma ok_known [simp]: "ok_with D S \<Longrightarrow> pid \<in> D \<Longrightarrow> ok_with D (peerConnected pid S)" "ok_with D S \<Longrightarrow> ok_with D (peerClosed_st pid S)"
  by (auto simp: ok_with_def conn_ok_def peerConnected_def peerClosed_st_def)

lemma Handle_safe:
  assumes "ok_with D S" "pid \<in> D"
  shows "if null_blocks m then innerHandle ord ok m pid S = None else \<exists>S'. innerHandle ord ok m pid S = Some S' \<and> ok_with D S'"
  using fetch_safe [OF assms(1)] answers_safe [OF assms(1)] blocks_in_safe [OF assms(1)] update_st_safe [OF assms] assms
  by (cases m) (simp_all add: null_blocks_def)

section \<open>Runs\<close>

text \<open>
  The runs of the peer table and the syncer: peers whose handshake succeeded are added, which
  starts their goroutine; messages are read and queued ones written; dials are noted, and the pool
  and the chain change as long as the snapshot chain has a head.
\<close>

inductive peer_run :: "syncer \<Rightarrow> bool" where
  start: "HeadSnapshot (pBc P) \<noteq> None \<Longrightarrow> peer_run (NewSyncer (NewP2P nid nt port) P)"
| connected: "peer_run S \<Longrightarrow> addPeer p (net S) = (True, p, n) \<Longrightarrow> \<not> peerClosed p \<Longrightarrow> writeCh p = [] \<Longrightarrow> peerState p \<noteq> None \<Longrightarrow>
    loopRead_start ord (peerId p) (S\<lparr>net := n\<rparr>) = Some S' \<Longrightarrow> peer_run S'"
| reading: "peer_run S \<Longrightarrow> peers (net S) pid = Some p \<Longrightarrow> loopRead_step ord ev p S = Some (go, S') \<Longrightarrow> peer_run S'"
| writing: "peer_run S \<Longrightarrow> peers (net S) pid = Some p \<Longrightarrow>
    peer_run (S\<lparr>net := (net S)\<lparr>peers := (peers (net S))(pid \<mapsto> snd (loopWrite_step p))\<rparr>\<rparr>)"
| dial: "peer_run S \<Longrightarrow> peer_run (S\<lparr>net := snd (addDial pid addr (net S))\<rparr>)"
| others: "peer_run S \<Longrightarrow> HeadSnapshot (pBc P) \<noteq> None \<Longrightarrow> peer_run (S\<lparr>rw := P\<rparr>)"

lemma conn_ok_with: "conn_ok S \<longleftrightarrow> ok_with (dom (peers (net S))) S"
  by (simp add: ok_with_def)

lemma leave_ok: "conn_ok S \<Longrightarrow> conn_ok ((peerClosed_st (peerId p) S)\<lparr>net := snd (readDone p (net S))\<rparr>)"
  using table_ok_readDone [of "net S" p] by (auto simp: conn_ok_def peerClosed_st_def readDone_def)

lemma step_ok:
  assumes "conn_ok S" "peers (net S) pid = Some p"
  shows "loopRead_step ord ev p S = None \<longleftrightarrow> (\<exists>ok m. ev = BinaryMessage ok m \<and> null_blocks m)"
    "loopRead_step ord ev p S = Some (go, S') \<Longrightarrow> conn_ok S'"
proof -
  have pid: "peerId p = pid" "pid \<in> dom (peers (net S))" using assms by (auto simp: conn_ok_def table_ok_def)
  note h = Handle_safe [OF conn_ok_with [THEN iffD1, OF assms(1)] pid(2)]
  have net: "net (peerClosed_st pid S) = net S" by (simp add: peerClosed_st_def)
  show "loopRead_step ord ev p S = None \<longleftrightarrow> (\<exists>ok m. ev = BinaryMessage ok m \<and> null_blocks m)"
  proof (cases ev)
    case (BinaryMessage ok m)
    then show ?thesis using h [of m ord ok] pid(1) by (cases "null_blocks m") (auto simp: loopRead_step_def)
  qed (simp_all add: loopRead_step_def Let_def)
  show "loopRead_step ord ev p S = Some (go, S') \<Longrightarrow> conn_ok S'"
  proof (cases ev)
    case (BinaryMessage ok m)
    moreover assume "loopRead_step ord ev p S = Some (go, S')"
    ultimately have "innerHandle ord ok m pid S = Some S'" using pid(1) by (auto simp: loopRead_step_def split: Option.bind_splits)
    then show ?thesis using h [of m ord ok] by (auto simp: ok_with_def split: if_splits)
  qed (use assms(1) leave_ok [OF assms(1), of p] net pid(1) in \<open>auto simp: loopRead_step_def Let_def\<close>)
qed

lemma peer_run_ok: "peer_run S \<Longrightarrow> conn_ok S"
proof (induction rule: peer_run.induct)
  case (start P nid nt port)
  then show ?case using table_ok_new [of nid nt port] by (simp add: conn_ok_def NewSyncer_def) (simp add: NewP2P_def)
next
  case (connected S p n ord S')
  have "table_ok n" using table_ok_addPeer [of "net S" p] connected by (simp add: conn_ok_def)
  moreover have "peers n = (peers (net S))(peerId p \<mapsto> p)" using connected.hyps(2) by (auto simp: addPeer_def split: option.splits if_splits)
  ultimately show ?case using connected by (auto simp: loopRead_start_def conn_ok_def peerConnected_def split: if_splits)
next
  case (reading S pid p ord ev go S')
  then show ?case using step_ok(2) by blast
next
  case (writing S pid p)
  define q where "q = snd (loopWrite_step p)"
  have "peerId p = pid" "\<not> peerClosed p" "length (writeCh p) \<le> writeChCap" "peerState p \<noteq> None"
    using writing by (auto simp: conn_ok_def table_ok_def)
  then have "peerId q = pid" "\<not> peerClosed q" "length (writeCh q) \<le> writeChCap" "peerState q \<noteq> None"
    by (auto simp: q_def loopWrite_step_def split: list.splits)
  then show ?case using writing unfolding q_def [symmetric] by (auto simp: conn_ok_def table_ok_def)
next
  case (dial S pid addr)
  then show ?case using table_ok_addDial [of "net S" pid addr] by (auto simp: conn_ok_def addDial_def split: if_splits)
next
  case (others S P)
  then show ?case by (simp add: conn_ok_def)
qed

lemma bestPeer_returns:
  assumes "conn_ok S" "set (ord (syPeers S)) = syPeers S"
  shows "bestPeer ord S \<noteq> None"
proof -
  have "bestPeerLoop is (net S) \<noteq> None" if "set is \<subseteq> syPeers S" for "is"
    using that
  proof (induction "is")
    case (Cons i "is")
    then obtain p where p: "peers (net S) i = Some p" using assms(1) by (auto simp: conn_ok_def)
    then have "peerState p \<noteq> None" using assms(1) by (auto simp: conn_ok_def)
    then show ?case using p Cons by (auto simp: GetState_def)
  qed simp
  then show ?thesis using assms(2) by (simp add: bestPeer_def)
qed

text \<open>
  C8. Which messages crash the goroutine that reads from a peer: in every run of connections,
  messages, dials and changes of the pool in which each handler runs to its end before another
  peer is closed, handling an event of a connected peer - unknown requests, garbled data, a
  closed connection, in any order - panics if and only if it is a message with a null among
  its blocks; and the search for the best peer never meets a peer that is gone or has no state.
  The handler ends when the blocks are in the pool: what insertion and verification do with
  them later is not part of the statement.
\<close>

theorem message_crash_iff:
  assumes "peer_run S"
  shows "(\<forall>pid p ev. peers (net S) pid = Some p \<longrightarrow>
      (loopRead_step ord ev p S = None \<longleftrightarrow> (\<exists>ok m. ev = BinaryMessage ok m \<and> null_blocks m))) \<and>
    (set (ord (syPeers S)) = syPeers S \<longrightarrow> bestPeer ord S \<noteq> None)"
  using step_ok(1) [OF peer_run_ok [OF assms]] bestPeer_returns [OF peer_run_ok [OF assms], of ord] by simp

section \<open>Witness\<close>

definition ex_joined :: syncer where
  "ex_joined = peerConnected ''B'' ((NewSyncer (NewP2P ''A'' 1 8080) (ex_pool ex0 Map.empty))\<lparr>net :=
     (NewP2P ''A'' 1 8080)\<lparr>peers := [''B'' \<mapsto> newPeer ''B'' ''A'' ''addr'' 0 (Some (sy_state 0 ''g''))]\<rparr>\<rparr>)"

theorem message_crash_iff_witness:
  "peer_run ex_joined \<and>
   loopRead_step sy_ord (BinaryMessage True (snapshotBlocksMsg [None])) (newPeer ''B'' ''A'' ''addr'' 0 (Some (sy_state 0 ''g''))) ex_joined = None \<and>
   loopRead_step sy_ord (BinaryMessage True (requestSnapshotHashMsg \<lparr>Hash = ''x'', Height = 7\<rparr> 3)) (newPeer ''B'' ''A'' ''addr'' 0 (Some (sy_state 0 ''g''))) ex_joined \<noteq> None"
proof -
  let ?p = "newPeer ''B'' ''A'' ''addr'' 0 (Some (sy_state 0 ''g'')) :: (handState, netMsg) peer"
  have n: "net (NewSyncer (NewP2P ''A'' 1 8080) (ex_pool ex0 Map.empty)) = NewP2P ''A'' 1 8080" by (simp add: NewSyncer_def)
  have r0: "peer_run (NewSyncer (NewP2P ''A'' 1 8080) (ex_pool ex0 Map.empty))" by (rule peer_run.start) simp
  have r: "peer_run ex_joined"
    by (rule peer_run.connected [OF r0, of ?p "(NewP2P ''A'' 1 8080)\<lparr>peers := [''B'' \<mapsto> ?p]\<rparr>" sy_ord])
      (simp_all add: n addPeer_def, simp_all add: NewP2P_def newPeer_def loopRead_start_def ex_joined_def)
  have "peers (net ex_joined) ''B'' = Some ?p" by (simp add: ex_joined_def peerConnected_def)
  then show ?thesis using message_crash_iff [OF r, of sy_ord] r by (auto simp: null_blocks_def)
qed

end
