(* ===== verification/Genesis.thy ===== *)
theory Genesis
  imports Chain_Invariant
begin

text \<open>
  The genesis blocks. \<open>chain/snapshot_chain.go\<close> writes the hash of the genesis snapshot block
  and the hashes of the two genesis account blocks as literals, while
  \<open>store/block_store.go\<close> computes the account blocks with \<open>tools/hashcal.go\<close>. Here the kernel
  evaluates SHA-256 on the texts that are hashed and finds the literals.
\<close>

section \<open>The genesis account blocks\<close>

lemma genesis_account_hashes:
  "map (\<lambda>a. (Addr a, Hash a)) genesisAccounts =
   map (\<lambda>a. (a, Thash (genesisAccountBlock a))) storeGenesisAccounts"
  by code_simp

section \<open>The genesis snapshot block\<close>

text \<open>The padded text of the genesis snapshot is three blocks of sixteen words.\<close>

definition genesis_words1 :: "u32 list" where
  "genesis_words1 =
     [0x31353333, 0x35353038, 0x37387669, 0x74657368, 0x616e3030, 0x37316365, 0x66396161, 0x38613637,
      0x64663130, 0x35356130, 0x38303165, 0x32666332, 0x35316665, 0x31346132, 0x39386238, 0x66633130]"

definition genesis_words2 :: "u32 list" where
  "genesis_words2 =
     [0x39386135, 0x34653237, 0x64623331, 0x66376137, 0x35653230, 0x76697465, 0x7368616e, 0x30633365,
      0x37616233, 0x31653438, 0x33346366, 0x31386466, 0x36373035, 0x62393663, 0x36353563, 0x38343564]"

definition genesis_words3 :: "u32 list" where
  "genesis_words3 =
     [0x62343466, 0x34656533, 0x31356336, 0x66626135, 0x32333262, 0x34663936, 0x35666366, 0x306a6965,
      0x80000000, 0x00000000, 0x00000000, 0x00000000, 0x00000000, 0x00000000, 0x00000000, 0x00000500]"

lemma genesis_text:
  "blockStr genesisSnapshot @ accStr (Accounts genesisSnapshot) =
     ''1533550878viteshan0071cef9aa8a67df1055a0801e2fc251fe14a298b8fc1098a54e27db31f7a75e20'' @
     ''viteshan0c3e7ab31e4834cf18df6705b96c655c845db44f4ee315c6fba5232b4f965fcf0jie''"
  by (simp add: blockStr_def genesisSnapshot_def genesisAccounts_def NewSnapshotBlock_def itoa_def utoa.simps digit_def char_of_def bit_0)

lemma genesis_padded:
  "sha_words (sha_pad (map of_char (blockStr genesisSnapshot @ accStr (Accounts genesisSnapshot)))) =
     genesis_words1 @ genesis_words2 @ genesis_words3"
  unfolding genesis_text by code_simp

lemma genesis_block1:
  "sha_block sha_init
     genesis_words1 =
       (0x522a0a8c, 0x615baf71, 0x0b34d5c7, 0xaebba1f2, 0xdd944ce2, 0x8ffa3b47, 0x1270b26a, 0xe9d55df4)"
  by code_simp

lemma genesis_block2:
  "sha_block (0x522a0a8c, 0x615baf71, 0x0b34d5c7, 0xaebba1f2, 0xdd944ce2, 0x8ffa3b47, 0x1270b26a, 0xe9d55df4)
     genesis_words2 =
       (0x045b555b, 0x007dd400, 0x07abd129, 0x2892cfe8, 0xc3e696cc, 0xd83e00ab, 0x19fffb8b, 0xb15a08e7)"
  by code_simp

lemma genesis_block3:
  "sha_block (0x045b555b, 0x007dd400, 0x07abd129, 0x2892cfe8, 0xc3e696cc, 0xd83e00ab, 0x19fffb8b, 0xb15a08e7)
     genesis_words3 =
       (0xb5a3ee58, 0xd163c283, 0xe5c8c0f6, 0x5ff5b26a, 0x5cd64cb9, 0xdce8119a, 0xc4581ebc, 0xb54626fd)"
  by code_simp

lemma genesis_words_length: "length genesis_words1 = 16" "length genesis_words2 = 16" "length genesis_words3 = 16"
  by (simp_all add: genesis_words1_def genesis_words2_def genesis_words3_def)

lemma genesis_snapshot_hash: "CalculateSnapshotHash genesisSnapshot = Thash genesisSnapshot"
proof -
  have "CalculateSnapshotHash genesisSnapshot = hex_state (sha_blocks sha_init (genesis_words1 @ genesis_words2 @ genesis_words3 @ []))"
    unfolding CalculateSnapshotHash_def calculateHash_def sha256_hex_def genesis_padded append_Nil2 ..
  also have "\<dots> = Thash genesisSnapshot"
    unfolding genesis_words_length [THEN sha_blocks_append] genesis_block1 genesis_block2 genesis_block3 sha_blocks_Nil
    by code_simp
  finally show ?thesis .
qed

section \<open>The initial chain\<close>

lemma genesisAccountBlock_hash: "CalculateAccountHash (genesisAccountBlock a) = Thash (genesisAccountBlock a)"
  by (simp add: genesisAccountBlock_def Let_def) (simp add: SetHash_def)

text \<open>C39. The hashes that the source writes as literals are right: the new chain starts with the
  genesis snapshot block as its head, the SHA-256 hash of that block is the literal it carries,
  and for each account it lists, the store holds at the listed height a block whose computed
  hash is the listed literal.\<close>

theorem genesis_hashes_consistent:
  "\<exists>bc g. NewChain = Some bc \<and> HeadSnapshot bc = Some g \<and> CalculateSnapshotHash g = Thash g \<and>
     map (\<lambda>a. map_option (\<lambda>b. (Thash b, CalculateAccountHash b))
                (GetAccountByHeight (store bc) (Addr a) (Height a))) (Accounts g) =
     map (\<lambda>a. Some (Hash a, Hash a)) (Accounts g)"
proof -
  obtain bc where bc: "NewChain = Some bc" "HeadSnapshot bc = Some genesisSnapshot"
    "\<And>x h. GetAccountByHeight (store bc) x h =
       (if x \<in> {''viteshan'', ''jie''} \<and> h = 0 then Some (genesisAccountBlock x) else None)"
    by (rule that [OF NewChain_eq]) (auto simp: HeadSnapshot_def NewMemoryStore_heads)
  have "map (\<lambda>a. map_option (\<lambda>b. (Thash b, CalculateAccountHash b))
                (GetAccountByHeight (store bc) (Addr a) (Height a))) genesisAccounts =
        map (\<lambda>a. Some (Hash a, Hash a)) genesisAccounts"
    using genesis_account_hashes
    by (simp add: bc(3) genesisAccounts_def storeGenesisAccounts_def genesisAccountBlock_hash)
  then show ?thesis
    using bc genesis_snapshot_hash by (intro exI [of _ bc] exI [of _ genesisSnapshot]) simp
qed

end
