(* ===== verification/Pool_Workers.thy ===== *)
theory Pool_Workers
  imports Main
begin

text \<open>
  The goroutines of the node's pool, \<open>pool/pool.go\<close> and \<open>pool/snapshot_pool.go\<close>: how \<open>Start\<close> spawns
  them, when they make a round, how they end, and how \<open>Stop\<close> waits for them with two wait groups.
  What a round does is modelled elsewhere (\<open>accountsTryInsert\<close>, \<open>accountsCompact\<close>, \<open>checkFork\<close> and
  \<open>snapshotRound\<close> in theory \<open>Pool_Top\<close>); here the rounds are only counted.
\<close>

section \<open>State\<close>

text \<open>The two goroutines of the snapshot pool and the two of the pool.\<close>

datatype pool_worker = SnapshotLoop | CheckForkLoop | TryInsertLoop | CompactLoop

datatype worker_state = Unborn | Spawned | Running | Finished

text \<open>\<open>Stop\<close> first stops the snapshot pool and waits for it, then closes its own channel and waits.\<close>

datatype stop_state = NotCalled | WaitSnapshotPool | WaitPool | HasReturned

record workers =
  wState :: "pool_worker \<Rightarrow> worker_state"
  scClosed :: bool
  plClosed :: bool
  scWg :: int
  plWg :: int
  stopping :: stop_state
  rounds :: "pool_worker list"

definition newWorkers :: workers where
  "newWorkers = \<lparr>wState = (\<lambda>_. Unborn), scClosed = False, plClosed = False, scWg = 0, plWg = 0,
     stopping = NotCalled, rounds = []\<rparr>"

fun of_snapshotPool :: "pool_worker \<Rightarrow> bool" where
  "of_snapshotPool SnapshotLoop = True"
| "of_snapshotPool CheckForkLoop = True"
| "of_snapshotPool _ = False"

section \<open>Operations\<close>

text \<open>\<open>snapshotPool.Start\<close> adds to its wait group before it spawns each goroutine.\<close>

definition Start_sc :: "workers \<Rightarrow> workers" where
  "Start_sc p = p\<lparr>scWg := scWg p + 2,
     wState := (wState p)(SnapshotLoop := Spawned, CheckForkLoop := Spawned)\<rparr>"

text \<open>\<open>pool.Start\<close> only spawns; its goroutines add to the wait group when they begin.\<close>

definition Start_workers :: "workers \<Rightarrow> workers" where
  "Start_workers p =
     (let p = Start_sc p
      in p\<lparr>wState := (wState p)(TryInsertLoop := Spawned, CompactLoop := Spawned)\<rparr>)"

definition begin_worker :: "pool_worker \<Rightarrow> workers \<Rightarrow> workers" where
  "begin_worker w p =
     (let p = p\<lparr>wState := (wState p)(w := Running)\<rparr>
      in if of_snapshotPool w then p else p\<lparr>plWg := plWg p + 1\<rparr>)"

text \<open>
  The select statements: the loops of the snapshot pool make a round only while the channel is
  open; those of the pool have a ticker as well, and when both the ticker and the closed channel
  are ready either case may be chosen.
\<close>

definition may_round :: "pool_worker \<Rightarrow> bool \<Rightarrow> workers \<Rightarrow> bool" where
  "may_round w tick p \<longleftrightarrow> (if of_snapshotPool w then \<not> scClosed p else \<not> plClosed p \<or> tick)"

definition may_end :: "pool_worker \<Rightarrow> workers \<Rightarrow> bool" where
  "may_end w p \<longleftrightarrow> (if of_snapshotPool w then scClosed p else plClosed p)"

definition end_worker :: "pool_worker \<Rightarrow> workers \<Rightarrow> workers" where
  "end_worker w p =
     (let p = p\<lparr>wState := (wState p)(w := Finished)\<rparr>
      in if of_snapshotPool w then p\<lparr>scWg := scWg p - 1\<rparr> else p\<lparr>plWg := plWg p - 1\<rparr>)"

text \<open>The three parts of \<open>pool.Stop\<close>, which end at the two waits and at the return.\<close>

definition stop_call :: "workers \<Rightarrow> workers" where
  "stop_call p = p\<lparr>scClosed := True, stopping := WaitSnapshotPool\<rparr>"

definition stop_snapshotPool_done :: "workers \<Rightarrow> workers" where
  "stop_snapshotPool_done p = p\<lparr>plClosed := True, stopping := WaitPool\<rparr>"

definition stop_return :: "workers \<Rightarrow> workers" where
  "stop_return p = p\<lparr>stopping := HasReturned\<rparr>"

inductive pool_step :: "workers \<Rightarrow> workers \<Rightarrow> bool" where
  begins: "wState p w = Spawned \<Longrightarrow> pool_step p (begin_worker w p)"
| works: "wState p w = Running \<Longrightarrow> may_round w tick p \<Longrightarrow> pool_step p (p\<lparr>rounds := w # rounds p\<rparr>)"
| ends: "wState p w = Running \<Longrightarrow> may_end w p \<Longrightarrow> pool_step p (end_worker w p)"
| stop: "stopping p = NotCalled \<Longrightarrow> pool_step p (stop_call p)"
| stopped_sc: "stopping p = WaitSnapshotPool \<Longrightarrow> scWg p = 0 \<Longrightarrow> pool_step p (stop_snapshotPool_done p)"
| returns: "stopping p = WaitPool \<Longrightarrow> plWg p = 0 \<Longrightarrow> pool_step p (stop_return p)"

inductive pool_run :: "workers \<Rightarrow> bool" where
  started: "pool_run (Start_workers newWorkers)"
| step: "pool_run p \<Longrightarrow> pool_step p q \<Longrightarrow> pool_run q"

lemmas worker_defs = begin_worker_def end_worker_def may_round_def may_end_def stop_call_def
  stop_snapshotPool_done_def stop_return_def Let_def

section \<open>The wait groups count the goroutines\<close>

definition live :: "worker_state \<Rightarrow> int" where
  "live s = (if s = Finished then 0 else 1)"

definition running :: "worker_state \<Rightarrow> int" where
  "running s = (if s = Running then 1 else 0)"

definition workers_ok :: "workers \<Rightarrow> bool" where
  "workers_ok p \<longleftrightarrow>
     scWg p = live (wState p SnapshotLoop) + live (wState p CheckForkLoop) \<and>
     plWg p = running (wState p TryInsertLoop) + running (wState p CompactLoop) \<and>
     (scClosed p \<longleftrightarrow> stopping p \<noteq> NotCalled) \<and> (plClosed p \<longleftrightarrow> stopping p \<in> {WaitPool, HasReturned}) \<and>
     (stopping p \<in> {WaitPool, HasReturned} \<longrightarrow> wState p SnapshotLoop = Finished \<and> wState p CheckForkLoop = Finished)"

lemma workers_ok_step: "pool_step p q \<Longrightarrow> workers_ok p \<Longrightarrow> workers_ok q"
proof (induction rule: pool_step.induct)
  case (begins p w)
  then show ?case by (cases w) (auto simp: workers_ok_def worker_defs live_def running_def)
next
  case (ends p w)
  then show ?case by (cases w) (auto simp: workers_ok_def worker_defs live_def running_def)
qed (auto simp: workers_ok_def worker_defs live_def running_def split: if_splits)

lemma pool_run_ok: "pool_run p \<Longrightarrow> workers_ok p"
proof (induction rule: pool_run.induct)
  case started
  show ?case by (simp add: workers_ok_def Start_workers_def Start_sc_def newWorkers_def live_def running_def Let_def)
next
  case (step p q)
  then show ?case using workers_ok_step by blast
qed

section \<open>What stopping guarantees\<close>

text \<open>When \<open>Stop\<close> has returned, the goroutines of the snapshot pool have ended.\<close>

theorem stop_ends_snapshotPool:
  "pool_run p \<Longrightarrow> stopping p = HasReturned \<Longrightarrow> wState p SnapshotLoop = Finished \<and> wState p CheckForkLoop = Finished"
  using pool_run_ok [of p] by (simp add: workers_ok_def)

text \<open>\<open>Stop\<close> is never stuck: as long as it has not returned, it can go on itself or one of the goroutines
  it waits for can begin or end, and there are only finitely many such steps to make.\<close>

definition remaining :: "worker_state \<Rightarrow> nat" where
  "remaining s = (case s of Spawned \<Rightarrow> 2 | Running \<Rightarrow> 1 | _ \<Rightarrow> 0)"

definition stop_measure :: "workers \<Rightarrow> nat" where
  "stop_measure p = (case stopping p of WaitSnapshotPool \<Rightarrow> 2 | WaitPool \<Rightarrow> 1 | _ \<Rightarrow> 0) +
     (\<Sum>w\<leftarrow>[SnapshotLoop, CheckForkLoop, TryInsertLoop, CompactLoop]. remaining (wState p w))"

lemma workers_born: "pool_run p \<Longrightarrow> wState p w \<noteq> Unborn"
proof (induction rule: pool_run.induct)
  case started
  then show ?case by (cases w) (simp_all add: Start_workers_def Start_sc_def Let_def)
next
  case (step p q)
  from step.hyps(2) step.IH show ?case by cases (auto simp: worker_defs)
qed

theorem stop_progresses:
  assumes "pool_run p" "stopping p \<in> {WaitSnapshotPool, WaitPool}"
  shows "\<exists>q. pool_step p q \<and> stop_measure q < stop_measure p"
proof -
  have ok: "workers_ok p" using pool_run_ok assms(1) by blast
  consider w where "wState p w = Spawned" | w where "wState p w = Running" "may_end w p"
    | "stopping p = WaitSnapshotPool" "scWg p = 0" | "stopping p = WaitPool" "plWg p = 0"
    using ok assms(2) workers_born [OF assms(1), of SnapshotLoop] workers_born [OF assms(1), of CheckForkLoop]
    by (cases "wState p SnapshotLoop"; cases "wState p CheckForkLoop"; cases "wState p TryInsertLoop"; cases "wState p CompactLoop")
       (force simp: workers_ok_def live_def running_def may_end_def)+
  then show ?thesis
  proof cases
    case (1 w)
    have "stop_measure (begin_worker w p) < stop_measure p"
      using 1 by (cases w) (simp_all add: stop_measure_def remaining_def worker_defs)
    then show ?thesis using pool_step.begins [OF 1] by blast
  next
    case (2 w)
    have "stop_measure (end_worker w p) < stop_measure p"
      using 2 by (cases w) (simp_all add: stop_measure_def remaining_def worker_defs)
    then show ?thesis using pool_step.ends [OF 2] by blast
  next
    case 3
    then show ?thesis using pool_step.stopped_sc [OF 3] by (auto simp: stop_measure_def worker_defs)
  next
    case 4
    then show ?thesis using pool_step.returns [OF 4] by (auto simp: stop_measure_def worker_defs)
  qed
qed

text \<open>
  But the goroutines of the pool add to the wait group only when they begin: \<open>Stop\<close> may return
  before one of them has begun, which then begins and, if its ticker is ready, still makes a round.
\<close>

definition hasty_stop :: workers where
  "hasty_stop = stop_return (stop_snapshotPool_done (end_worker SnapshotLoop (end_worker CheckForkLoop
     (stop_call (begin_worker SnapshotLoop (begin_worker CheckForkLoop (Start_workers newWorkers)))))))"

lemma round_after_stop:
  "\<exists>p q. pool_run p \<and> stopping p = HasReturned \<and> TryInsertLoop \<notin> set (rounds p) \<and>
     pool_run q \<and> stopping q = HasReturned \<and> TryInsertLoop \<in> set (rounds q)"
proof -
  let ?p0 = "Start_workers newWorkers"
  let ?p1 = "begin_worker SnapshotLoop (begin_worker CheckForkLoop ?p0)"
  let ?p2 = "end_worker SnapshotLoop (end_worker CheckForkLoop (stop_call ?p1))"
  let ?q = "begin_worker TryInsertLoop hasty_stop"
  note s = worker_defs Start_workers_def Start_sc_def newWorkers_def
  have "pool_run (begin_worker CheckForkLoop ?p0)" by (rule pool_run.step [OF pool_run.started pool_step.begins]) (simp add: s)
  then have "pool_run ?p1" by (rule pool_run.step [OF _ pool_step.begins]) (simp add: s)
  then have "pool_run (stop_call ?p1)" by (rule pool_run.step [OF _ pool_step.stop]) (simp add: s)
  then have "pool_run (end_worker CheckForkLoop (stop_call ?p1))" by (rule pool_run.step [OF _ pool_step.ends]) (simp_all add: s)
  then have "pool_run ?p2" by (rule pool_run.step [OF _ pool_step.ends]) (simp_all add: s)
  then have "pool_run (stop_snapshotPool_done ?p2)" by (rule pool_run.step [OF _ pool_step.stopped_sc]) (simp_all add: s)
  then have p: "pool_run hasty_stop"
    unfolding hasty_stop_def by (rule pool_run.step [OF _ pool_step.returns]) (simp_all add: s)
  have st: "stopping hasty_stop = HasReturned" "TryInsertLoop \<notin> set (rounds hasty_stop)" "wState hasty_stop TryInsertLoop = Spawned"
    by (simp_all add: hasty_stop_def s)
  have q: "pool_run ?q" by (rule pool_run.step [OF p pool_step.begins]) (rule st(3))
  have "pool_run (?q\<lparr>rounds := TryInsertLoop # rounds ?q\<rparr>)"
    by (rule pool_run.step [OF q pool_step.works [where tick = True]]) (simp_all add: begin_worker_def may_round_def Let_def)
  then show ?thesis
    using p st by (intro exI [of _ hasty_stop] exI [of _ "?q\<lparr>rounds := TryInsertLoop # rounds ?q\<rparr>"])
      (simp add: begin_worker_def Let_def)
qed

end
