(* ===== verification/Profile.thy ===== *)
theory Profile
  imports Ledger_Transfer Node
begin

text \<open>
  The profiling driver, \<open>cmd/profile/profile.go\<close>: it starts a node, spreads coins from the two
  genesis accounts over four accounts, and then keeps sending single coins around and receiving
  them. The number of members of the consensus comes from another repository and is an argument.
  The goroutines are their rounds; the waits between them are left out.
\<close>

section \<open>Definitions\<close>

definition profileNode :: "lifecycle \<Rightarrow> int \<Rightarrow> int \<Rightarrow> string \<Rightarrow> int \<Rightarrow> string \<Rightarrow> node option" where
  "profileNode life memCnt now bootAddr port nid =
     do {
       N0 \<leftarrow> NewNode life \<lparr>cfgNodeId = nid, cfgPort = port, cfgNetId = 0, cfgLinkBootAddr = bootAddr, cfgInterval = 1,
               cfgMemCnt = memCnt, cfgEnabled = False, cfgHexCoinbase = ''''\<rparr> now;
       N1 \<leftarrow> Init_node N0;
       Start_node N1
     }"

text \<open>The sends of one of the two loops at the beginning, which the first error ends.\<close>

fun requestAll :: "string \<Rightarrow> int \<Rightarrow> string list \<Rightarrow> ledger \<Rightarrow> (err \<times> ledger) option" where
  "requestAll from amount [] L = Some (None, L)"
| "requestAll from amount (addr # addrs) L =
     do {
       (e, L1) \<leftarrow> RequestAccountBlock from addr amount L;
       if e \<noteq> None then Some (e, L1) else requestAll from amount addrs L1
     }"

definition profileAddrs :: "string list" where
  "profileAddrs = map (\<lambda>i. ''jie'' @ itoa i) [0, 1, 2, 3]"

text \<open>What \<open>main\<close> does before it starts its goroutines; the result says whether it goes on to do so.\<close>

definition profile_seed :: "ledger \<Rightarrow> (bool \<times> ledger) option" where
  "profile_seed L =
     (let (balance, L) = GetAccountBalance ''jie'' L
      in if balance \<noteq> 200 then Some (False, L)
         else let (balance, L) = GetAccountBalance ''viteshan'' L
              in if balance \<noteq> 200 then Some (False, L)
                 else do {
                   (e, L) \<leftarrow> requestAll ''jie'' (-30) profileAddrs L;
                   if e \<noteq> None then Some (False, L)
                   else do {
                     (e, L) \<leftarrow> requestAll ''viteshan'' (-30) profileAddrs L;
                     Some (e = None, L)
                   }
                 })"

text \<open>The sender and the receiver of each sending goroutine: a ring.\<close>

definition profilePairs :: "(string \<times> string) list" where
  "profilePairs = map (\<lambda>i. (''jie'' @ itoa i, if i = 0 then ''jie'' @ itoa (4 - 1) else ''jie'' @ itoa (i - 1))) [0, 1, 2, 3]"

text \<open>A round of a sending goroutine: all coins but one, one by one; errors are only logged.\<close>

fun sendOnes :: "nat \<Rightarrow> string \<Rightarrow> string \<Rightarrow> ledger \<Rightarrow> ledger option" where
  "sendOnes 0 from to L = Some L"
| "sendOnes (Suc j) from to L = do { (e, L1) \<leftarrow> RequestAccountBlock from to (-1) L; sendOnes j from to L1 }"

definition send_round :: "string \<Rightarrow> string \<Rightarrow> ledger \<Rightarrow> ledger option" where
  "send_round from to L =
     (let (balance, L) = GetAccountBalance from L
      in if balance > 1 then sendOnes (nat (balance - 1)) from to L else Some L)"

text \<open>A round of a receiving goroutine.\<close>

fun respondAll :: "string \<Rightarrow> Req list \<Rightarrow> ledger \<Rightarrow> ledger option" where
  "respondAll addr [] L = Some L"
| "respondAll addr (r # rs) L = do { (e, L1) \<leftarrow> ResponseAccountBlock (reqFrom r) addr (ReqHash r) L; respondAll addr rs L1 }"

definition receive_round :: "string \<Rightarrow> string list \<Rightarrow> ledger \<Rightarrow> ledger option" where
  "receive_round addr order L = respondAll addr (ListRequest addr order L) L"

section \<open>Sends in a row\<close>

lemma insertNotify_current: "insertNotify head cp = Some cp1 \<Longrightarrow> chains cp1 (current cp1) \<noteq> None"
  by (auto simp: insertNotify_def currentModify_cp_def Let_def bind_eq_Some_conv split: if_splits prod.splits)

lemma AddDirectAccountBlock_current:
  assumes "AddDirectAccountBlock a b S = Some (None, S')"
  shows "\<forall>p. pendingAc S' a = Some p \<longrightarrow> currentOf p \<noteq> None"
proof -
  obtain p S1 bc cp where r: "AddDirectBlock (accountCh a (pVer S1))
      (\<lambda>b bc. do { (stat, bc1) \<leftarrow> VerifyReferred_ac (pVer S1) (pClock S1) b bc; Some (VerifyResult_ac stat, errMsg stat, bc1) })
      (pVer S1) b (pBc S1) (chainpool (apPool p)) = Some (None, bc, cp)"
    "S' = setAc a (p\<lparr>apPool := (apPool p)\<lparr>chainpool := cp\<rparr>\<rparr>) (S1\<lparr>pBc := bc\<rparr>)"
    using assms by (auto simp: AddDirectAccountBlock_def Let_def bind_eq_Some_conv)
  from r(1) obtain head where "insertNotify head (chainpool (apPool p)) = Some cp"
    by (auto simp: AddDirectBlock_def bind_eq_Some_conv split: VerifyResult.splits if_splits)
       (metis VerifyResult.exhaust)
  then have "chains cp (current cp) \<noteq> None" by (rule insertNotify_current)
  then show ?thesis using r(2) by (simp add: setAc_def currentOf_def)
qed

text \<open>An account that can send from its balance \<open>k\<close>.\<close>

definition may_send :: "string \<Rightarrow> int \<Rightarrow> ledger \<Rightarrow> bool" where
  "may_send a k L \<longleftrightarrow> chain_inv (pBc (bpool L)) \<and> a \<noteq> snapshotHeadKey \<and> k < 2 ^ 63 \<and>
     (\<exists>prev sn. acHead (acOf (pBc (bpool L)) a) = Some prev \<and> HeadSnapshot (pBc (bpool L)) = Some sn \<and>
        SnapshotHeight prev \<le> Theight sn \<and> Amount prev = k) \<and>
     (\<forall>p. pendingAc (bpool L) a = Some p \<longrightarrow> currentOf p \<noteq> None)"

lemma may_send_balance: "may_send a k L \<Longrightarrow> fst (GetAccountBalance a L) = k"
  by (auto simp: may_send_def GetAccountBalance_def HeadAccount_def)

lemma RequestAccountBlock_current:
  "RequestAccountBlock fro to amount L = Some (None, L') \<Longrightarrow> \<forall>p. pendingAc (bpool L') fro = Some p \<longrightarrow> currentOf p \<noteq> None"
  using AddDirectAccountBlock_current
  by (fastforce simp: RequestAccountBlock_def bind_eq_Some_conv Let_def split: prod.splits if_splits)

lemma send_step:
  assumes "may_send a k L" "to \<noteq> snapshotHeadKey" "0 \<le> n" "n < k"
  shows "\<exists>L'. RequestAccountBlock a to (- n) L = Some (None, L') \<and> may_send a (k - n) L' \<and>
    (\<forall>x j. x \<noteq> a \<longrightarrow> may_send x j L \<longrightarrow> may_send x j L')"
proof -
  obtain prev sn where h: "acHead (acOf (pBc (bpool L)) a) = Some prev" "HeadSnapshot (pBc (bpool L)) = Some sn"
    "SnapshotHeight prev \<le> Theight sn" "Amount prev = k"
    using assms(1) unfolding may_send_def by blast
  have i: "chain_inv (pBc (bpool L))" "a \<noteq> snapshotHeadKey" "\<forall>p. pendingAc (bpool L) a = Some p \<longrightarrow> currentOf p \<noteq> None" "k < 2 ^ 63"
    using assms(1) unfolding may_send_def by blast+
  have am: "n < Amount prev" "Amount prev < 2 ^ 63" using assms(4) h(4) i(4) by simp_all
  define b where "b = sendBlock (Some prev) sn (clockSec L) a to (- n)"
  note bs = sendBlock_simps [OF assms(3) am, of sn "clockSec L" a to, folded b_def]
  obtain L' bc where L': "RequestAccountBlock a to (- n) L = Some (None, L')"
    "same_chain (pBc (bpool L)) bc" "InsertAccountBlock a b bc = Some (None, pBc (bpool L'))"
    "\<forall>x. x \<noteq> a \<longrightarrow> pendingAc (bpool L') x = pendingAc (bpool L) x"
    using RequestAccountBlock_holds [OF i(1,2) assms(2) h(1-3) assms(3) am i(3), folded b_def] by (elim exE conjE) (rule that)
  have "extends (acHead (acOf (pBc (bpool L)) a)) b" using bs(1,2) h(1) by (simp add: extends_def)
  note ins = after_insert [OF i(1) L'(2) i(2) this L'(3)]
  have "may_send a (k - n) L'"
    unfolding may_send_def using ins(1,2,5) i(2,4) h(2,4) bs(4,6) assms(3) RequestAccountBlock_current [OF L'(1)] by simp
  moreover have "may_send x j L'" if "x \<noteq> a" "may_send x j L" for x j
    using that ins(1,2) ins(7) [OF that(1)] L'(4) by (simp add: may_send_def)
  ultimately show ?thesis using L'(1) by blast
qed

lemma requestAll_holds:
  assumes "may_send a k L" "snapshotHeadKey \<notin> set addrs" "0 \<le> n" "n * int (length addrs) < k"
  shows "\<exists>L'. requestAll a (- n) addrs L = Some (None, L') \<and> may_send a (k - n * int (length addrs)) L' \<and>
    (\<forall>x j. x \<noteq> a \<longrightarrow> may_send x j L \<longrightarrow> may_send x j L')"
  using assms(1,2,4)
proof (induction addrs arbitrary: k L)
  case (Cons addr addrs)
  have "0 \<le> n * int (length addrs)" using assms(3) by simp
  then have n: "n < k" "n * int (length addrs) < k - n" using Cons.prems(3) by (simp_all add: algebra_simps)
  obtain L1 where L1: "RequestAccountBlock a addr (- n) L = Some (None, L1)" "may_send a (k - n) L1"
    "\<forall>x j. x \<noteq> a \<longrightarrow> may_send x j L \<longrightarrow> may_send x j L1"
    using send_step [OF Cons.prems(1) _ assms(3) n(1), of addr] Cons.prems(2) by auto
  obtain L2 where "requestAll a (- n) addrs L1 = Some (None, L2)" "may_send a (k - n - n * int (length addrs)) L2"
    "\<forall>x j. x \<noteq> a \<longrightarrow> may_send x j L1 \<longrightarrow> may_send x j L2"
    using Cons.IH [OF L1(2) _ n(2)] Cons.prems(2) by auto
  then show ?case using L1 by (intro exI [of _ L2]) (simp add: algebra_simps)
qed auto

lemma sendOnes_holds:
  assumes "may_send a k L" "to \<noteq> snapshotHeadKey" "int j < k"
  shows "\<exists>L'. sendOnes j a to L = Some L' \<and> may_send a (k - int j) L'"
  using assms(1,3)
proof (induction j arbitrary: k L)
  case (Suc j)
  obtain L1 where "RequestAccountBlock a to (- 1) L = Some (None, L1)" "may_send a (k - 1) L1"
    using send_step [OF Suc.prems(1) assms(2), of 1] Suc.prems(2) by auto
  then show ?case using Suc.IH [of "k - 1" L1] Suc.prems(2) by (auto simp: algebra_simps)
qed auto

section \<open>What the driver does\<close>

text \<open>The state of the ledger does not change when a balance is read, as far as sending goes.\<close>

lemma may_send_read: "may_send a k (snd (GetAccountBalance x L)) \<longleftrightarrow> may_send a k L"
proof -
  let ?bc = "pBc (bpool L)"
  have s: "same_chain ?bc (touch ?bc x)" by simp
  have "chain_inv (touch ?bc x) \<longleftrightarrow> chain_inv ?bc"
    using chain_inv_same [OF s] chain_inv_same [of "touch ?bc x" ?bc] s same_chain_sym by blast
  then show ?thesis using same_chainD(2,3) [OF s] by (simp add: may_send_def GetAccountBalance_def HeadAccount_def)
qed

text \<open>
  On a ledger where the two genesis accounts have their 200 coins, the driver sends eight times 30
  without an error and leaves both with 80.
\<close>

theorem profile_seed_spreads:
  assumes "may_send ''jie'' 200 L" "may_send ''viteshan'' 200 L"
  shows "\<exists>L'. profile_seed L = Some (True, L') \<and> fst (GetAccountBalance ''jie'' L') = 80 \<and> fst (GetAccountBalance ''viteshan'' L') = 80"
proof -
  define L1 where "L1 = snd (GetAccountBalance ''viteshan'' (snd (GetAccountBalance ''jie'' L)))"
  have m: "may_send ''jie'' 200 L1" "may_send ''viteshan'' 200 L1" using assms by (simp_all add: L1_def may_send_read)
  have a: "snapshotHeadKey \<notin> set profileAddrs" "length profileAddrs = 4"
    by (simp_all add: profileAddrs_def snapshotHeadKey_def)
  obtain L2 where L2: "requestAll ''jie'' (-30) profileAddrs L1 = Some (None, L2)" "may_send ''jie'' 80 L2" "may_send ''viteshan'' 200 L2"
    using requestAll_holds [OF m(1) a(1), of 30] m(2) a(2) by auto
  obtain L3 where L3: "requestAll ''viteshan'' (-30) profileAddrs L2 = Some (None, L3)" "may_send ''viteshan'' 80 L3" "may_send ''jie'' 80 L3"
    using requestAll_holds [OF L2(3) a(1), of 30] L2(2) a(2) by auto
  have "profile_seed L = Some (True, L3)"
    using may_send_balance [OF assms(1)] may_send_balance [of "''viteshan''" 200 "snd (GetAccountBalance ''jie'' L)"] assms(2) L2(1) L3(1)
    by (simp add: profile_seed_def Let_def split_beta may_send_read L1_def)
  then show ?thesis using may_send_balance L3(2,3) by blast
qed

text \<open>A round of sending leaves exactly one coin, if there was one.\<close>

theorem send_round_leaves_one:
  assumes "may_send a k L" "to \<noteq> snapshotHeadKey" "1 \<le> k"
  shows "\<exists>L'. send_round a to L = Some L' \<and> fst (GetAccountBalance a L') = 1"
proof (cases "1 < k")
  case True
  have m: "may_send a k (snd (GetAccountBalance a L))" using assms(1) by (simp add: may_send_read)
  obtain L' where "sendOnes (nat (k - 1)) a to (snd (GetAccountBalance a L)) = Some L'" "may_send a 1 L'"
    using sendOnes_holds [OF m assms(2), of "nat (k - 1)"] True by auto
  then show ?thesis using True may_send_balance [OF assms(1)] may_send_balance [of a 1 L']
    by (simp add: send_round_def Let_def split_beta)
next
  case False
  then have "k = 1" using assms(3) by simp
  moreover have "may_send a k (snd (GetAccountBalance a L))" using assms(1) by (simp add: may_send_read)
  ultimately show ?thesis using may_send_balance [OF assms(1)] may_send_balance
    by (simp add: send_round_def Let_def split_beta)
qed

text \<open>Every account of the driver sends to another one of them, and each is sent to by exactly one.\<close>

lemma profilePairs_ring:
  "map fst profilePairs = profileAddrs" "set (map snd profilePairs) = set profileAddrs" "distinct (map snd profilePairs)" "\<forall>(a, b)\<in>set profilePairs. a \<noteq> b"
  by (auto simp: profilePairs_def profileAddrs_def)

text \<open>The hypotheses hold for the ledger of a new chain.\<close>

lemma ex_may_send: "may_send ''jie'' 200 (ex_ledger ex_new)" "may_send ''viteshan'' 200 (ex_ledger ex_new)"
  using ex_new_inv by (auto simp: may_send_def ex_ledger_def ex_new_head ex0_head snapshotHeadKey_def)

theorem profile_seed_spreads_witness:
  "\<exists>L'. profile_seed (ex_ledger ex_new) = Some (True, L') \<and> fst (GetAccountBalance ''jie'' L') = 80"
  using profile_seed_spreads [OF ex_may_send] by blast

end
