(* ===== verification/Prototype.thy ===== *)
theory Prototype
  imports Sha256 Go_Text "HOL-Library.AList"
begin

text \<open>
  The first version of the program, \<open>examples/v0_1.go\<close>: one process that holds the account chains,
  the snapshot chain and the connected nodes in global variables, and the functions that change
  them. A map that the code ranges over is an association list with distinct keys, the others are
  maps; a missing key reads as the zero value. The current time is an argument, as text. The
  result \<^const>\<open>None\<close> is a panic, or a loop that does not end where the loop is a
  \<open>partial_function\<close>.

  The goroutines and the channels between them are in theory \<open>Prototype_System\<close>. Names that the
  later program also has carry the suffix \<open>_v1\<close>.
\<close>

section \<open>Data\<close>

record Tx =
  TxType :: int
  AccountNonce :: int
  txAmount :: int
  txFrom :: string
  txTo :: string
  txHash :: string
  txSource :: string
  txSigner :: string

record AccountStateBlock_v1 =
  abNonce :: int
  abTimestamp :: string
  abAmount :: int
  abHash :: string
  abPreHash :: string
  abSigner :: string
  abSnapshotHeight :: int
  abSnapshotHash :: string
  abTx :: "Tx option"

record SnapshotBlock_v1 =
  sbHeight :: int
  sbTimestamp :: string
  sbPreHash :: string
  sbSigner :: string
  sbAccountsHash :: string
  sbHash :: string

text \<open>A node and the identity of its channel.\<close>

record Node_v1 =
  nodeAddress :: string
  receivedTxChan :: nat

type_synonym blockDB = "string \<rightharpoonup> AccountStateBlock_v1"

record globals =
  accountStateBlockChain :: "(string \<times> AccountStateBlock_v1) list"
  snapshotBlockChain :: SnapshotBlock_v1
  txDB :: "string \<rightharpoonup> Tx"
  stateBlockDB :: blockDB
  nodes :: "(string \<times> Node_v1) list"
  snapshotAccountMap :: "string \<rightharpoonup> (string \<times> string) list"
  snapshotDB :: "string \<rightharpoonup> SnapshotBlock_v1"
  stateSnapshotMap :: "string \<Rightarrow> bool"
  nextChan :: nat
  closedChans :: "nat list"

definition zeroBlock :: AccountStateBlock_v1 where
  "zeroBlock = \<lparr>abNonce = 0, abTimestamp = '''', abAmount = 0, abHash = '''', abPreHash = '''',
     abSigner = '''', abSnapshotHeight = 0, abSnapshotHash = '''', abTx = None\<rparr>"

definition zeroSnapshot :: SnapshotBlock_v1 where
  "zeroSnapshot = \<lparr>sbHeight = 0, sbTimestamp = '''', sbPreHash = '''', sbSigner = '''',
     sbAccountsHash = '''', sbHash = ''''\<rparr>"

definition initGlobals :: globals where
  "initGlobals = \<lparr>accountStateBlockChain = [], snapshotBlockChain = zeroSnapshot,
     txDB = Map.empty, stateBlockDB = Map.empty, nodes = [], snapshotAccountMap = Map.empty,
     snapshotDB = Map.empty, stateSnapshotMap = (\<lambda>_. False), nextChan = 0, closedChans = []\<rparr>"

section \<open>Hashes\<close>

definition calculateHash_v1 :: "string \<Rightarrow> string" where
  "calculateHash_v1 s = sha256_hex s"

definition calculateTxHash :: "Tx \<Rightarrow> string" where
  "calculateTxHash tx =
     calculateHash_v1 (string_of_int (txAmount tx) @ string_of_int (AccountNonce tx) @
       txFrom tx @ txTo tx @ txSource tx @ txSigner tx)"

definition calculateAccountBlockHash :: "AccountStateBlock_v1 \<Rightarrow> string" where
  "calculateAccountBlockHash b =
     (let record = string_of_int (abNonce b) @ abTimestamp b @ string_of_int (abAmount b) @
            abPreHash b @ abSigner b @ abSnapshotHash b @ string_of_int (abSnapshotHeight b)
      in case abTx b of
           None \<Rightarrow> calculateHash_v1 record
         | Some tx \<Rightarrow> calculateHash_v1 (record @ txHash tx))"

definition calculateSnapshotHash_v1 :: "SnapshotBlock_v1 \<Rightarrow> string" where
  "calculateSnapshotHash_v1 b =
     calculateHash_v1 (sbTimestamp b @ sbSigner b @ sbPreHash b @ sbAccountsHash b)"

section \<open>Validation and signatures\<close>

definition validateTx :: "Tx \<Rightarrow> bool" where
  "validateTx tx \<longleftrightarrow> txHash tx = calculateTxHash tx"

text \<open>A block without transaction whose hash is right makes \<open>validateTx\<close> dereference nil.\<close>

definition validateAccountStateBlock :: "AccountStateBlock_v1 \<Rightarrow> bool option" where
  "validateAccountStateBlock b =
     (if abHash b = calculateAccountBlockHash b
      then (case abTx b of None \<Rightarrow> None | Some tx \<Rightarrow> Some (validateTx tx))
      else Some False)"

definition validateSnapshotBlock :: "SnapshotBlock_v1 \<Rightarrow> bool" where
  "validateSnapshotBlock b \<longleftrightarrow> sbHash b = calculateSnapshotHash_v1 b"

definition signTx :: "Tx \<Rightarrow> string \<Rightarrow> Tx" where
  "signTx tx from = (let tx = tx\<lparr>txSigner := from\<rparr> in tx\<lparr>txHash := calculateTxHash tx\<rparr>)"

definition signAccountStateBlock :: "AccountStateBlock_v1 \<Rightarrow> string \<Rightarrow> AccountStateBlock_v1" where
  "signAccountStateBlock b address =
     (let b = b\<lparr>abSigner := address\<rparr> in b\<lparr>abHash := calculateAccountBlockHash b\<rparr>)"

definition signSnapshotBlock :: "string \<Rightarrow> SnapshotBlock_v1 \<Rightarrow> SnapshotBlock_v1" where
  "signSnapshotBlock signer b =
     (let b = b\<lparr>sbSigner := signer\<rparr> in b\<lparr>sbHash := calculateSnapshotHash_v1 b\<rparr>)"

section \<open>Look-ups\<close>

definition myAccountBlockChain :: "globals \<Rightarrow> string \<Rightarrow> AccountStateBlock_v1" where
  "myAccountBlockChain g node =
     (case map_of (accountStateBlockChain g) node of None \<Rightarrow> zeroBlock | Some b \<Rightarrow> b)"

definition existsAccountBlockChain :: "globals \<Rightarrow> string \<Rightarrow> bool" where
  "existsAccountBlockChain g node \<longleftrightarrow> map_of (accountStateBlockChain g) node \<noteq> None"

definition getAccountState :: "blockDB \<Rightarrow> string \<Rightarrow> AccountStateBlock_v1" where
  "getAccountState db hash = (case db hash of None \<Rightarrow> zeroBlock | Some b \<Rightarrow> b)"

definition getSnapshotBlock_v1 :: "(string \<rightharpoonup> SnapshotBlock_v1) \<Rightarrow> string \<Rightarrow> SnapshotBlock_v1" where
  "getSnapshotBlock_v1 db hash = (case db hash of None \<Rightarrow> zeroSnapshot | Some b \<Rightarrow> b)"

section \<open>New transactions and blocks\<close>

definition generateSendTx :: "globals \<Rightarrow> string \<Rightarrow> string \<Rightarrow> int \<Rightarrow> Tx" where
  "generateSendTx g from to amount =
     (let fromBlock = myAccountBlockChain g from
      in \<lparr>TxType = 1, AccountNonce = wrap64 (abNonce fromBlock + 1), txAmount = amount, txFrom = from,
          txTo = to, txHash = '''', txSource = '''', txSigner = ''''\<rparr>)"

definition generateReceivedTx :: "globals \<Rightarrow> Tx \<Rightarrow> Tx" where
  "generateReceivedTx g send =
     (let toBlock = myAccountBlockChain g (txTo send)
      in \<lparr>TxType = 2, AccountNonce = wrap64 (abNonce toBlock + 1), txAmount = txAmount send,
          txFrom = txFrom send, txTo = txTo send, txHash = '''', txSource = txHash send, txSigner = ''''\<rparr>)"

definition generateFromAccountStateBlock ::
  "string \<Rightarrow> AccountStateBlock_v1 \<Rightarrow> Tx \<Rightarrow> string \<Rightarrow> int \<Rightarrow> string \<Rightarrow> AccountStateBlock_v1" where
  "generateFromAccountStateBlock now old tx from snapshotHeight snapshotHash =
     zeroBlock\<lparr>abTx := Some tx, abNonce := wrap64 (abNonce old + 1), abTimestamp := now,
       abAmount := wrap64 (abAmount old - txAmount tx), abPreHash := abHash old,
       abSnapshotHeight := snapshotHeight, abSnapshotHash := snapshotHash\<rparr>"

definition generateToAccountStateBlock ::
  "string \<Rightarrow> AccountStateBlock_v1 \<Rightarrow> Tx \<Rightarrow> string \<Rightarrow> int \<Rightarrow> string \<Rightarrow> AccountStateBlock_v1" where
  "generateToAccountStateBlock now old tx to snapshotHeight snapshotHash =
     zeroBlock\<lparr>abTx := Some tx, abNonce := wrap64 (abNonce old + 1), abTimestamp := now,
       abAmount := wrap64 (abAmount old + txAmount tx), abPreHash := abHash old,
       abSnapshotHeight := snapshotHeight, abSnapshotHash := snapshotHash\<rparr>"

definition generateGenesisAccountStateBlock ::
  "string \<Rightarrow> int \<Rightarrow> string \<Rightarrow> int \<Rightarrow> string \<Rightarrow> AccountStateBlock_v1" where
  "generateGenesisAccountStateBlock now initBalance address snapshotHeight snapshotHash =
     \<lparr>abNonce = 0, abTimestamp = now, abAmount = initBalance, abHash = '''', abPreHash = '''',
      abSigner = address, abSnapshotHeight = snapshotHeight, abSnapshotHash = snapshotHash, abTx = None\<rparr>"

section \<open>Account chains\<close>

definition appendAccountStateBlockChain :: "string \<Rightarrow> AccountStateBlock_v1 \<Rightarrow> globals \<Rightarrow> (bool \<times> globals) option" where
  "appendAccountStateBlockChain node b g =
     do {
       valid \<leftarrow> validateAccountStateBlock b;
       if \<not> valid then Some (False, g)
       else do {
         let current = myAccountBlockChain g node;
         if abHash current = abPreHash b
         then do {
           tx \<leftarrow> abTx b;
           Some (True, g\<lparr>accountStateBlockChain := AList.update node b (accountStateBlockChain g),
             stateBlockDB := (stateBlockDB g)(abHash b \<mapsto> b),
             txDB := (txDB g)(txHash tx \<mapsto> tx)\<rparr>)
         }
         else Some (False, g)
       }
     }"

definition initNode :: "string \<Rightarrow> string \<Rightarrow> globals \<Rightarrow> Node_v1 \<times> globals" where
  "initNode now node g =
     (let n = \<lparr>nodeAddress = node, receivedTxChan = nextChan g\<rparr>;
          b = generateGenesisAccountStateBlock now 100 node (sbHeight (snapshotBlockChain g)) (sbHash (snapshotBlockChain g));
          b = signAccountStateBlock b node
      in (n, g\<lparr>nextChan := nextChan g + 1, nodes := AList.update node n (nodes g),
            accountStateBlockChain := AList.update node b (accountStateBlockChain g),
            stateBlockDB := (stateBlockDB g)(abHash b \<mapsto> b)\<rparr>))"

definition destoryNode :: "Node_v1 \<Rightarrow> globals \<Rightarrow> globals" where
  "destoryNode n g =
     g\<lparr>nodes := AList.delete (nodeAddress n) (nodes g), closedChans := receivedTxChan n # closedChans g,
       accountStateBlockChain := AList.delete (nodeAddress n) (accountStateBlockChain g)\<rparr>"

section \<open>Sending\<close>

text \<open>The signed block that \<open>submitTx\<close> builds from the head it read first and the transaction it
  signed; that block when both are read at the same moment, and the whole function when
  nothing runs in between. The second result is the block that goes to \<open>broadcastAccountBlock\<close>.\<close>

definition submitTx_on :: "string \<Rightarrow> string \<Rightarrow> AccountStateBlock_v1 \<Rightarrow> Tx \<Rightarrow> globals \<Rightarrow> AccountStateBlock_v1" where
  "submitTx_on now from chain tx g =
     signAccountStateBlock (generateFromAccountStateBlock now chain tx from
       (sbHeight (snapshotBlockChain g)) (sbHash (snapshotBlockChain g))) from"

definition submitTx_block :: "string \<Rightarrow> string \<Rightarrow> string \<Rightarrow> int \<Rightarrow> globals \<Rightarrow> AccountStateBlock_v1" where
  "submitTx_block now from to amount g =
     (let chain = myAccountBlockChain g from;
          tx = signTx (generateSendTx g from to amount) from
      in submitTx_on now from chain tx g)"

definition submitTx ::
  "string \<Rightarrow> string \<Rightarrow> string \<Rightarrow> int \<Rightarrow> globals \<Rightarrow> (AccountStateBlock_v1 option \<times> globals) option" where
  "submitTx now from to amount g =
     do {
       let b = submitTx_block now from to amount g;
       (ok, g) \<leftarrow> appendAccountStateBlockChain from b g;
       Some (if ok then Some b else None, g)
     }"

section \<open>Receiving\<close>

text \<open>The loop of \<open>lookupOtherReceiveTx\<close>, from the block \<open>b\<close> down.\<close>

partial_function (option) lookupLoop :: "blockDB \<Rightarrow> string \<Rightarrow> AccountStateBlock_v1 \<Rightarrow> bool option" where
  "lookupLoop db sourceHash b =
     (if (case abTx b of None \<Rightarrow> False | Some tx \<Rightarrow> TxType tx = 2 \<and> sourceHash = txSource tx) then Some True
      else if abPreHash b = '''' then Some False
      else lookupLoop db sourceHash (getAccountState db (abPreHash b)))"

definition lookupOtherReceiveTx :: "Node_v1 \<Rightarrow> Tx \<Rightarrow> globals \<Rightarrow> bool option" where
  "lookupOtherReceiveTx node send g =
     lookupLoop (stateBlockDB g) (txHash send) (myAccountBlockChain g (nodeAddress node))"

text \<open>The signed block that \<open>receiveTx\<close> builds for a transaction it signed, and both when nothing runs in between.\<close>

definition receiveTx_on :: "string \<Rightarrow> Node_v1 \<Rightarrow> Tx \<Rightarrow> globals \<Rightarrow> AccountStateBlock_v1" where
  "receiveTx_on now node tx g =
     (let chain = myAccountBlockChain g (nodeAddress node);
          b = generateToAccountStateBlock now chain tx (nodeAddress node)
                (sbHeight (snapshotBlockChain g)) (sbHash (snapshotBlockChain g))
      in signAccountStateBlock b (nodeAddress node))"

definition receiveTx_block :: "string \<Rightarrow> Node_v1 \<Rightarrow> Tx \<Rightarrow> globals \<Rightarrow> AccountStateBlock_v1" where
  "receiveTx_block now node send g =
     (let tx = signTx (generateReceivedTx g send) (nodeAddress node) in receiveTx_on now node tx g)"

text \<open>One round of the loop of \<open>receiveTx\<close> when nothing runs in between.\<close>

definition receiveTx_round ::
  "string \<Rightarrow> Node_v1 \<Rightarrow> Tx \<Rightarrow> globals \<Rightarrow> (AccountStateBlock_v1 option \<times> globals) option" where
  "receiveTx_round now node send g =
     do {
       repeated \<leftarrow> lookupOtherReceiveTx node send g;
       if repeated then Some (None, g)
       else do {
         let b = receiveTx_block now node send g;
         (ok, g) \<leftarrow> appendAccountStateBlockChain (nodeAddress node) b g;
         Some (if ok then Some b else None, g)
       }
     }"

text \<open>
  One round of the goroutine that takes blocks from \<open>broadcastAccountBlock\<close>: the transaction and
  the channel it is delivered to, if any. At most one key of \<open>nodes\<close> is the receiver.
\<close>

definition broadcast_round :: "AccountStateBlock_v1 \<Rightarrow> globals \<Rightarrow> (Tx \<times> nat) option option" where
  "broadcast_round b g =
     do {
       valid \<leftarrow> validateAccountStateBlock b;
       Some (if \<not> valid then None
             else case abTx b of
                 None \<Rightarrow> None
               | Some tx \<Rightarrow> if TxType tx = 1
                   then map_option (\<lambda>n. (tx, receivedTxChan n)) (map_of (nodes g) (txTo tx)) else None)
     }"

section \<open>Snapshots\<close>

definition generateGenesisSnapshotBlock :: "SnapshotBlock_v1 \<times> (string \<times> string) list" where
  "generateGenesisSnapshotBlock =
     (let accounts = [] in
      (\<lparr>sbHeight = 0, sbTimestamp = ''today'', sbPreHash = '''', sbSigner = '''',
        sbAccountsHash = marshalMap accounts, sbHash = ''''\<rparr>, accounts))"

definition generateSnapshotBlock :: "string \<Rightarrow> SnapshotBlock_v1 \<Rightarrow> globals \<Rightarrow> SnapshotBlock_v1 \<times> (string \<times> string) list" where
  "generateSnapshotBlock now current g =
     (let accounts = map (\<lambda>(address, account). (address, abHash account))
            (filter (\<lambda>(address, account). \<not> stateSnapshotMap g (abHash account)) (accountStateBlockChain g))
      in (\<lparr>sbHeight = wrap64 (sbHeight current + 1), sbTimestamp = now, sbPreHash = sbHash current,
           sbSigner = '''', sbAccountsHash = marshalMap accounts, sbHash = ''''\<rparr>, accounts))"

text \<open>The block sent on \<open>broadcastSnapshotBlock\<close> is validated once more by the goroutine that
  receives it, which only logs: sending it is no step of its own.\<close>

definition appendSnapshotBlockChain ::
  "SnapshotBlock_v1 \<Rightarrow> (string \<times> string) list \<Rightarrow> globals \<Rightarrow> bool \<times> globals" where
  "appendSnapshotBlockChain b accounts g =
     (if \<not> validateSnapshotBlock b then (False, g)
      else if sbHeight b \<noteq> 0 \<and> sbHash (snapshotBlockChain g) \<noteq> sbPreHash b then (False, g)
      else (True, g\<lparr>snapshotBlockChain := b, snapshotDB := (snapshotDB g)(sbHash b \<mapsto> b),
              snapshotAccountMap := (snapshotAccountMap g)(sbAccountsHash b \<mapsto> accounts),
              stateSnapshotMap := (\<lambda>h. h \<in> snd ` set accounts \<or> stateSnapshotMap g h)\<rparr>))"

definition initSnapshotChain :: "globals \<Rightarrow> globals" where
  "initSnapshotChain g =
     (let (b, accounts) = generateGenesisSnapshotBlock;
          b = signSnapshotBlock ''God'' b
      in snd (appendSnapshotBlockChain b accounts g))"

definition snapshotChain_v1 :: "string \<Rightarrow> string \<Rightarrow> globals \<Rightarrow> globals" where
  "snapshotChain_v1 now address g =
     (let (b, accounts) = generateSnapshotBlock now (snapshotBlockChain g) g;
          b = signSnapshotBlock address b
      in snd (appendSnapshotBlockChain b accounts g))"

section \<open>Printing\<close>

partial_function (option) printAccountLoop :: "blockDB \<Rightarrow> string \<Rightarrow> AccountStateBlock_v1 \<Rightarrow> string option" where
  "printAccountLoop db result tmp =
     (let result = itoa (abAmount tmp) @ result
      in if abPreHash tmp = '''' then Some result
         else printAccountLoop db (''->'' @ result) (getAccountState db (abPreHash tmp)))"

text \<open>The entries come in the order in which the range visits them.\<close>

fun printAccountBlockChain_from :: "blockDB \<Rightarrow> string \<Rightarrow> (string \<times> AccountStateBlock_v1) list \<Rightarrow> string option" where
  "printAccountBlockChain_from db result [] = Some result"
| "printAccountBlockChain_from db result ((k, v) # blocks) =
     do {
       result \<leftarrow> printAccountLoop db result v;
       printAccountBlockChain_from db ([newline] @ k @ '':'' @ result) blocks
     }"

definition printAccountBlockChain :: "globals \<Rightarrow> (string \<times> AccountStateBlock_v1) list \<Rightarrow> string option" where
  "printAccountBlockChain g blocks = printAccountBlockChain_from (stateBlockDB g) '''' blocks"

definition printSnapshotBlock :: "globals \<Rightarrow> SnapshotBlock_v1 \<Rightarrow> string" where
  "printSnapshotBlock g b =
     (let accounts = (case snapshotAccountMap g (sbAccountsHash b) of None \<Rightarrow> [] | Some m \<Rightarrow> m);
          result = foldl (\<lambda>result (k, v).
              k @ ''->'' @ itoa (abAmount (getAccountState (stateBlockDB g) v)) @ '','' @ result) '''' accounts
      in [newline] @ itoa (sbHeight b) @ '':'' @ result)"

partial_function (option) printSnapshotLoop :: "globals \<Rightarrow> string \<Rightarrow> SnapshotBlock_v1 \<Rightarrow> string option" where
  "printSnapshotLoop g result tmp =
     (let result = printSnapshotBlock g tmp @ result
      in if sbPreHash tmp = '''' then Some result
         else printSnapshotLoop g result (getSnapshotBlock_v1 (snapshotDB g) (sbPreHash tmp)))"

definition printSnapshotBlockChain :: "globals \<Rightarrow> SnapshotBlock_v1 \<Rightarrow> string option" where
  "printSnapshotBlockChain g b = printSnapshotLoop g '''' b"

text \<open>One round of the goroutine that prints both chains every ten seconds.\<close>

definition print_round :: "globals \<Rightarrow> (string \<times> AccountStateBlock_v1) list \<Rightarrow> (string \<times> string) option" where
  "print_round g blocks =
     do {
       output \<leftarrow> printAccountBlockChain g blocks;
       snapshot \<leftarrow> printSnapshotBlockChain g (snapshotBlockChain g);
       Some (output, snapshot)
     }"

section \<open>Connections\<close>

text \<open>
  How a connection goes on after the role is read: it has returned and its node is destroyed, it is
  an account node or a snapshot node, or it waits for ever on a channel that nobody reads.
\<close>

datatype conn_role = Returned | AccountNode | SnapshotNode | Hangs

text \<open>The written texts, the node, how the connection goes on, what is left to read, the globals.\<close>

definition handleConn ::
  "string \<Rightarrow> conn_input \<Rightarrow> globals \<Rightarrow> string list \<times> Node_v1 \<times> conn_role \<times> conn_input \<times> globals" where
  "handleConn now input g =
     (let (line, _, input) = Scan [] input;
          address = (case line of None \<Rightarrow> '''' | Some l \<Rightarrow> l);
          (node, g) = initNode now address g;
          written = [''Enter node address:'', address @ '', Enter role(1:tx node, 2:snapshot node):''];
          (line, _, input) = Scan [] input
      in case line of
           None \<Rightarrow> (written, node, Hangs, input, g)
         | Some text \<Rightarrow>
             (case AtoiErr text of
                None \<Rightarrow> (written, node, Returned, input, destoryNode node g)
              | Some role \<Rightarrow>
                  (written, node, if role = 1 then AccountNode else if role = 2 then SnapshotNode else Hangs,
                   input, g)))"

text \<open>
  One round of the loop of \<open>sendTx\<close>: the written texts, what is left to read, the block that is
  broadcast, if any, and the globals. The loop has no exit.
\<close>

definition sendTx_amount ::
  "string \<Rightarrow> string \<Rightarrow> string \<Rightarrow> string list \<Rightarrow> string \<Rightarrow> conn_input \<Rightarrow> globals \<Rightarrow>
     (string list \<times> conn_input \<times> AccountStateBlock_v1 option \<times> globals) option" where
  "sendTx_amount now address toAddress written buf input g =
     (let written = written @ [address @ '', Enter to amount:''];
          (line, _, input) = Scan buf input
      in case line of
           None \<Rightarrow> Some (written, input, None, g)
         | Some text \<Rightarrow>
             (case AtoiErr text of
                None \<Rightarrow> Some (written, input, None, g)
              | Some toAmount \<Rightarrow>
                  do {
                    (b, g) \<leftarrow> submitTx now address toAddress toAmount g;
                    Some (written, input, b, g)
                  }))"

definition sendTx_round ::
  "string \<Rightarrow> string \<Rightarrow> conn_input \<Rightarrow> globals \<Rightarrow>
     (string list \<times> conn_input \<times> AccountStateBlock_v1 option \<times> globals) option" where
  "sendTx_round now address input g =
     (let currentBalance = abAmount (myAccountBlockChain g address);
          written = [''current balance is :'' @ itoa currentBalance @ [newline], ''Enter to address:''];
          (line, buf, input) = Scan [] input
      in case line of
           None \<Rightarrow> sendTx_amount now address '''' written buf input g
         | Some toAddress \<Rightarrow>
             if \<not> existsAccountBlockChain g toAddress
             then Some (written @ [''address:'' @ toAddress @ '' not exists'' @ [newline]], input, None, g)
             else sendTx_amount now address toAddress written buf input g)"

end
