(* ===== verification/Prototype_Props.thy ===== *)
theory Prototype_Props
  imports Prototype
begin

text \<open>
  What the operations of the first version do: the hashes they compute validate, a submitted
  transaction is always appended whatever the balance, the walk down an account chain ends and
  finds exactly the transactions that were received, a transfer moves the amount, a snapshot covers
  each head once, and what a connection does with the lines it reads.
\<close>

section \<open>Signed blocks\<close>

lemma calculateTxHash_simps [simp]:
  "calculateTxHash (tx\<lparr>txHash := h\<rparr>) = calculateTxHash tx"
  by (simp add: calculateTxHash_def)

lemma calculateAccountBlockHash_simps [simp]:
  "calculateAccountBlockHash (b\<lparr>abHash := h\<rparr>) = calculateAccountBlockHash b"
  by (simp add: calculateAccountBlockHash_def Let_def)

lemma calculateSnapshotHash_simps [simp]:
  "calculateSnapshotHash_v1 (b\<lparr>sbHash := h\<rparr>) = calculateSnapshotHash_v1 b"
  by (simp add: calculateSnapshotHash_v1_def)

lemma calculateAccountBlockHash_nonempty [simp]: "calculateAccountBlockHash b \<noteq> []"
  using sha256_hex_nonempty
  by (auto simp: calculateAccountBlockHash_def calculateHash_v1_def Let_def split: option.splits)

lemma validateTx_signTx [simp]: "validateTx (signTx tx a)"
  by (simp add: validateTx_def signTx_def Let_def)

lemma signTx_simps [simp]:
  "TxType (signTx tx a) = TxType tx" "txAmount (signTx tx a) = txAmount tx" "txFrom (signTx tx a) = txFrom tx"
  "txTo (signTx tx a) = txTo tx" "txSource (signTx tx a) = txSource tx" "txSigner (signTx tx a) = a"
  "AccountNonce (signTx tx a) = AccountNonce tx"
  by (simp_all add: signTx_def Let_def)

lemma signAccountStateBlock_simps [simp]:
  "abTx (signAccountStateBlock b a) = abTx b" "abNonce (signAccountStateBlock b a) = abNonce b"
  "abAmount (signAccountStateBlock b a) = abAmount b" "abPreHash (signAccountStateBlock b a) = abPreHash b"
  "abSigner (signAccountStateBlock b a) = a"
  "abHash (signAccountStateBlock b a) = calculateAccountBlockHash (signAccountStateBlock b a)"
  by (simp_all add: signAccountStateBlock_def Let_def)

lemma validate_signed:
  "abTx b = Some tx \<Longrightarrow> validateAccountStateBlock (signAccountStateBlock b a) = Some (validateTx tx)"
  by (simp add: validateAccountStateBlock_def)

lemma validateSnapshotBlock_sign [simp]: "validateSnapshotBlock (signSnapshotBlock a b)"
  by (simp add: validateSnapshotBlock_def signSnapshotBlock_def Let_def)

lemma signSnapshotBlock_simps [simp]:
  "sbHeight (signSnapshotBlock a b) = sbHeight b" "sbPreHash (signSnapshotBlock a b) = sbPreHash b"
  "sbAccountsHash (signSnapshotBlock a b) = sbAccountsHash b"
  by (simp_all add: signSnapshotBlock_def Let_def)

text \<open>The transactions that the two kinds of blocks carry, and the rest of what they say.\<close>

definition sendTxOf :: "string \<Rightarrow> string \<Rightarrow> int \<Rightarrow> globals \<Rightarrow> Tx" where
  "sendTxOf from to amount g = signTx (generateSendTx g from to amount) from"

definition receiveTxOf :: "Node_v1 \<Rightarrow> Tx \<Rightarrow> globals \<Rightarrow> Tx" where
  "receiveTxOf node send g = signTx (generateReceivedTx g send) (nodeAddress node)"

lemma sendTxOf_simps [simp]:
  "TxType (sendTxOf from to amount g) = 1" "txAmount (sendTxOf from to amount g) = amount"
  "txTo (sendTxOf from to amount g) = to" "txFrom (sendTxOf from to amount g) = from"
  "validateTx (sendTxOf from to amount g)"
  by (simp_all add: sendTxOf_def) (simp_all add: generateSendTx_def Let_def)

lemma receiveTxOf_simps [simp]:
  "TxType (receiveTxOf node send g) = 2" "txAmount (receiveTxOf node send g) = txAmount send"
  "txSource (receiveTxOf node send g) = txHash send" "validateTx (receiveTxOf node send g)"
  by (simp_all add: receiveTxOf_def) (simp_all add: generateReceivedTx_def Let_def)

lemma submitTx_on_simps [simp]:
  "abTx (submitTx_on now from chain tx g) = Some tx"
  "abPreHash (submitTx_on now from chain tx g) = abHash chain"
  "abAmount (submitTx_on now from chain tx g) = wrap64 (abAmount chain - txAmount tx)"
  "abHash (submitTx_on now from chain tx g) \<noteq> []"
  "validateAccountStateBlock (submitTx_on now from chain tx g) = Some (validateTx tx)"
  unfolding submitTx_on_def by (simp_all add: generateFromAccountStateBlock_def validate_signed)

lemma receiveTx_on_simps [simp]:
  "abTx (receiveTx_on now node tx g) = Some tx"
  "abPreHash (receiveTx_on now node tx g) = abHash (myAccountBlockChain g (nodeAddress node))"
  "abAmount (receiveTx_on now node tx g) = wrap64 (abAmount (myAccountBlockChain g (nodeAddress node)) + txAmount tx)"
  "abHash (receiveTx_on now node tx g) \<noteq> []"
  "validateAccountStateBlock (receiveTx_on now node tx g) = Some (validateTx tx)"
  unfolding receiveTx_on_def Let_def by (simp_all add: generateToAccountStateBlock_def validate_signed)

lemma submitTx_block_eq:
  "submitTx_block now from to amount g = submitTx_on now from (myAccountBlockChain g from) (sendTxOf from to amount g) g"
  by (simp add: submitTx_block_def sendTxOf_def)

lemma receiveTx_block_eq: "receiveTx_block now node send g = receiveTx_on now node (receiveTxOf node send g) g"
  by (simp add: receiveTx_block_def receiveTxOf_def)

lemma submitTx_block_simps [simp]:
  "abTx (submitTx_block now from to amount g) = Some (sendTxOf from to amount g)"
  "abPreHash (submitTx_block now from to amount g) = abHash (myAccountBlockChain g from)"
  "abAmount (submitTx_block now from to amount g) = wrap64 (abAmount (myAccountBlockChain g from) - amount)"
  "abHash (submitTx_block now from to amount g) \<noteq> []"
  "validateAccountStateBlock (submitTx_block now from to amount g) = Some True"
  by (simp_all add: submitTx_block_eq)

lemma receiveTx_block_simps [simp]:
  "abTx (receiveTx_block now node send g) = Some (receiveTxOf node send g)"
  "abPreHash (receiveTx_block now node send g) = abHash (myAccountBlockChain g (nodeAddress node))"
  "abAmount (receiveTx_block now node send g) =
     wrap64 (abAmount (myAccountBlockChain g (nodeAddress node)) + txAmount send)"
  "abHash (receiveTx_block now node send g) \<noteq> []"
  "validateAccountStateBlock (receiveTx_block now node send g) = Some True"
  by (simp_all add: receiveTx_block_eq)

section \<open>Appending\<close>

definition appended :: "string \<Rightarrow> AccountStateBlock_v1 \<Rightarrow> Tx \<Rightarrow> globals \<Rightarrow> globals" where
  "appended node b tx g =
     g\<lparr>accountStateBlockChain := AList.update node b (accountStateBlockChain g),
       stateBlockDB := (stateBlockDB g)(abHash b \<mapsto> b), txDB := (txDB g)(txHash tx \<mapsto> tx)\<rparr>"

lemma append_valid:
  assumes "validateAccountStateBlock b = Some True" "abTx b = Some tx"
  shows "appendAccountStateBlockChain node b g =
    Some (if abHash (myAccountBlockChain g node) = abPreHash b then (True, appended node b tx g) else (False, g))"
  using assms by (simp add: appendAccountStateBlockChain_def appended_def Let_def)

lemma appended_simps [simp]:
  "map_of (accountStateBlockChain (appended node b tx g)) = (map_of (accountStateBlockChain g))(node \<mapsto> b)"
  "stateBlockDB (appended node b tx g) = (stateBlockDB g)(abHash b \<mapsto> b)"
  "nodes (appended node b tx g) = nodes g" "nextChan (appended node b tx g) = nextChan g"
  "closedChans (appended node b tx g) = closedChans g"
  "snapshotBlockChain (appended node b tx g) = snapshotBlockChain g"
  "txDB (appended node b tx g) = (txDB g)(txHash tx \<mapsto> tx)"
  by (simp_all add: appended_def update_conv')

lemma myAccountBlockChain_appended [simp]:
  "myAccountBlockChain (appended node b tx g) a = (if a = node then b else myAccountBlockChain g a)"
  by (simp add: myAccountBlockChain_def)

text \<open>Nothing is compared with the balance: without interference a submission is always appended.\<close>

lemma submitTx_eq:
  "submitTx now from to amount g =
     Some (Some (submitTx_block now from to amount g),
           appended from (submitTx_block now from to amount g) (sendTxOf from to amount g) g)"
  by (simp add: submitTx_def append_valid Let_def)

lemma receiveTx_round_eq:
  "lookupOtherReceiveTx node send g = Some False \<Longrightarrow>
   receiveTx_round now node send g =
     Some (Some (receiveTx_block now node send g),
           appended (nodeAddress node) (receiveTx_block now node send g) (receiveTxOf node send g) g)"
  by (simp add: receiveTx_round_def append_valid Let_def)

lemma broadcast_send:
  "map_of (nodes g) to = Some n \<Longrightarrow>
   broadcast_round (submitTx_block now from to amount g0) g = Some (Some (sendTxOf from to amount g0, receivedTxChan n))"
  by (simp add: broadcast_round_def)

lemma broadcast_receive: "broadcast_round (receiveTx_block now node send g0) g = Some None"
  by (simp add: broadcast_round_def)

section \<open>Histories\<close>

text \<open>The blocks of an account from a block down to the first one, through the hash of the block before.\<close>

inductive history :: "blockDB \<Rightarrow> AccountStateBlock_v1 \<Rightarrow> AccountStateBlock_v1 list \<Rightarrow> bool" for db where
  first: "abPreHash b = '''' \<Longrightarrow> history db b [b]"
| before: "abPreHash b \<noteq> '''' \<Longrightarrow> db (abPreHash b) = Some p \<Longrightarrow> history db p bs \<Longrightarrow> history db b (b # bs)"


definition receivedSource :: "AccountStateBlock_v1 \<Rightarrow> string option" where
  "receivedSource b = (case abTx b of None \<Rightarrow> None | Some tx \<Rightarrow> if TxType tx = 2 then Some (txSource tx) else None)"

text \<open>The sources of the receive blocks.\<close>

definition receipts :: "AccountStateBlock_v1 list \<Rightarrow> string list" where
  "receipts bs = List.map_filter receivedSource bs"

lemma receipts_simps [simp]:
  "receipts [] = []"
  "receipts (b # bs) = (case receivedSource b of None \<Rightarrow> receipts bs | Some s \<Rightarrow> s # receipts bs)"
  by (simp_all add: receipts_def List.map_filter_simps split: option.splits)

text \<open>What a block adds to the balance, and the balance of a history: 100 from the block that opens
  the account, if the history starts with such a block.\<close>

definition moved :: "AccountStateBlock_v1 \<Rightarrow> int" where
  "moved b = (case abTx b of None \<Rightarrow> 100 | Some tx \<Rightarrow> if TxType tx = 1 then - txAmount tx else txAmount tx)"

definition total_of :: "AccountStateBlock_v1 list \<Rightarrow> int" where
  "total_of bs = (\<Sum>b\<leftarrow>bs. moved b)"

lemma history_nonempty: "history db b bs \<Longrightarrow> bs \<noteq> [] \<and> hd bs = b"
  by (erule history.cases) auto

lemma history_unique: "history db b bs \<Longrightarrow> history db b cs \<Longrightarrow> bs = cs"
proof (induction arbitrary: cs rule: history.induct)
  case (first b)
  from first.prems show ?case using first.hyps by cases auto
next
  case (before b p bs)
  obtain cs' where "cs = b # cs'" "history db p cs'"
    using before.prems before.hyps(1,2) by cases auto
  then show ?case using before.IH [of cs'] by simp
qed

lemma history_grow: "history db b bs \<Longrightarrow> db \<subseteq>\<^sub>m db' \<Longrightarrow> history db' b bs"
  by (induction rule: history.induct) (auto intro!: history.intros simp: map_le_def dom_def)

text \<open>The walk for an earlier receive ends, and finds exactly the sources received so far.\<close>

lemma lookupLoop_history:
  "history db b bs \<Longrightarrow> lookupLoop db s b = Some (s \<in> set (receipts bs))"
proof (induction rule: history.induct)
  case (first b)
  then show ?case by (subst lookupLoop.simps) (auto simp: receivedSource_def split: option.splits)
next
  case (before b p bs)
  then show ?case
    by (subst lookupLoop.simps) (auto simp: receivedSource_def getAccountState_def split: option.splits)
qed

text \<open>The printed line of an account: its balances from the first to the last, joined by arrows.\<close>

lemma printAccountLoop_history:
  "history db b bs \<Longrightarrow>
   printAccountLoop db result b = Some (joinWith ''->'' (rev (map (\<lambda>b. itoa (abAmount b)) bs)) @ result)"
proof (induction arbitrary: result rule: history.induct)
  case (first b)
  then show ?case by (subst printAccountLoop.simps) (simp add: Let_def)
next
  case (before b p bs)
  have join: "joinWith sep (xs @ [x]) = joinWith sep xs @ sep @ x" if "xs \<noteq> []" for sep x and xs :: "string list"
    using that by (induction xs rule: joinWith.induct [of _ sep]) auto
  have "bs \<noteq> []" using before.hyps(3) history_nonempty by blast
  with before show ?case
    by (subst printAccountLoop.simps) (simp add: Let_def getAccountState_def join)
qed

section \<open>The invariant of the globals\<close>

definition block_ok :: "blockDB \<Rightarrow> AccountStateBlock_v1 \<Rightarrow> bool" where
  "block_ok db b \<longleftrightarrow> (\<exists>bs. history db b bs \<and> abAmount b = wrap64 (total_of bs))"

definition wf_v1 :: "globals \<Rightarrow> bool" where
  "wf_v1 g \<longleftrightarrow>
     (\<forall>a b. map_of (accountStateBlockChain g) a = Some b \<longrightarrow> stateBlockDB g (abHash b) = Some b) \<and>
     (\<forall>h b. stateBlockDB g h = Some b \<longrightarrow> abHash b = h \<and> h \<noteq> '''' \<and> block_ok (stateBlockDB g) b)"

lemma wf_v1_head: "wf_v1 g \<Longrightarrow> map_of (accountStateBlockChain g) a = Some b \<Longrightarrow> stateBlockDB g (abHash b) = Some b"
  by (simp add: wf_v1_def)

lemma wf_v1_db:
  assumes "wf_v1 g" "stateBlockDB g h = Some b"
  shows "abHash b = h" "h \<noteq> ''''" "block_ok (stateBlockDB g) b"
  using assms by (auto simp: wf_v1_def)

lemma block_ok_grow: "block_ok db b \<Longrightarrow> db \<subseteq>\<^sub>m db' \<Longrightarrow> block_ok db' b"
  using history_grow by (fastforce simp: block_ok_def)

text \<open>The head of a chain: the zero block when there is none.\<close>

lemma wf_v1_current:
  assumes "wf_v1 g"
  shows "abHash (myAccountBlockChain g a) = '''' \<and> myAccountBlockChain g a = zeroBlock \<or>
    stateBlockDB g (abHash (myAccountBlockChain g a)) = Some (myAccountBlockChain g a)"
  using wf_v1_head [OF assms, of a] by (auto simp: myAccountBlockChain_def zeroBlock_def split: option.splits)

lemma wf_v1_step:
  assumes wf: "wf_v1 g" and le: "stateBlockDB g \<subseteq>\<^sub>m (stateBlockDB g)(abHash b \<mapsto> b)" and ne: "abHash b \<noteq> ''''"
    and ok: "block_ok ((stateBlockDB g)(abHash b \<mapsto> b)) b"
    and g': "\<forall>x c. map_of (accountStateBlockChain g') x = Some c \<longrightarrow> c = b \<or> map_of (accountStateBlockChain g) x = Some c"
      "stateBlockDB g' = (stateBlockDB g)(abHash b \<mapsto> b)"
  shows "wf_v1 g'"
proof -
  have "stateBlockDB g' (abHash c) = Some c" if "map_of (accountStateBlockChain g') x = Some c" for x c
    using wf_v1_head [OF wf, of x c] g' that le by (fastforce simp: map_le_def dom_def)
  moreover have "abHash c = h \<and> h \<noteq> '''' \<and> block_ok (stateBlockDB g') c" if "stateBlockDB g' h = Some c" for h c
    using wf_v1_db [OF wf, of h c] block_ok_grow [OF _ le, of c] ok ne that unfolding g'(2) by (auto split: if_splits)
  ultimately show ?thesis by (simp add: wf_v1_def)
qed

text \<open>
  What a block must satisfy to keep the invariant when it is appended: the amount follows from the
  block before it.
\<close>

definition follows_ok :: "blockDB \<Rightarrow> AccountStateBlock_v1 \<Rightarrow> bool" where
  "follows_ok db b \<longleftrightarrow> abTx b \<noteq> None \<and>
     (if abPreHash b = '''' then abAmount b = wrap64 (moved b)
      else case db (abPreHash b) of None \<Rightarrow> False | Some p \<Rightarrow> abAmount b = wrap64 (abAmount p + moved b))"

lemma follows_ok_grow:
  assumes "follows_ok db b" "db \<subseteq>\<^sub>m db'"
  shows "follows_ok db' b"
proof (cases "abPreHash b = ''''")
  case False
  then obtain p where p: "db (abPreHash b) = Some p" using assms(1) by (auto simp: follows_ok_def split: option.splits)
  then have "db' (abPreHash b) = Some p" using assms(2) by (metis domI map_le_def)
  then show ?thesis using assms(1) p False by (simp add: follows_ok_def)
qed (use assms(1) in \<open>simp add: follows_ok_def\<close>)

lemma wrap64_add_wrap: "wrap64 (wrap64 x + y) = wrap64 (x + y)"
proof -
  have "(wrap64 x + y + 2 ^ 63) mod 2 ^ 64 = (x + y + 2 ^ 63) mod 2 ^ 64"
    by (simp add: wrap64_def mod_simps algebra_simps)
  then show ?thesis unfolding wrap64_def by simp
qed

lemma follows_ok_block_ok:
  assumes "follows_ok db b" "\<forall>h p. db h = Some p \<longrightarrow> block_ok db p" "db \<subseteq>\<^sub>m db'"
  shows "block_ok db' b"
proof (cases "abPreHash b = ''''")
  case True
  then show ?thesis
    using assms(1) unfolding block_ok_def
    by (intro exI [of _ "[b]"]) (auto simp: follows_ok_def total_of_def intro: history.first split: option.splits)
next
  case False
  then obtain p where p: "db (abPreHash b) = Some p" "abAmount b = wrap64 (abAmount p + moved b)"
    using assms(1) by (auto simp: follows_ok_def split: option.splits)
  obtain bs where bs: "history db p bs" "abAmount p = wrap64 (total_of bs)"
    using assms(2) p(1) unfolding block_ok_def by blast
  have "history db' b (b # bs)"
    using history.before [OF False p(1) bs(1)] assms(3) by (rule history_grow)
  moreover have "abAmount b = wrap64 (total_of (b # bs))"
    using p(2) wrap64_add_wrap [of "total_of bs" "moved b"] by (simp add: bs(2) total_of_def add.commute)
  ultimately show ?thesis unfolding block_ok_def by blast
qed

lemma wf_v1_appended:
  assumes "wf_v1 g" "stateBlockDB g \<subseteq>\<^sub>m (stateBlockDB g)(abHash b \<mapsto> b)" "abHash b \<noteq> ''''"
    "follows_ok (stateBlockDB g) b"
  shows "wf_v1 (appended node b tx g)"
proof (rule wf_v1_step [OF assms(1-3)])
  show "block_ok ((stateBlockDB g)(abHash b \<mapsto> b)) b"
    using assms(2,4) wf_v1_db(3) [OF assms(1)] by (blast intro: follows_ok_block_ok)
qed (auto split: if_splits)

lemma wf_v1_initNode:
  assumes "wf_v1 g" "initNode now a g = (n, g')" "stateBlockDB g \<subseteq>\<^sub>m stateBlockDB g'"
  shows "wf_v1 g'"
proof -
  define b where "b = signAccountStateBlock (generateGenesisAccountStateBlock now 100 a
    (sbHeight (snapshotBlockChain g)) (sbHash (snapshotBlockChain g))) a"
  have b: "abPreHash b = ''''" "abTx b = None" "abAmount b = 100" "abHash b \<noteq> ''''"
    by (simp_all add: b_def) (simp_all add: generateGenesisAccountStateBlock_def)
  have g': "map_of (accountStateBlockChain g') = (map_of (accountStateBlockChain g))(a \<mapsto> b)"
    "stateBlockDB g' = (stateBlockDB g)(abHash b \<mapsto> b)"
    using assms(2) unfolding initNode_def Let_def b_def [symmetric] by (auto simp: update_conv')
  have "stateBlockDB g \<subseteq>\<^sub>m (stateBlockDB g)(abHash b \<mapsto> b)" using assms(3) unfolding g' .
  moreover have "block_ok ((stateBlockDB g)(abHash b \<mapsto> b)) b"
    unfolding block_ok_def using b
    by (intro exI [of _ "[b]"])
       (auto simp: total_of_def moved_def wrap64_id int64_range_def receivedSource_def intro: history.first)
  ultimately show ?thesis
    by (rule wf_v1_step [OF assms(1) _ b(4)]) (auto simp: g' split: if_splits)
qed

lemma wf_v1_destoryNode:
  assumes "wf_v1 g"
  shows "wf_v1 (destoryNode n g)"
  using assms by (auto simp: wf_v1_def destoryNode_def delete_conv' split: if_splits)

lemma appendSnapshot_frame:
  "accountStateBlockChain (snd (appendSnapshotBlockChain b as g)) = accountStateBlockChain g"
  "stateBlockDB (snd (appendSnapshotBlockChain b as g)) = stateBlockDB g"
  "nodes (snd (appendSnapshotBlockChain b as g)) = nodes g"
  "nextChan (snd (appendSnapshotBlockChain b as g)) = nextChan g"
  "closedChans (snd (appendSnapshotBlockChain b as g)) = closedChans g"
  by (simp_all add: appendSnapshotBlockChain_def)

lemma snapshotChain_frame [simp]:
  "accountStateBlockChain (snapshotChain_v1 now a g) = accountStateBlockChain g"
  "stateBlockDB (snapshotChain_v1 now a g) = stateBlockDB g" "nodes (snapshotChain_v1 now a g) = nodes g"
  "nextChan (snapshotChain_v1 now a g) = nextChan g" "closedChans (snapshotChain_v1 now a g) = closedChans g"
  by (simp_all add: snapshotChain_v1_def generateSnapshotBlock_def Let_def appendSnapshot_frame)

lemma initSnapshotChain_frame [simp]:
  "accountStateBlockChain (initSnapshotChain g) = accountStateBlockChain g"
  "stateBlockDB (initSnapshotChain g) = stateBlockDB g" "nodes (initSnapshotChain g) = nodes g"
  "nextChan (initSnapshotChain g) = nextChan g" "closedChans (initSnapshotChain g) = closedChans g"
  by (simp_all add: initSnapshotChain_def generateGenesisSnapshotBlock_def Let_def appendSnapshot_frame)

lemma wf_v1_snapshotChain [simp]: "wf_v1 (snapshotChain_v1 now a g) \<longleftrightarrow> wf_v1 g"
  by (simp add: wf_v1_def)

lemma wf_v1_init: "wf_v1 (initSnapshotChain initGlobals)"
  by (simp add: wf_v1_def initGlobals_def)

text \<open>The blocks that the two operations build satisfy the condition.\<close>

definition known :: "globals \<Rightarrow> AccountStateBlock_v1 \<Rightarrow> bool" where
  "known g b \<longleftrightarrow> b = zeroBlock \<or> stateBlockDB g (abHash b) = Some b"

lemma known_current: "wf_v1 g \<Longrightarrow> known g (myAccountBlockChain g a)"
  using wf_v1_current [of g a] by (auto simp: known_def)

lemma follows_ok_known:
  assumes "wf_v1 g" "known g p" "abPreHash b = abHash p" "abAmount b = wrap64 (abAmount p + moved b)" "abTx b \<noteq> None"
  shows "follows_ok (stateBlockDB g) b"
  using assms wf_v1_db(2) [OF assms(1), of "abHash p" p] by (auto simp: follows_ok_def known_def zeroBlock_def)

lemma follows_ok_submitTx:
  assumes "wf_v1 g" "known g chain" "TxType tx = 1"
  shows "follows_ok (stateBlockDB g) (submitTx_on now from chain tx g')"
  by (rule follows_ok_known [OF assms(1,2)]) (simp_all add: moved_def assms(3))

lemma follows_ok_receiveTx:
  assumes "wf_v1 g" "TxType tx = 2"
  shows "follows_ok (stateBlockDB g) (receiveTx_on now node tx g)"
  by (rule follows_ok_known [OF assms(1) known_current [OF assms(1)]]) (simp_all add: moved_def assms(2))

text \<open>The head of an account has a history; when the account does not exist it is the zero block alone.\<close>

lemma head_history:
  assumes "wf_v1 g"
  shows "\<exists>bs. history (stateBlockDB g) (myAccountBlockChain g a) bs"
proof -
  have "history (stateBlockDB g) zeroBlock [zeroBlock]" by (rule history.first) (simp add: zeroBlock_def)
  then show ?thesis
    using wf_v1_current [OF assms, of a] wf_v1_db(3) [OF assms, of "abHash (myAccountBlockChain g a)"]
    by (auto simp: block_ok_def)
qed

text \<open>In a well-formed state the search for an earlier receive ends.\<close>

lemma lookup_total:
  assumes wf: "wf_v1 g"
  shows "\<exists>r. lookupOtherReceiveTx node send g = Some r"
proof -
  show ?thesis using head_history [OF wf] lookupLoop_history unfolding lookupOtherReceiveTx_def by blast
qed

section \<open>A transfer\<close>

definition balance_v1 :: "globals \<Rightarrow> string \<Rightarrow> int" where
  "balance_v1 g a = abAmount (myAccountBlockChain g a)"

text \<open>A transfer in the first version, when nothing runs in between: the submission is always
  appended, whatever the amount and the balance; the broadcast hands the transaction to the channel of
  the receiver; and if the receiver has not received it before, its block is appended, is handed to
  nobody, and exactly the two balances have changed, by the amount, with the wrap-around of 64 bits.\<close>

theorem prototype_transfer:
  assumes "map_of (nodes g) b = Some n" "nodeAddress n = b" "a \<noteq> b"
  shows "\<exists>blk g1 tx. submitTx now a b amount g = Some (Some blk, g1) \<and>
     broadcast_round blk g1 = Some (Some (tx, receivedTxChan n)) \<and>
     (lookupOtherReceiveTx n tx g1 = Some False \<longrightarrow>
       (\<exists>rblk g2. receiveTx_round later n tx g1 = Some (Some rblk, g2) \<and> broadcast_round rblk g2 = Some None \<and>
          balance_v1 g2 = (balance_v1 g)(a := wrap64 (balance_v1 g a - amount), b := wrap64 (balance_v1 g b + amount))))"
proof -
  let ?blk = "submitTx_block now a b amount g" and ?tx = "sendTxOf a b amount g"
  let ?g1 = "appended a ?blk ?tx g"
  have "broadcast_round ?blk ?g1 = Some (Some (?tx, receivedTxChan n))"
    using assms(1) by (simp add: broadcast_send)
  moreover have "\<exists>rblk g2. receiveTx_round later n ?tx ?g1 = Some (Some rblk, g2) \<and> broadcast_round rblk g2 = Some None \<and>
      balance_v1 g2 = (balance_v1 g)(a := wrap64 (balance_v1 g a - amount), b := wrap64 (balance_v1 g b + amount))"
    if "lookupOtherReceiveTx n ?tx ?g1 = Some False"
    using that assms(2,3) by (auto simp: receiveTx_round_eq broadcast_receive balance_v1_def fun_eq_iff)
  ultimately show ?thesis using submitTx_eq by blast
qed

definition ex_v1 :: globals where
  "ex_v1 = snd (initNode ''t2'' ''bob'' (snd (initNode ''t1'' ''alice'' (initSnapshotChain initGlobals))))"

definition ex_bob :: Node_v1 where
  "ex_bob = \<lparr>nodeAddress = ''bob'', receivedTxChan = 1\<rparr>"

lemma initNode_head:
  "abPreHash (myAccountBlockChain (snd (initNode now a g)) a) = ''''"
  "abTx (myAccountBlockChain (snd (initNode now a g)) a) = None"
  "abAmount (myAccountBlockChain (snd (initNode now a g)) a) = 100"
  by (simp_all add: myAccountBlockChain_def initNode_def Let_def update_conv')
     (simp_all add: generateGenesisAccountStateBlock_def)

lemma initNode_other: "x \<noteq> a \<Longrightarrow> myAccountBlockChain (snd (initNode now a g)) x = myAccountBlockChain g x"
  by (simp add: myAccountBlockChain_def initNode_def Let_def update_conv')

lemma lookup_first: "abPreHash (myAccountBlockChain g (nodeAddress n)) = '''' \<Longrightarrow>
  abTx (myAccountBlockChain g (nodeAddress n)) = None \<Longrightarrow> lookupOtherReceiveTx n tx g = Some False"
  by (simp add: lookupOtherReceiveTx_def lookupLoop.simps)

lemma ex_v1_simps:
  "map_of (nodes ex_v1) ''bob'' = Some ex_bob" "balance_v1 ex_v1 ''alice'' = 100" "balance_v1 ex_v1 ''bob'' = 100"
  "abPreHash (myAccountBlockChain ex_v1 ''bob'') = ''''" "abTx (myAccountBlockChain ex_v1 ''bob'') = None"
  by (simp_all add: ex_v1_def balance_v1_def initNode_head initNode_other)
     (simp add: ex_bob_def initNode_def Let_def update_conv' initGlobals_def)

text \<open>Alice sends Bob 130 and is left with -30.\<close>

theorem prototype_transfer_witness:
  "\<exists>blk g1 tx rblk g2. submitTx ''t3'' ''alice'' ''bob'' 130 ex_v1 = Some (Some blk, g1) \<and>
     broadcast_round blk g1 = Some (Some (tx, 1)) \<and> receiveTx_round ''t4'' ex_bob tx g1 = Some (Some rblk, g2) \<and>
     balance_v1 g2 ''alice'' = -30 \<and> balance_v1 g2 ''bob'' = 230"
proof -
  have ne: "''alice'' \<noteq> ''bob''" by simp
  obtain blk g1 tx where t: "submitTx ''t3'' ''alice'' ''bob'' 130 ex_v1 = Some (Some blk, g1)"
    "broadcast_round blk g1 = Some (Some (tx, receivedTxChan ex_bob))"
    "lookupOtherReceiveTx ex_bob tx g1 = Some False \<longrightarrow>
       (\<exists>rblk g2. receiveTx_round ''t4'' ex_bob tx g1 = Some (Some rblk, g2) \<and> broadcast_round rblk g2 = Some None \<and>
          balance_v1 g2 = (balance_v1 ex_v1)(''alice'' := wrap64 (balance_v1 ex_v1 ''alice'' - 130),
            ''bob'' := wrap64 (balance_v1 ex_v1 ''bob'' + 130)))"
    using prototype_transfer [OF ex_v1_simps(1) _ ne, of "''t3''" 130 "''t4''"] by (auto simp: ex_bob_def)
  have "lookupOtherReceiveTx ex_bob tx g1 = Some False"
    using t(1) by (auto simp: submitTx_eq ex_bob_def ex_v1_simps intro!: lookup_first)
  then show ?thesis using t by (auto simp: ex_v1_simps ex_bob_def wrap64_def)
qed

section \<open>Snapshots\<close>

text \<open>A snapshot of the first version is always appended: the new block is the successor of the old
  head and is stored with the accounts it covers, which are the heads not covered before; afterwards
  all heads are covered, so that a snapshot taken right after it covers no account.\<close>

theorem prototype_snapshot:
  "let g' = snapshotChain_v1 now a g; b = snapshotBlockChain g';
       new = {(x, abHash c) |x c. (x, c) \<in> set (accountStateBlockChain g) \<and> \<not> stateSnapshotMap g (abHash c)}
   in sbHeight b = wrap64 (sbHeight (snapshotBlockChain g) + 1) \<and> sbPreHash b = sbHash (snapshotBlockChain g) \<and>
      snapshotDB g' (sbHash b) = Some b \<and>
      map_option set (snapshotAccountMap g' (sbAccountsHash b)) = Some new \<and>
      {h. stateSnapshotMap g' h} = {h. stateSnapshotMap g h} \<union> abHash ` snd ` set (accountStateBlockChain g) \<and>
      snd (generateSnapshotBlock later b g') = []"
proof -
  let ?s = "generateSnapshotBlock now (snapshotBlockChain g) g"
  have h: "sbHash (snapshotBlockChain g) = sbPreHash (fst ?s)" by (simp add: generateSnapshotBlock_def Let_def)
  then have g': "snapshotChain_v1 now a g =
      g\<lparr>snapshotBlockChain := signSnapshotBlock a (fst ?s),
        snapshotDB := (snapshotDB g)(sbHash (signSnapshotBlock a (fst ?s)) \<mapsto> signSnapshotBlock a (fst ?s)),
        snapshotAccountMap := (snapshotAccountMap g)(sbAccountsHash (fst ?s) \<mapsto> snd ?s),
        stateSnapshotMap := (\<lambda>h. h \<in> snd ` set (snd ?s) \<or> stateSnapshotMap g h)\<rparr>"
    by (simp add: snapshotChain_v1_def Let_def split_beta appendSnapshotBlockChain_def)
  let ?new = "{(x, abHash c) |x c. (x, c) \<in> set (accountStateBlockChain g) \<and> \<not> stateSnapshotMap g (abHash c)}"
  have new: "set (snd ?s) = ?new" by (auto simp: generateSnapshotBlock_def Let_def image_iff split_beta)
  have "h \<in> snd ` ?new \<or> stateSnapshotMap g h \<longleftrightarrow>
      stateSnapshotMap g h \<or> h \<in> abHash ` snd ` set (accountStateBlockChain g)" for h
    by (force simp: image_iff)
  then have marked: "stateSnapshotMap (snapshotChain_v1 now a g) =
      (\<lambda>h. stateSnapshotMap g h \<or> h \<in> abHash ` snd ` set (accountStateBlockChain g))"
    by (simp add: g' new fun_eq_iff)
  have "snd (generateSnapshotBlock later (snapshotBlockChain (snapshotChain_v1 now a g)) (snapshotChain_v1 now a g)) = []"
    by (force simp: generateSnapshotBlock_def Let_def marked filter_empty_conv)
  moreover have "sbHeight (fst ?s) = wrap64 (sbHeight (snapshotBlockChain g) + 1)"
    by (simp add: generateSnapshotBlock_def Let_def)
  moreover have "{h. stateSnapshotMap (snapshotChain_v1 now a g) h} =
      {h. stateSnapshotMap g h} \<union> abHash ` snd ` set (accountStateBlockChain g)"
    unfolding marked by auto
  ultimately show ?thesis
    unfolding Let_def by (intro conjI; (simp only: ; fail)?) (simp_all add: g' new h)
qed

section \<open>Weaknesses of the hashes and of the connections\<close>

text \<open>Amounts that are no code points, such as negative ones, do not enter the hash: the amount of a
  signed transaction can be replaced by another such amount and the transaction still validates.\<close>

lemma tampered_amount_validates:
  assumes "validateTx tx" "\<not> isRune (txAmount tx)" "\<not> isRune amount"
  shows "validateTx (tx\<lparr>txAmount := amount\<rparr>)"
  using assms string_of_int_collides [OF assms(2,3)] by (simp add: validateTx_def calculateTxHash_def)

text \<open>The type of a transaction and the height of a snapshot block are not hashed at all.\<close>

lemma type_not_hashed: "validateTx (tx\<lparr>TxType := t\<rparr>) = validateTx tx"
  by (simp add: validateTx_def calculateTxHash_def)

lemma height_not_hashed: "validateSnapshotBlock (b\<lparr>sbHeight := h\<rparr>) = validateSnapshotBlock b"
  by (simp add: validateSnapshotBlock_def calculateSnapshotHash_v1_def)

text \<open>Connecting again under an address in use starts its account anew, with a balance of 100.\<close>

lemma reconnect_resets: "balance_v1 (snd (initNode now a g)) = (balance_v1 g)(a := 100)"
  by (auto simp: balance_v1_def fun_eq_iff initNode_head initNode_other)

section \<open>What a connection does with its lines\<close>

definition one_line :: "string \<Rightarrow> bool" where
  "one_line l \<longleftrightarrow> newline \<notin> set l \<and> CHR 0x0D \<notin> set l"

lemma Scan_one_line: "one_line l \<Longrightarrow> Scan [] ((l @ [newline]) # cs) = (Some l, [], cs)"
  unfolding one_line_def by (blast intro: Scan_line)

lemma Scan_eof [simp]: "Scan [] [] = (None, [], [])"
  by (simp add: Scan.simps)

text \<open>Typed line by line, the role decides how the connection goes on; the node is destroyed exactly when
  the role is not a number.\<close>

lemma handleConn_typed:
  assumes "one_line a" "one_line r"
  shows "handleConn now ((a @ [newline]) # (r @ [newline]) # cs) g =
    ([''Enter node address:'', a @ '', Enter role(1:tx node, 2:snapshot node):''], fst (initNode now a g),
     (case AtoiErr r of None \<Rightarrow> Returned
      | Some i \<Rightarrow> if i = 1 then AccountNode else if i = 2 then SnapshotNode else Hangs), cs,
     (case AtoiErr r of None \<Rightarrow> destoryNode (fst (initNode now a g)) (snd (initNode now a g))
      | Some i \<Rightarrow> snd (initNode now a g)))"
  by (simp add: handleConn_def Let_def Scan_one_line [OF assms(1)] Scan_one_line [OF assms(2)] split_beta
      split: option.splits)

text \<open>When the address and the role arrive in one read, the role is lost with the first scanner: the
  connection hangs and its node stays registered.\<close>

lemma pipelined_role_lost:
  assumes "one_line a"
  shows "fst (snd (snd (handleConn now [a @ newline # r @ [newline]] g))) = Hangs"
    "map_of (nodes (snd (snd (snd (snd (handleConn now [a @ newline # r @ [newline]] g)))))) a =
       Some (fst (initNode now a g))"
proof -
  have "Scan [] [a @ newline # r @ [newline]] = Scan (a @ newline # r @ [newline]) []"
    by (subst Scan.simps) simp
  also have "\<dots> = (Some a, r @ [newline], [])"
    using assms splitLine_line [of a "r @ [newline]"]
    by (subst Scan.simps) (auto simp: one_line_def dropCR_def dest: last_in_set)
  finally have "handleConn now [a @ newline # r @ [newline]] g =
    ([''Enter node address:'', a @ '', Enter role(1:tx node, 2:snapshot node):''], fst (initNode now a g),
     Hangs, [], snd (initNode now a g))"
    by (simp add: handleConn_def Let_def split_beta)
  then show "fst (snd (snd (handleConn now [a @ newline # r @ [newline]] g))) = Hangs"
    "map_of (nodes (snd (snd (snd (snd (handleConn now [a @ newline # r @ [newline]] g)))))) a =
       Some (fst (initNode now a g))"
    by (simp_all add: initNode_def Let_def update_conv')
qed

text \<open>A round of the sending loop with a known address and a number typed is a submission.\<close>

lemma sendTx_round_typed:
  assumes "one_line to" "existsAccountBlockChain g to" "int64_range amount" "one_line (itoa amount)"
  shows "\<exists>written. sendTx_round now a ((to @ [newline]) # (itoa amount @ [newline]) # cs) g =
    Some (written, cs, Some (submitTx_block now a to amount g),
      appended a (submitTx_block now a to amount g) (sendTxOf a to amount g) g)"
  using assms(2,3)
  by (simp add: sendTx_round_def sendTx_amount_def Let_def Scan_one_line [OF assms(1)] Scan_one_line [OF assms(4)]
      AtoiErr_itoa submitTx_eq)

text \<open>At the end of the input the loop goes round for ever without a change.\<close>

lemma sendTx_round_eof: "\<exists>written. sendTx_round now a [] g = Some (written, [], None, g)"
  by (simp add: sendTx_round_def sendTx_amount_def Let_def)

end
