(* ===== verification/Prototype_System.thy ===== *)
theory Prototype_System
  imports Prototype_Props
begin

text \<open>
  The goroutines of the first version and the unbuffered channels between them, as a step relation:
  per connection the goroutine that reads commands and the goroutine that receives transactions, and
  the one goroutine that takes blocks from \<open>broadcastAccountBlock\<close> and delivers transactions. A send on
  a channel and the receive that matches it are one step. The unlocked reads are steps of their own, so
  that other goroutines may run in between: a submission reads whether the receiver exists, then
  its own head, then builds its block; a receiver searches its history, then signs its transaction,
  then reads its head and builds its block; the locked append is another step. What remains one step
  is the walk over stored blocks, which never change, and the reads of height and hash of the
  snapshot together with the last read before them. The invariant is about runs in which no stored
  block is overwritten by a different block with the same hash; the deadlocks do not depend on that.
\<close>

section \<open>States\<close>

datatype loop_state = LIdle | LDeliver Tx nat

text \<open>\<open>STo\<close>: the receiver was found to exist; \<open>SHead\<close>: the amount and the head were read; \<open>RChecked\<close>: the
  search found no earlier receive; \<open>RSigned\<close>: the receiving transaction is signed; \<open>SReady\<close>, \<open>RReady\<close>: the
  block is built and not yet appended; \<open>SBlocked\<close>, \<open>RBlocked\<close>: it is appended and waits to be taken
  from \<open>broadcastAccountBlock\<close>.\<close>

datatype sender_state = SIdle | STo string | SHead string int AccountStateBlock_v1
  | SReady AccountStateBlock_v1 | SBlocked AccountStateBlock_v1

datatype receiver_state = RNone | RWaiting | RGot Tx | RChecked Tx | RSigned Tx
  | RReady AccountStateBlock_v1 | RBlocked AccountStateBlock_v1

text \<open>The role of a connection is \<^const>\<open>None\<close> until its line is read.\<close>

record connection =
  cNode :: Node_v1
  cRole :: "conn_role option"
  cSend :: sender_state
  cRecv :: receiver_state

record system =
  glob :: globals
  loopSt :: loop_state
  conns :: "connection list"
  crashed :: bool

definition initSystem :: system where
  "initSystem = \<lparr>glob = initSnapshotChain initGlobals, loopSt = LIdle, conns = [], crashed = False\<rparr>"

definition newConnection :: "Node_v1 \<Rightarrow> connection" where
  "newConnection n = \<lparr>cNode = n, cRole = None, cSend = SIdle, cRecv = RNone\<rparr>"

definition address_of :: "connection \<Rightarrow> string" where
  "address_of c = nodeAddress (cNode c)"

definition chan_of :: "connection \<Rightarrow> nat" where
  "chan_of c = receivedTxChan (cNode c)"

definition setConn :: "nat \<Rightarrow> connection \<Rightarrow> system \<Rightarrow> system" where
  "setConn i c s = s\<lparr>conns := (conns s)[i := c]\<rparr>"

definition loop_of :: "(Tx \<times> nat) option \<Rightarrow> loop_state" where
  "loop_of d = (case d of None \<Rightarrow> LIdle | Some (tx, ch) \<Rightarrow> LDeliver tx ch)"

section \<open>Steps\<close>

text \<open>
  The role line of a connection: a node whose role is not a number is destroyed, which closes its
  channel; a goroutine that is sending on it then panics. An account node starts its receiver.
\<close>

definition choose_role :: "nat \<Rightarrow> string \<Rightarrow> connection \<Rightarrow> system \<Rightarrow> system" where
  "choose_role i line c s =
     (case AtoiErr line of
        None \<Rightarrow> setConn i (c\<lparr>cRole := Some Returned\<rparr>)
                 (s\<lparr>glob := destoryNode (cNode c) (glob s),
                    crashed := (crashed s \<or> (\<exists>tx. loopSt s = LDeliver tx (chan_of c)))\<rparr>)
      | Some r \<Rightarrow>
          if r = 1 then setConn i (c\<lparr>cRole := Some AccountNode, cRecv := RWaiting\<rparr>) s
          else setConn i (c\<lparr>cRole := Some (if r = 2 then SnapshotNode else Hangs)\<rparr>) s)"

inductive sys_step :: "system \<Rightarrow> system \<Rightarrow> bool" where
  connect:
    "initNode now a (glob s) = (n, g) \<Longrightarrow>
     sys_step s (s\<lparr>glob := g, conns := conns s @ [newConnection n]\<rparr>)"
| role:
    "i < length (conns s) \<Longrightarrow> conns s ! i = c \<Longrightarrow> cRole c = None \<Longrightarrow> sys_step s (choose_role i line c s)"
| snapshot:
    "c \<in> set (conns s) \<Longrightarrow> cRole c = Some SnapshotNode \<Longrightarrow>
     sys_step s (s\<lparr>glob := snapshotChain_v1 now (address_of c) (glob s)\<rparr>)"
| submit_to:
    "i < length (conns s) \<Longrightarrow> conns s ! i = c \<Longrightarrow> cRole c = Some AccountNode \<Longrightarrow> cSend c = SIdle \<Longrightarrow>
     existsAccountBlockChain (glob s) to \<Longrightarrow> sys_step s (setConn i (c\<lparr>cSend := STo to\<rparr>) s)"
| submit_no_amount:
    "i < length (conns s) \<Longrightarrow> conns s ! i = c \<Longrightarrow> cSend c = STo to \<Longrightarrow>
     sys_step s (setConn i (c\<lparr>cSend := SIdle\<rparr>) s)"
| submit_head:
    "i < length (conns s) \<Longrightarrow> conns s ! i = c \<Longrightarrow> cSend c = STo to \<Longrightarrow> int64_range amount \<Longrightarrow>
     sys_step s (setConn i (c\<lparr>cSend := SHead to amount (myAccountBlockChain (glob s) (address_of c))\<rparr>) s)"
| submit_build:
    "i < length (conns s) \<Longrightarrow> conns s ! i = c \<Longrightarrow> cSend c = SHead to amount chain \<Longrightarrow>
     sys_step s (setConn i (c\<lparr>cSend :=
       SReady (submitTx_on now (address_of c) chain (sendTxOf (address_of c) to amount (glob s)) (glob s))\<rparr>) s)"
| submit_append:
    "i < length (conns s) \<Longrightarrow> conns s ! i = c \<Longrightarrow> cSend c = SReady b \<Longrightarrow>
     appendAccountStateBlockChain (address_of c) b (glob s) = Some (ok, g) \<Longrightarrow>
     sys_step s (setConn i (c\<lparr>cSend := (if ok then SBlocked b else SIdle)\<rparr>) (s\<lparr>glob := g\<rparr>))"
| take_sent:
    "i < length (conns s) \<Longrightarrow> conns s ! i = c \<Longrightarrow> cSend c = SBlocked b \<Longrightarrow> loopSt s = LIdle \<Longrightarrow>
     broadcast_round b (glob s) = Some d \<Longrightarrow>
     sys_step s (setConn i (c\<lparr>cSend := SIdle\<rparr>) (s\<lparr>loopSt := loop_of d\<rparr>))"
| deliver:
    "i < length (conns s) \<Longrightarrow> conns s ! i = c \<Longrightarrow> cRecv c = RWaiting \<Longrightarrow> loopSt s = LDeliver tx (chan_of c) \<Longrightarrow>
     sys_step s (setConn i (c\<lparr>cRecv := RGot tx\<rparr>) (s\<lparr>loopSt := LIdle\<rparr>))"
| receive_lookup:
    "i < length (conns s) \<Longrightarrow> conns s ! i = c \<Longrightarrow> cRecv c = RGot tx \<Longrightarrow>
     lookupOtherReceiveTx (cNode c) tx (glob s) = Some repeated \<Longrightarrow>
     sys_step s (setConn i (c\<lparr>cRecv := (if repeated then RWaiting else RChecked tx)\<rparr>) s)"
| receive_sign:
    "i < length (conns s) \<Longrightarrow> conns s ! i = c \<Longrightarrow> cRecv c = RChecked tx \<Longrightarrow>
     sys_step s (setConn i (c\<lparr>cRecv := RSigned (receiveTxOf (cNode c) tx (glob s))\<rparr>) s)"
| receive_build:
    "i < length (conns s) \<Longrightarrow> conns s ! i = c \<Longrightarrow> cRecv c = RSigned tx \<Longrightarrow>
     sys_step s (setConn i (c\<lparr>cRecv := RReady (receiveTx_on now (cNode c) tx (glob s))\<rparr>) s)"
| receive_append:
    "i < length (conns s) \<Longrightarrow> conns s ! i = c \<Longrightarrow> cRecv c = RReady b \<Longrightarrow>
     appendAccountStateBlockChain (address_of c) b (glob s) = Some (ok, g) \<Longrightarrow>
     sys_step s (setConn i (c\<lparr>cRecv := (if ok then RBlocked b else RWaiting)\<rparr>) (s\<lparr>glob := g\<rparr>))"
| take_received:
    "i < length (conns s) \<Longrightarrow> conns s ! i = c \<Longrightarrow> cRecv c = RBlocked b \<Longrightarrow> loopSt s = LIdle \<Longrightarrow>
     broadcast_round b (glob s) = Some d \<Longrightarrow>
     sys_step s (setConn i (c\<lparr>cRecv := RWaiting\<rparr>) (s\<lparr>loopSt := loop_of d\<rparr>))"

text \<open>The runs from a state: a program that has crashed makes no step.\<close>

inductive sys_reach :: "system \<Rightarrow> system \<Rightarrow> bool" for s where
  stay: "sys_reach s s"
| step: "sys_reach s t \<Longrightarrow> \<not> crashed t \<Longrightarrow> sys_step t u \<Longrightarrow> sys_reach s u"

text \<open>The runs in which SHA-256 does not collide: no step replaces a stored block by another one.\<close>

inductive collision_free :: "system \<Rightarrow> bool" where
  init: "collision_free initSystem"
| step: "collision_free s \<Longrightarrow> \<not> crashed s \<Longrightarrow> sys_step s t \<Longrightarrow>
     stateBlockDB (glob s) \<subseteq>\<^sub>m stateBlockDB (glob t) \<Longrightarrow> collision_free t"

lemma setConn_simps [simp]:
  "glob (setConn i c s) = glob s" "loopSt (setConn i c s) = loopSt s" "crashed (setConn i c s) = crashed s"
  "conns (setConn i c s) = (conns s)[i := c]"
  by (simp_all add: setConn_def)

section \<open>The invariant\<close>

text \<open>A block that is built and not yet appended.\<close>

definition pending_ok :: "globals \<Rightarrow> AccountStateBlock_v1 \<Rightarrow> bool" where
  "pending_ok g b \<longleftrightarrow> follows_ok (stateBlockDB g) b \<and> validateAccountStateBlock b = Some True \<and> abHash b \<noteq> ''''"

definition conn_ok :: "globals \<Rightarrow> connection \<Rightarrow> bool" where
  "conn_ok g c \<longleftrightarrow> (\<forall>b. cSend c = SReady b \<or> cRecv c = RReady b \<longrightarrow> pending_ok g b) \<and>
     (\<forall>to amount chain. cSend c = SHead to amount chain \<longrightarrow> known g chain) \<and>
     (\<forall>tx. cRecv c = RSigned tx \<longrightarrow> TxType tx = 2 \<and> validateTx tx)"

definition sys_inv :: "system \<Rightarrow> bool" where
  "sys_inv s \<longleftrightarrow> wf_v1 (glob s) \<and> (\<forall>c\<in>set (conns s). conn_ok (glob s) c)"

lemma pending_ok_grow: "pending_ok g b \<Longrightarrow> stateBlockDB g \<subseteq>\<^sub>m stateBlockDB g' \<Longrightarrow> pending_ok g' b"
  using follows_ok_grow [of "stateBlockDB g" b "stateBlockDB g'"] by (auto simp: pending_ok_def)

lemma known_grow: "known g b \<Longrightarrow> stateBlockDB g \<subseteq>\<^sub>m stateBlockDB g' \<Longrightarrow> known g' b"
  by (auto simp: known_def map_le_def dom_def)

lemma conn_ok_grow: "conn_ok g c \<Longrightarrow> stateBlockDB g \<subseteq>\<^sub>m stateBlockDB g' \<Longrightarrow> conn_ok g' c"
  unfolding conn_ok_def using pending_ok_grow known_grow by blast

text \<open>A step that keeps the globals well-formed and changes one connection, or adds one.\<close>

lemma sys_inv_setConn:
  assumes "sys_inv s" "wf_v1 (glob s')" "stateBlockDB (glob s) \<subseteq>\<^sub>m stateBlockDB (glob s')"
    "conns s' = conns s" "conn_ok (glob s') c"
  shows "sys_inv (setConn i c s')"
  unfolding sys_inv_def
proof (intro conjI ballI)
  fix d assume "d \<in> set (conns (setConn i c s'))"
  then have "d = c \<or> d \<in> set (conns s)" using set_update_subset_insert [of "conns s" i c] by (auto simp: assms(4))
  then show "conn_ok (glob (setConn i c s')) d"
    using assms(1,3,5) conn_ok_grow [of "glob s" d "glob s'"] by (auto simp: sys_inv_def)
qed (simp add: assms(2))

lemma conn_ok_nth: "sys_inv s \<Longrightarrow> i < length (conns s) \<Longrightarrow> conn_ok (glob s) (conns s ! i)"
  by (simp add: sys_inv_def)

lemma conn_ok_simps [simp]:
  "conn_ok g (c\<lparr>cRole := r\<rparr>) = conn_ok g c"
  "conn_ok g c \<Longrightarrow> conn_ok g (c\<lparr>cSend := SIdle\<rparr>)" "conn_ok g c \<Longrightarrow> conn_ok g (c\<lparr>cSend := STo to\<rparr>)"
  "conn_ok g c \<Longrightarrow> known g chain \<Longrightarrow> conn_ok g (c\<lparr>cSend := SHead to n chain\<rparr>)"
  "conn_ok g c \<Longrightarrow> conn_ok g (c\<lparr>cSend := SBlocked b\<rparr>)"
  "conn_ok g c \<Longrightarrow> conn_ok g (c\<lparr>cRecv := RWaiting\<rparr>)" "conn_ok g c \<Longrightarrow> conn_ok g (c\<lparr>cRecv := RGot tx\<rparr>)"
  "conn_ok g c \<Longrightarrow> conn_ok g (c\<lparr>cRecv := RChecked tx\<rparr>)"
  "conn_ok g c \<Longrightarrow> TxType tx = 2 \<Longrightarrow> validateTx tx \<Longrightarrow> conn_ok g (c\<lparr>cRecv := RSigned tx\<rparr>)"
  "conn_ok g c \<Longrightarrow> conn_ok g (c\<lparr>cRecv := RBlocked b\<rparr>)"
  "conn_ok g c \<Longrightarrow> pending_ok g b \<Longrightarrow> conn_ok g (c\<lparr>cSend := SReady b\<rparr>)"
  "conn_ok g c \<Longrightarrow> pending_ok g b \<Longrightarrow> conn_ok g (c\<lparr>cRecv := RReady b\<rparr>)"
  by (auto simp: conn_ok_def)

lemma conn_ok_db: "stateBlockDB g' = stateBlockDB g \<Longrightarrow> conn_ok g' c = conn_ok g c"
  by (simp add: conn_ok_def pending_ok_def known_def)

text \<open>Appending a pending block succeeds or changes nothing, and keeps the globals well-formed.\<close>

lemma append_pending:
  assumes "wf_v1 g" "pending_ok g b" "appendAccountStateBlockChain a b g = Some (ok, g')"
    "stateBlockDB g \<subseteq>\<^sub>m stateBlockDB g'"
  shows "wf_v1 g'"
proof -
  obtain tx where tx: "abTx b = Some tx" using assms(2) by (auto simp: pending_ok_def follows_ok_def)
  have v: "validateAccountStateBlock b = Some True" "abHash b \<noteq> ''''" "follows_ok (stateBlockDB g) b"
    using assms(2) by (auto simp: pending_ok_def)
  then have "g' = g \<or> g' = appended a b tx g" using assms(3) by (auto simp: append_valid [OF v(1) tx] split: if_splits)
  then show ?thesis using assms(1,4) v(2,3) wf_v1_appended [of g b a tx] by auto
qed

lemma sys_inv_step:
  assumes "sys_step s t" "sys_inv s" "stateBlockDB (glob s) \<subseteq>\<^sub>m stateBlockDB (glob t)"
  shows "sys_inv t"
  using assms
proof (induction rule: sys_step.induct)
  case (connect now a s n g)
  have "wf_v1 g" using connect wf_v1_initNode by (fastforce simp: sys_inv_def)
  moreover have "conn_ok g (newConnection n)" by (simp add: conn_ok_def newConnection_def)
  ultimately show ?case using connect conn_ok_grow [of "glob s" _ g] by (auto simp: sys_inv_def)
next
  case (role i s c line)
  have c: "conn_ok (glob s) c" using conn_ok_nth [OF role.prems(1) role.hyps(1)] role.hyps(2) by simp
  have wf: "wf_v1 (glob s)" using role.prems by (simp add: sys_inv_def)
  have db: "stateBlockDB (destoryNode n (glob s)) = stateBlockDB (glob s)" for n by (simp add: destoryNode_def)
  then have "conn_ok (destoryNode n (glob s)) d = conn_ok (glob s) d" for n d by (rule conn_ok_db)
  then show ?case
    using c wf wf_v1_destoryNode unfolding choose_role_def
    by (auto simp: db split: option.splits intro!: sys_inv_setConn [OF role.prems(1)])
next
  case (snapshot c s now)
  have "conn_ok (snapshotChain_v1 now (address_of c) (glob s)) d = conn_ok (glob s) d" for d by (rule conn_ok_db) simp
  then show ?case using snapshot by (simp add: sys_inv_def)
next
  case (submit_to i s c to)
  then show ?case using conn_ok_nth [OF submit_to.prems(1) submit_to.hyps(1)]
    by (intro sys_inv_setConn [OF submit_to.prems(1)]) (auto simp: sys_inv_def)
next
  case (submit_no_amount i s c to)
  then show ?case using conn_ok_nth [OF submit_no_amount.prems(1) submit_no_amount.hyps(1)]
    by (intro sys_inv_setConn [OF submit_no_amount.prems(1)]) (auto simp: sys_inv_def)
next
  case (submit_head i s c to amount)
  then show ?case using conn_ok_nth [OF submit_head.prems(1) submit_head.hyps(1)] known_current [of "glob s"]
    by (intro sys_inv_setConn [OF submit_head.prems(1)]) (auto simp: sys_inv_def)
next
  case (submit_build i s c to amount chain now)
  have "known (glob s) chain"
    using conn_ok_nth [OF submit_build.prems(1) submit_build.hyps(1)] submit_build.hyps(2,3) by (auto simp: conn_ok_def)
  then have "pending_ok (glob s) (submitTx_on now (address_of c) chain (sendTxOf (address_of c) to amount (glob s)) (glob s))"
    using submit_build.prems follows_ok_submitTx by (simp add: pending_ok_def sys_inv_def)
  then show ?case
    using submit_build conn_ok_nth [OF submit_build.prems(1) submit_build.hyps(1)]
    by (intro sys_inv_setConn [OF submit_build.prems(1)]) (auto simp: sys_inv_def)
next
  case (submit_append i s c b ok g)
  have c: "conn_ok (glob s) c" using conn_ok_nth [OF submit_append.prems(1) submit_append.hyps(1)] submit_append.hyps(2) by simp
  then have "wf_v1 g" using submit_append append_pending [of "glob s" b "address_of c" ok g]
    by (auto simp: conn_ok_def sys_inv_def)
  moreover have "conn_ok g c" using c submit_append conn_ok_grow [of "glob s" c g] by (auto simp: sys_inv_def)
  ultimately show ?case
    using submit_append.prems by (intro sys_inv_setConn [OF submit_append.prems(1)]) auto
next
  case (take_sent i s c b d)
  then show ?case using conn_ok_nth [OF take_sent.prems(1) take_sent.hyps(1)]
    by (intro sys_inv_setConn [OF take_sent.prems(1)]) (auto simp: sys_inv_def)
next
  case (deliver i s c tx)
  then show ?case using conn_ok_nth [OF deliver.prems(1) deliver.hyps(1)]
    by (intro sys_inv_setConn [OF deliver.prems(1)]) (auto simp: sys_inv_def)
next
  case (receive_lookup i s c tx repeated)
  then show ?case using conn_ok_nth [OF receive_lookup.prems(1) receive_lookup.hyps(1)]
    by (intro sys_inv_setConn [OF receive_lookup.prems(1)]) (auto simp: sys_inv_def)
next
  case (receive_sign i s c tx)
  then show ?case using conn_ok_nth [OF receive_sign.prems(1) receive_sign.hyps(1)]
    by (intro sys_inv_setConn [OF receive_sign.prems(1)]) (auto simp: sys_inv_def)
next
  case (receive_build i s c tx now)
  have "TxType tx = 2" "validateTx tx"
    using conn_ok_nth [OF receive_build.prems(1) receive_build.hyps(1)] receive_build.hyps(2,3) by (auto simp: conn_ok_def)
  then have "pending_ok (glob s) (receiveTx_on now (cNode c) tx (glob s))"
    using receive_build.prems follows_ok_receiveTx by (simp add: pending_ok_def sys_inv_def)
  then show ?case
    using receive_build conn_ok_nth [OF receive_build.prems(1) receive_build.hyps(1)]
    by (intro sys_inv_setConn [OF receive_build.prems(1)]) (auto simp: sys_inv_def)
next
  case (receive_append i s c b ok g)
  have c: "conn_ok (glob s) c" using conn_ok_nth [OF receive_append.prems(1) receive_append.hyps(1)] receive_append.hyps(2) by simp
  then have "wf_v1 g" using receive_append append_pending [of "glob s" b "address_of c" ok g]
    by (auto simp: conn_ok_def sys_inv_def)
  moreover have "conn_ok g c" using c receive_append conn_ok_grow [of "glob s" c g] by (auto simp: sys_inv_def)
  ultimately show ?case
    using receive_append.prems by (intro sys_inv_setConn [OF receive_append.prems(1)]) auto
next
  case (take_received i s c b d)
  then show ?case using conn_ok_nth [OF take_received.prems(1) take_received.hyps(1)]
    by (intro sys_inv_setConn [OF take_received.prems(1)]) (auto simp: sys_inv_def)
qed

lemma collision_free_inv: "collision_free s \<Longrightarrow> sys_inv s"
proof (induction rule: collision_free.induct)
  case init
  then show ?case using wf_v1_init by (simp add: sys_inv_def initSystem_def)
next
  case (step s t)
  then show ?case using sys_inv_step by blast
qed

section \<open>Nothing is received twice\<close>

text \<open>
  As long as no address is connected twice, only the goroutines of one connection append to an
  account, and of these only the receiver appends receive blocks. So the answer of its search
  still holds when its block is appended.
\<close>

definition received_once :: "globals \<Rightarrow> string \<Rightarrow> bool" where
  "received_once g a \<longleftrightarrow> (\<forall>bs. history (stateBlockDB g) (myAccountBlockChain g a) bs \<longrightarrow> distinct (receipts bs))"

definition not_received :: "globals \<Rightarrow> string \<Rightarrow> string \<Rightarrow> bool" where
  "not_received g a src \<longleftrightarrow> (\<forall>bs. history (stateBlockDB g) (myAccountBlockChain g a) bs \<longrightarrow> src \<notin> set (receipts bs))"

text \<open>The source that a receiver found not to be received, while it works on its block.\<close>

fun working_on :: "receiver_state \<Rightarrow> string option" where
  "working_on (RChecked tx) = Some (txHash tx)"
| "working_on (RSigned tx) = Some (txSource tx)"
| "working_on (RReady b) = receivedSource b"
| "working_on _ = None"

definition conn_once :: "globals \<Rightarrow> connection \<Rightarrow> bool" where
  "conn_once g c \<longleftrightarrow> (\<forall>b. cSend c = SReady b \<longrightarrow> receivedSource b = None) \<and>
     (\<forall>src. working_on (cRecv c) = Some src \<longrightarrow> not_received g (address_of c) src)"

definition once_inv :: "system \<Rightarrow> bool" where
  "once_inv s \<longleftrightarrow> (\<forall>a. received_once (glob s) a) \<and> (\<forall>c\<in>set (conns s). conn_once (glob s) c)"

text \<open>An account whose head does not change keeps its receipts while blocks are stored.\<close>

lemma once_same_head:
  assumes "wf_v1 g" "stateBlockDB g \<subseteq>\<^sub>m stateBlockDB g'" "myAccountBlockChain g' a = myAccountBlockChain g a"
  shows "received_once g' a = received_once g a" "not_received g' a src = not_received g a src"
proof -
  obtain bs where bs: "history (stateBlockDB g) (myAccountBlockChain g a) bs" using head_history [OF assms(1)] by blast
  then have "history (stateBlockDB g') (myAccountBlockChain g' a) bs" using history_grow [OF bs assms(2)] assms(3) by simp
  then have "history (stateBlockDB g') (myAccountBlockChain g' a) cs = history (stateBlockDB g) (myAccountBlockChain g a) cs" for cs
    using bs history_unique by blast
  then show "received_once g' a = received_once g a" "not_received g' a src = not_received g a src"
    by (simp_all add: received_once_def not_received_def)
qed

text \<open>A head without a block before it and without a receipt.\<close>

lemma once_first:
  assumes "abPreHash (myAccountBlockChain g a) = ''''" "receivedSource (myAccountBlockChain g a) = None"
  shows "received_once g a" "not_received g a src"
proof -
  have "history (stateBlockDB g) (myAccountBlockChain g a) bs \<Longrightarrow> bs = [myAccountBlockChain g a]" for bs
    using history_unique history.first [OF assms(1)] by blast
  then show "received_once g a" "not_received g a src"
    using assms(2) by (fastforce simp: received_once_def not_received_def)+
qed

text \<open>Appending a block whose source the account has not received.\<close>

lemma once_appended:
  assumes wf: "wf_v1 g" and le: "stateBlockDB g \<subseteq>\<^sub>m (stateBlockDB g)(abHash b \<mapsto> b)"
    and pre: "abPreHash b = abHash (myAccountBlockChain g a)" and once: "received_once g a"
    and new: "\<And>src. receivedSource b = Some src \<Longrightarrow> not_received g a src"
  shows "received_once (appended a b tx g) a"
    "receivedSource b = None \<Longrightarrow> not_received g a src \<Longrightarrow> not_received (appended a b tx g) a src"
proof -
  let ?g = "appended a b tx g" and ?h = "myAccountBlockChain g a"
  obtain bs where bs: "history (stateBlockDB g) ?h bs" using head_history [OF wf] by blast
  have le': "stateBlockDB g \<subseteq>\<^sub>m stateBlockDB ?g" using le by simp
  obtain cs where cs: "history (stateBlockDB ?g) b cs" "receipts cs = receipts [b] \<or> receipts cs = receipts (b # bs)"
  proof (cases "abPreHash b = ''''")
    case True
    then show thesis using that [of "[b]"] history.first [of b] by simp
  next
    case False
    then have "stateBlockDB g (abPreHash b) = Some ?h" using wf_v1_current [OF wf, of a] pre by auto
    then have "stateBlockDB ?g (abPreHash b) = Some ?h" using le' by (metis domI map_le_def)
    then have "history (stateBlockDB ?g) b (b # bs)" using history.before [OF False] history_grow [OF bs le'] by blast
    then show thesis using that by blast
  qed
  have "distinct (receipts bs)" "\<And>src. receivedSource b = Some src \<Longrightarrow> src \<notin> set (receipts bs)"
    using bs once new by (auto simp: received_once_def not_received_def)
  then have "distinct (receipts cs)" using cs(2) by (auto split: option.splits)
  moreover have uniq: "ds = cs" if "history (stateBlockDB ?g) (myAccountBlockChain ?g a) ds" for ds
    using history_unique [OF _ cs(1)] that by simp
  ultimately show "received_once ?g a" unfolding received_once_def by blast
  assume "receivedSource b = None" "not_received g a src"
  then have "src \<notin> set (receipts cs)" using cs(2) bs by (auto simp: not_received_def)
  then show "not_received ?g a src" using uniq unfolding not_received_def by blast
qed

text \<open>A step that leaves all accounts alone and changes one connection.\<close>

lemma once_setConn:
  assumes "once_inv s" "glob s' = glob s" "conns s' = conns s" "conn_once (glob s) c"
  shows "once_inv (setConn i c s')"
  unfolding once_inv_def
proof (intro conjI allI ballI)
  fix d assume "d \<in> set (conns (setConn i c s'))"
  then have "d = c \<or> d \<in> set (conns s)" using set_update_subset_insert [of "conns s" i c] by (auto simp: assms(3))
  then show "conn_once (glob (setConn i c s')) d" using assms by (auto simp: once_inv_def)
qed (use assms in \<open>simp add: once_inv_def\<close>)

text \<open>A step that changes one account, when only connection \<open>i\<close> has its address.\<close>

lemma once_account:
  assumes inv: "once_inv s" and wf: "wf_v1 (glob s)" and le: "stateBlockDB (glob s) \<subseteq>\<^sub>m stateBlockDB (glob s')"
    and other: "\<And>x. x \<noteq> a \<Longrightarrow> myAccountBlockChain (glob s') x = myAccountBlockChain (glob s) x"
    and here: "received_once (glob s') a"
    and conns: "\<And>d. d \<in> set (conns s') \<Longrightarrow> d \<in> set (conns s) \<and> address_of d \<noteq> a \<or> conn_once (glob s') d"
  shows "once_inv s'"
  unfolding once_inv_def
proof (intro conjI allI ballI)
  fix x show "received_once (glob s') x"
    using here inv once_same_head(1) [OF wf le other] by (cases "x = a") (auto simp: once_inv_def)
next
  fix d assume "d \<in> set (conns s')"
  then show "conn_once (glob s') d"
    using conns [of d] inv once_same_head(2) [OF wf le other] by (auto simp: once_inv_def conn_once_def)
qed

lemma address_same [simp]:
  "address_of (c\<lparr>cRole := r\<rparr>) = address_of c" "address_of (c\<lparr>cSend := x\<rparr>) = address_of c" "address_of (c\<lparr>cRecv := y\<rparr>) = address_of c"
  by (simp_all add: address_of_def)

lemma list_update_same: "i < length xs \<Longrightarrow> xs ! i = c \<Longrightarrow> address_of c' = address_of c \<Longrightarrow> map address_of (xs[i := c']) = map address_of xs"
  by (metis list_update_id map_update)

lemma nth_other:
  assumes "distinct (map address_of (conns s))" "i < length (conns s)" "conns s ! i = c" "d \<in> set ((conns s)[i := c'])"
  shows "d = c' \<or> d \<in> set (conns s) \<and> address_of d \<noteq> address_of c"
proof -
  obtain k where k: "k < length (conns s)" "d = (conns s)[i := c'] ! k" using assms(4) by (auto simp: in_set_conv_nth)
  show ?thesis
  proof (cases "k = i")
    case False
    then have "address_of (conns s ! k) \<noteq> address_of (conns s ! i)"
      using assms(1,2) k(1) nth_eq_iff_index_eq [OF assms(1), of k i] by auto
    then show ?thesis using k False assms(3) by auto
  qed (use k in simp)
qed

text \<open>An append of connection \<open>i\<close>, successful or not.\<close>

lemma once_append:
  assumes inv: "once_inv s" and sys: "sys_inv s" and dist: "distinct (map address_of (conns s))"
    and i: "i < length (conns s)" "conns s ! i = c" and b: "pending_ok (glob s) b"
    and ap: "appendAccountStateBlockChain (address_of c) b (glob s) = Some (ok, g)"
    and le: "stateBlockDB (glob s) \<subseteq>\<^sub>m stateBlockDB g"
    and new: "\<And>src. receivedSource b = Some src \<Longrightarrow> not_received (glob s) (address_of c) src"
    and c': "address_of c' = address_of c" "\<And>x. cSend c' = SReady x \<Longrightarrow> receivedSource x = None"
      "\<And>src. working_on (cRecv c') = Some src \<Longrightarrow> receivedSource b = None \<and> working_on (cRecv c) = Some src"
  shows "once_inv (setConn i c' (s\<lparr>glob := g\<rparr>))"
proof -
  let ?a = "address_of c"
  have wf: "wf_v1 (glob s)" using sys by (simp add: sys_inv_def)
  obtain tx where tx: "abTx b = Some tx" using b by (auto simp: pending_ok_def follows_ok_def)
  have v: "validateAccountStateBlock b = Some True" using b by (simp add: pending_ok_def)
  have "conns s ! i \<in> set (conns s)" using i(1) by simp
  then have c: "conn_once (glob s) c" using inv i(2) by (simp add: once_inv_def)
  show ?thesis
  proof (cases "abHash (myAccountBlockChain (glob s) ?a) = abPreHash b")
    case False
    then have "g = glob s" using ap by (simp add: append_valid [OF v tx])
    moreover have "conn_once (glob s) c'" using c c' by (auto simp: conn_once_def)
    ultimately show ?thesis using once_setConn [OF inv, of "s\<lparr>glob := g\<rparr>" c' i] by simp
  next
    case True
    then have g: "g = appended ?a b tx (glob s)" using ap by (simp add: append_valid [OF v tx])
    have le': "stateBlockDB (glob s) \<subseteq>\<^sub>m (stateBlockDB (glob s))(abHash b \<mapsto> b)" using le g by simp
    have once: "received_once (glob s) ?a" using inv by (simp add: once_inv_def)
    note o = once_appended [OF wf le' True [symmetric] once new]
    have "conn_once g c'"
      using c c' o(2) unfolding conn_once_def g by (metis (no_types, lifting))
    then show ?thesis
      using nth_other [OF dist i] o(1) g
      by (intro once_account [OF inv wf, where a = ?a]) (auto simp: le')
  qed
qed

lemma conn_once_simps [simp]:
  "conn_once g (c\<lparr>cRole := r\<rparr>) = conn_once g c"
  "conn_once g c \<Longrightarrow> conn_once g (c\<lparr>cSend := SIdle\<rparr>)" "conn_once g c \<Longrightarrow> conn_once g (c\<lparr>cSend := STo to\<rparr>)"
  "conn_once g c \<Longrightarrow> conn_once g (c\<lparr>cSend := SHead to n chain\<rparr>)" "conn_once g c \<Longrightarrow> conn_once g (c\<lparr>cSend := SBlocked b\<rparr>)"
  "conn_once g c \<Longrightarrow> receivedSource b = None \<Longrightarrow> conn_once g (c\<lparr>cSend := SReady b\<rparr>)"
  "conn_once g c \<Longrightarrow> working_on x = None \<or> working_on x = working_on (cRecv c) \<or>
     (\<exists>src. working_on x = Some src \<and> not_received g (address_of c) src) \<Longrightarrow> conn_once g (c\<lparr>cRecv := x\<rparr>)"
  by (auto simp: conn_once_def address_of_def)

lemma once_step:
  assumes "sys_step s t" "once_inv s" "sys_inv s" "stateBlockDB (glob s) \<subseteq>\<^sub>m stateBlockDB (glob t)"
    "distinct (map address_of (conns t))"
  shows "once_inv t"
  using assms
proof (induction rule: sys_step.induct)
  case (connect now a s n g)
  let ?t = "s\<lparr>glob := g, conns := conns s @ [newConnection n]\<rparr>"
  have g: "g = snd (initNode now a (glob s))" "nodeAddress n = a" using connect.hyps by (auto simp: initNode_def Let_def)
  have wf: "wf_v1 (glob s)" using connect.prems by (simp add: sys_inv_def)
  have src: "receivedSource (myAccountBlockChain g a) = None"
    using initNode_head(2) [of now a "glob s"] g by (simp add: receivedSource_def)
  have "conn_once g (newConnection n)" by (simp add: conn_once_def newConnection_def)
  moreover have "address_of d \<noteq> a" if "d \<in> set (conns s)" for d
  proof
    assume "address_of d = a"
    then have "address_of d = address_of (newConnection n)" using g(2) by (simp add: newConnection_def address_of_def)
    moreover have "address_of (newConnection n) \<notin> address_of ` set (conns s)" using connect.prems(4) by simp
    ultimately show False using that by (metis imageI)
  qed
  ultimately show ?case
    using connect.prems(3) initNode_other initNode_head(1) g(1) src
    by (intro once_account [OF connect.prems(1) wf, where a = a]) (auto intro: once_first)
next
  case (role i s c line)
  have c: "conn_once (glob s) c" using role.prems(1) role.hyps(1,2) nth_mem by (fastforce simp: once_inv_def)
  show ?case
  proof (cases "AtoiErr line")
    case (Some r)
    have "conn_once (glob s) (c\<lparr>cRole := x, cRecv := RWaiting\<rparr>)" for x using c by (intro conn_once_simps(7)) simp_all
    then show ?thesis
      using c Some unfolding choose_role_def by (auto intro!: once_setConn [OF role.prems(1)])
  next
    case None
    let ?g = "destoryNode (cNode c) (glob s)"
    have my: "myAccountBlockChain ?g x = (if x = address_of c then zeroBlock else myAccountBlockChain (glob s) x)" for x
      by (simp add: myAccountBlockChain_def destoryNode_def delete_conv' address_of_def)
    have db: "stateBlockDB ?g = stateBlockDB (glob s)" by (simp add: destoryNode_def)
    have z: "received_once ?g (address_of c)" "not_received ?g (address_of c) src" for src
      by (rule once_first; simp add: my zeroBlock_def receivedSource_def)+
    have wf: "wf_v1 (glob s)" using role.prems by (simp add: sys_inv_def)
    have c': "conn_once ?g (c\<lparr>cRole := Some Returned\<rparr>)" using c z(2) by (auto simp: conn_once_def address_of_def)
    have di: "distinct (map address_of (conns s))"
      using role.prems(4) None role.hyps(1,2) by (simp add: choose_role_def list_update_same)
    show ?thesis
      unfolding choose_role_def None option.case
      by (rule once_account [OF role.prems(1) wf, where a = "address_of c"])
        (use my db z c' in \<open>auto dest!: nth_other [OF di role.hyps(1,2)]\<close>)
  qed
next
  case (snapshot c s now)
  let ?g = "snapshotChain_v1 now (address_of c) (glob s)"
  have "stateBlockDB ?g = stateBlockDB (glob s)" "myAccountBlockChain ?g = myAccountBlockChain (glob s)"
    by (simp_all add: myAccountBlockChain_def fun_eq_iff)
  then show ?case using snapshot.prems(1) by (simp add: once_inv_def received_once_def conn_once_def not_received_def)
next
  case (submit_to i s c to)
  then show ?case using nth_mem [OF submit_to.hyps(1)] by (intro once_setConn [OF submit_to.prems(1)]) (auto simp: once_inv_def)
next
  case (submit_no_amount i s c to)
  then show ?case using nth_mem [OF submit_no_amount.hyps(1)]
    by (intro once_setConn [OF submit_no_amount.prems(1)]) (auto simp: once_inv_def)
next
  case (submit_head i s c to amount)
  then show ?case using nth_mem [OF submit_head.hyps(1)] by (intro once_setConn [OF submit_head.prems(1)]) (auto simp: once_inv_def)
next
  case (submit_build i s c to amount chain now)
  then show ?case using nth_mem [OF submit_build.hyps(1)]
    by (intro once_setConn [OF submit_build.prems(1)]) (auto simp: once_inv_def receivedSource_def)
next
  case (submit_append i s c b ok g)
  have c: "conn_ok (glob s) c" "conn_once (glob s) c"
    using conn_ok_nth [OF submit_append.prems(2) submit_append.hyps(1)] submit_append.hyps(1,2) submit_append.prems(1) nth_mem
    by (fastforce simp: once_inv_def)+
  have src: "receivedSource b = None" using c(2) submit_append.hyps(3) by (simp add: conn_once_def)
  have di: "distinct (map address_of (conns s))"
    using submit_append.prems(4) submit_append.hyps(1,2) by (simp add: list_update_same)
  show ?case
    by (rule once_append [OF submit_append.prems(1,2) di submit_append.hyps(1,2) _ submit_append.hyps(4)])
      (use submit_append c src in \<open>auto simp: conn_ok_def address_of_def split: if_splits\<close>)
next
  case (take_sent i s c b d)
  then show ?case using nth_mem [OF take_sent.hyps(1)] by (intro once_setConn [OF take_sent.prems(1)]) (auto simp: once_inv_def)
next
  case (deliver i s c tx)
  then show ?case using nth_mem [OF deliver.hyps(1)] by (intro once_setConn [OF deliver.prems(1)]) (auto simp: once_inv_def)
next
  case (receive_lookup i s c tx repeated)
  have "not_received (glob s) (address_of c) (txHash tx)" if "\<not> repeated"
    using receive_lookup.hyps(4) that lookupLoop_history
    by (auto simp: not_received_def lookupOtherReceiveTx_def address_of_def)
  then show ?case using receive_lookup nth_mem [OF receive_lookup.hyps(1)]
    by (intro once_setConn [OF receive_lookup.prems(1)]) (auto simp: once_inv_def)
next
  case (receive_sign i s c tx)
  then show ?case using nth_mem [OF receive_sign.hyps(1)]
    by (intro once_setConn [OF receive_sign.prems(1)]) (auto simp: once_inv_def)
next
  case (receive_build i s c tx now)
  have "TxType tx = 2"
    using conn_ok_nth [OF receive_build.prems(2) receive_build.hyps(1)] receive_build.hyps(2,3) by (auto simp: conn_ok_def)
  then show ?case using receive_build nth_mem [OF receive_build.hyps(1)]
    by (intro once_setConn [OF receive_build.prems(1)]) (auto simp: once_inv_def receivedSource_def)
next
  case (receive_append i s c b ok g)
  have c: "conn_ok (glob s) c" "conn_once (glob s) c"
    using conn_ok_nth [OF receive_append.prems(2) receive_append.hyps(1)] receive_append.hyps(1,2) receive_append.prems(1) nth_mem
    by (fastforce simp: once_inv_def)+
  have src: "not_received (glob s) (address_of c) src" if "receivedSource b = Some src" for src
    using c(2) receive_append.hyps(3) that by (simp add: conn_once_def)
  have di: "distinct (map address_of (conns s))"
    using receive_append.prems(4) receive_append.hyps(1,2) by (simp add: list_update_same)
  show ?case
    by (rule once_append [OF receive_append.prems(1,2) di receive_append.hyps(1,2) _ receive_append.hyps(4) _ src])
      (use receive_append c in \<open>auto simp: conn_ok_def conn_once_def address_of_def split: if_splits\<close>)
next
  case (take_received i s c b d)
  then show ?case using nth_mem [OF take_received.hyps(1)]
    by (intro once_setConn [OF take_received.prems(1)]) (auto simp: once_inv_def)
qed

text \<open>Connections are only added, and keep their addresses.\<close>

lemma addresses_step: "sys_step s t \<Longrightarrow> \<exists>as. map address_of (conns t) = map address_of (conns s) @ as"
proof (induction rule: sys_step.induct)
  case (role i s c line)
  then show ?case by (auto simp: choose_role_def list_update_same split: option.splits)
qed (auto simp: list_update_same)

lemma collision_free_once:
  "collision_free s \<Longrightarrow> distinct (map address_of (conns s)) \<Longrightarrow> once_inv s"
proof (induction rule: collision_free.induct)
  case init
  have "myAccountBlockChain (glob initSystem) a = zeroBlock" for a
    by (simp add: initSystem_def myAccountBlockChain_def initGlobals_def)
  then show ?case by (auto simp: once_inv_def initSystem_def zeroBlock_def receivedSource_def intro!: once_first)
next
  case (step s t)
  have "distinct (map address_of (conns s))" using addresses_step [OF step.hyps(3)] step.prems by fastforce
  then show ?case using once_step [OF step.hyps(3) step.IH collision_free_inv [OF step.hyps(1)] step.hyps(4) step.prems] by blast
qed

text \<open>C37. The accounts of the first version stay consistent in every run of its goroutines without a hash
  collision: the blocks of an account from its head down form a finite history, the balance is
  what the history adds up to, the search for an earlier receive ends and is exact, and so is
  the printed line of balances; and if no address was connected twice, no transaction is
  received twice.\<close>

theorem prototype_accounts:
  assumes "collision_free s" "map_of (accountStateBlockChain (glob s)) a = Some b"
  shows "\<exists>bs. history (stateBlockDB (glob s)) b bs \<and> abAmount b = wrap64 (total_of bs) \<and>
    lookupOtherReceiveTx \<lparr>nodeAddress = a, receivedTxChan = ch\<rparr> tx (glob s) = Some (txHash tx \<in> set (receipts bs)) \<and>
    printAccountLoop (stateBlockDB (glob s)) '''' b = Some (joinWith ''->'' (rev (map (\<lambda>b. itoa (abAmount b)) bs))) \<and>
    (distinct (map address_of (conns s)) \<longrightarrow> distinct (receipts bs))"
proof -
  have wf: "wf_v1 (glob s)" using collision_free_inv [OF assms(1)] by (simp add: sys_inv_def)
  then obtain bs where bs: "history (stateBlockDB (glob s)) b bs" "abAmount b = wrap64 (total_of bs)"
    using wf_v1_db(3) wf_v1_head assms(2) unfolding block_ok_def by meson
  have my: "myAccountBlockChain (glob s) a = b" using assms(2) by (simp add: myAccountBlockChain_def)
  have "distinct (receipts bs)" if "distinct (map address_of (conns s))"
    using collision_free_once [OF assms(1) that] bs(1) my by (auto simp: once_inv_def received_once_def)
  then show ?thesis
    using bs my lookupLoop_history [OF bs(1)] printAccountLoop_history [OF bs(1), of "''''"]
    by (auto simp: lookupOtherReceiveTx_def)
qed

definition ex_conn :: "system" where
  "ex_conn = initSystem\<lparr>glob := snd (initNode ''t1'' ''alice'' (glob initSystem)),
     conns := [newConnection (fst (initNode ''t1'' ''alice'' (glob initSystem)))]\<rparr>"

theorem prototype_accounts_witness:
  "\<exists>bs. abAmount (myAccountBlockChain (glob ex_conn) ''alice'') = wrap64 (total_of bs) \<and> distinct (receipts bs) \<and>
     history (stateBlockDB (glob ex_conn)) (myAccountBlockChain (glob ex_conn) ''alice'') bs"
proof -
  have "sys_step initSystem ex_conn"
    using sys_step.connect [of "''t1''" "''alice''" initSystem] unfolding ex_conn_def
    by (simp add: initSystem_def)
  moreover have "stateBlockDB (glob initSystem) \<subseteq>\<^sub>m stateBlockDB (glob ex_conn)"
    by (simp add: initSystem_def initGlobals_def)
  ultimately have "collision_free ex_conn"
    using collision_free.step [OF collision_free.init] by (simp add: initSystem_def)
  moreover have "map_of (accountStateBlockChain (glob ex_conn)) ''alice'' = Some (myAccountBlockChain (glob ex_conn) ''alice'')"
    by (simp add: ex_conn_def initNode_def Let_def update_conv' myAccountBlockChain_def)
  moreover have "distinct (map address_of (conns ex_conn))" by (simp add: ex_conn_def)
  ultimately show ?thesis using prototype_accounts by blast
qed

section \<open>Deadlocks\<close>

text \<open>The delivering goroutine waits for a receiver that takes nothing any more: it has none, or
  it waits itself for the delivering goroutine.\<close>

definition deaf :: "connection \<Rightarrow> bool" where
  "deaf c \<longleftrightarrow> cRole c \<noteq> None \<and> (cRecv c = RNone \<or> (\<exists>b. cRecv c = RBlocked b))"

definition stuck :: "Tx \<Rightarrow> nat \<Rightarrow> system \<Rightarrow> bool" where
  "stuck tx ch s \<longleftrightarrow> loopSt s = LDeliver tx ch \<and> ch < nextChan (glob s) \<and>
     (\<forall>c\<in>set (conns s). chan_of c = ch \<longrightarrow> deaf c)"

lemma append_nextChan:
  "appendAccountStateBlockChain a b g = Some (ok, g') \<Longrightarrow> nextChan g' = nextChan g"
  by (auto simp: appendAccountStateBlockChain_def Let_def bind_eq_Some_conv split: if_splits)

lemma stuck_setConn:
  assumes "stuck tx ch s" "loopSt s' = loopSt s" "nextChan (glob s') = nextChan (glob s)" "conns s' = conns s"
    "i < length (conns s)" "chan_of d = chan_of (conns s ! i)" "deaf (conns s ! i) \<longrightarrow> deaf d"
  shows "stuck tx ch (setConn i d s')"
proof -
  have "deaf e" if "e \<in> set ((conns s)[i := d])" "chan_of e = ch" for e
  proof -
    have "e = d \<or> e \<in> set (conns s)" using that(1) set_update_subset_insert [of "conns s" i d] by auto
    then show ?thesis using assms that nth_mem [of i "conns s"] by (auto simp: stuck_def)
  qed
  then show ?thesis using assms by (simp add: stuck_def)
qed

lemma chan_of_simps [simp]:
  "chan_of (c\<lparr>cRole := r\<rparr>) = chan_of c" "chan_of (c\<lparr>cSend := x\<rparr>) = chan_of c" "chan_of (c\<lparr>cRecv := y\<rparr>) = chan_of c"
  by (simp_all add: chan_of_def)

lemma stuck_step:
  assumes "sys_step s t" "stuck tx ch s"
  shows "stuck tx ch t"
  using assms
proof (induction rule: sys_step.induct)
  case (connect now a s n g)
  then have "chan_of (newConnection n) = nextChan (glob s)" "nextChan g = nextChan (glob s) + 1"
    by (auto simp: initNode_def Let_def newConnection_def chan_of_def)
  then show ?case using connect.prems by (auto simp: stuck_def)
next
  case (role i s c line)
  then have "chan_of c \<noteq> ch" using nth_mem [of i "conns s"] by (auto simp: stuck_def deaf_def)
  then have d: "\<not> deaf c" using role by (simp add: deaf_def)
  have "nextChan (destoryNode (cNode c) (glob s)) = nextChan (glob s)" by (simp add: destoryNode_def)
  with role d show ?case
    unfolding choose_role_def by (auto intro!: stuck_setConn [OF role.prems] split: option.splits)
next
  case (snapshot c s now)
  then show ?case by (simp add: stuck_def)
next
  case (submit_append i s c b ok g)
  then show ?case using append_nextChan by (intro stuck_setConn [OF submit_append.prems]) (auto simp: deaf_def)
next
  case (receive_append i s c b ok g)
  then show ?case using append_nextChan by (intro stuck_setConn [OF receive_append.prems]) (auto simp: deaf_def)
next
  case (deliver i s c tx')
  then have "deaf c" using nth_mem [of i "conns s"] by (auto simp: stuck_def)
  then show ?case using deliver by (simp add: deaf_def)
next
  case (submit_to i s c to)
  then show ?case by (intro stuck_setConn [OF submit_to.prems]) (auto simp: deaf_def)
next
  case (submit_no_amount i s c to)
  then show ?case by (intro stuck_setConn [OF submit_no_amount.prems]) (auto simp: deaf_def)
next
  case (submit_head i s c to amount)
  then show ?case by (intro stuck_setConn [OF submit_head.prems]) (auto simp: deaf_def)
next
  case (submit_build i s c to amount chain now)
  then show ?case by (intro stuck_setConn [OF submit_build.prems]) (auto simp: deaf_def)
next
  case (receive_lookup i s c tx' repeated)
  then show ?case by (intro stuck_setConn [OF receive_lookup.prems]) (auto simp: deaf_def)
next
  case (receive_sign i s c tx')
  then show ?case by (intro stuck_setConn [OF receive_sign.prems]) (auto simp: deaf_def)
next
  case (receive_build i s c tx' now)
  then show ?case by (intro stuck_setConn [OF receive_build.prems]) (auto simp: deaf_def)
qed (simp_all add: stuck_def)

lemma stuck_for_ever: "sys_reach s t \<Longrightarrow> stuck tx ch s \<Longrightarrow> stuck tx ch t"
  by (induction rule: sys_reach.induct) (auto intro: stuck_step)

lemma sys_reach_trans: "sys_reach t u \<Longrightarrow> sys_reach s t \<Longrightarrow> sys_reach s u"
  by (induction rule: sys_reach.induct) (auto intro: sys_reach.step)

lemma exists_appended [simp]: "existsAccountBlockChain g x \<Longrightarrow> existsAccountBlockChain (appended a b tx g) x"
  by (simp add: existsAccountBlockChain_def)

text \<open>A submission up to the moment when its block is taken by the idle delivering goroutine.\<close>

definition after_send :: "string \<Rightarrow> string \<Rightarrow> string \<Rightarrow> int \<Rightarrow> Node_v1 \<Rightarrow> system \<Rightarrow> system" where
  "after_send now a to amount n s =
     s\<lparr>glob := appended a (submitTx_block now a to amount (glob s)) (sendTxOf a to amount (glob s)) (glob s),
       loopSt := LDeliver (sendTxOf a to amount (glob s)) (receivedTxChan n)\<rparr>"

lemma after_send_simps [simp]:
  "conns (after_send now a to amount n s) = conns s" "crashed (after_send now a to amount n s) = crashed s"
  "loopSt (after_send now a to amount n s) = LDeliver (sendTxOf a to amount (glob s)) (receivedTxChan n)"
  "nodes (glob (after_send now a to amount n s)) = nodes (glob s)"
  "nextChan (glob (after_send now a to amount n s)) = nextChan (glob s)"
  "existsAccountBlockChain (glob s) x \<Longrightarrow> existsAccountBlockChain (glob (after_send now a to amount n s)) x"
  "x \<noteq> a \<Longrightarrow> myAccountBlockChain (glob (after_send now a to amount n s)) x = myAccountBlockChain (glob s) x"
  by (simp_all add: after_send_def)

lemma send_run:
  assumes "\<not> crashed s" "i < length (conns s)" "conns s ! i = c" "cRole c = Some AccountNode" "cSend c = SIdle"
    "loopSt s = LIdle" "map_of (nodes (glob s)) to = Some n" "existsAccountBlockChain (glob s) to" "int64_range amount"
  shows "sys_reach s (after_send now (address_of c) to amount n s)"
proof -
  let ?b = "submitTx_block now (address_of c) to amount (glob s)" and ?tx = "sendTxOf (address_of c) to amount (glob s)"
  let ?g = "appended (address_of c) ?b ?tx (glob s)" and ?h = "myAccountBlockChain (glob s) (address_of c)"
  let ?t1 = "setConn i (c\<lparr>cSend := STo to\<rparr>) s" and ?t2 = "setConn i (c\<lparr>cSend := SHead to amount ?h\<rparr>) s"
  let ?s1 = "setConn i (c\<lparr>cSend := SReady ?b\<rparr>) s"
  let ?s2 = "setConn i (c\<lparr>cSend := SBlocked ?b\<rparr>) (?s1\<lparr>glob := ?g\<rparr>)"
  have a: "address_of (c\<lparr>cSend := x\<rparr>) = address_of c" for x by (simp add: address_of_def)
  have two: "setConn i d (setConn i e s) = setConn i d s" for d e by (simp add: setConn_def)
  have "sys_step s ?t1" by (rule sys_step.submit_to [OF assms(2-5,8)])
  then have q1: "sys_reach s ?t1" by (rule sys_reach.step [OF sys_reach.stay assms(1)])
  have "sys_step ?t1 ?t2"
    using sys_step.submit_head [of i ?t1 "c\<lparr>cSend := STo to\<rparr>" to amount] assms(2,9) by (simp add: a two)
  then have q2: "sys_reach s ?t2" using sys_reach.step [OF q1] assms(1) by simp
  have "sys_step ?t2 ?s1"
    using sys_step.submit_build [of i ?t2 "c\<lparr>cSend := SHead to amount ?h\<rparr>" to amount ?h now] assms(2)
    by (simp add: a two submitTx_block_eq)
  then have r1: "sys_reach s ?s1" using sys_reach.step [OF q2] assms(1) by simp
  have r2: "sys_step ?s1 ?s2"
    using sys_step.submit_append [of i ?s1 "c\<lparr>cSend := SReady ?b\<rparr>" ?b True ?g] assms by (simp add: a append_valid)
  have c: "c\<lparr>cSend := SReady ?b, cSend := SBlocked ?b, cSend := SIdle\<rparr> = c" "c\<lparr>cSend := SBlocked ?b, cSend := SIdle\<rparr> = c"
    using assms(5) by (simp_all add: connection.equality)
  have "sys_step ?s2 (setConn i c (?s2\<lparr>loopSt := LDeliver ?tx (receivedTxChan n)\<rparr>))"
    using sys_step.take_sent [of i ?s2 "c\<lparr>cSend := SBlocked ?b\<rparr>" ?b "Some (?tx, receivedTxChan n)"] assms
      broadcast_send [of ?g to n now "address_of c" amount "glob s"]
    by (simp only: c) (simp add: loop_of_def)
  moreover have "setConn i c (?s2\<lparr>loopSt := LDeliver ?tx (receivedTxChan n)\<rparr>) = after_send now (address_of c) to amount n s"
    using assms(3) by (intro system.equality) (auto simp: after_send_def setConn_def)
  ultimately have r3: "sys_step ?s2 (after_send now (address_of c) to amount n s)" by simp
  have "\<not> crashed ?s1" "\<not> crashed ?s2" using assms(1) by simp_all
  then show ?thesis by (rule sys_reach.step [OF sys_reach.step [OF r1 _ r2] _ r3])
qed

text \<open>One transfer to a node without receiver stops the first version for ever: when an account node
  sends to a registered address whose connection took another role (a snapshot node, say), the
  delivering goroutine takes the block and waits for ever, whatever the goroutines do afterwards.\<close>

theorem deaf_receiver_stops_delivery:
  assumes "\<not> crashed s" "i < length (conns s)" "conns s ! i = c" "cRole c = Some AccountNode" "cSend c = SIdle"
    "loopSt s = LIdle" "map_of (nodes (glob s)) to = Some n" "existsAccountBlockChain (glob s) to" "int64_range amount"
    "receivedTxChan n < nextChan (glob s)"
    "\<forall>d\<in>set (conns s). chan_of d = receivedTxChan n \<longrightarrow> cRole d \<noteq> None \<and> cRecv d = RNone"
  shows "\<exists>t tx. sys_reach s t \<and> \<not> crashed t \<and> (\<forall>u. sys_reach t u \<longrightarrow> loopSt u = LDeliver tx (receivedTxChan n))"
proof -
  let ?t = "after_send '''' (address_of c) to amount n s" and ?tx = "sendTxOf (address_of c) to amount (glob s)"
  have "stuck ?tx (receivedTxChan n) ?t" using assms(10,11) by (auto simp: stuck_def deaf_def)
  then have "\<forall>u. sys_reach ?t u \<longrightarrow> loopSt u = LDeliver ?tx (receivedTxChan n)"
    using stuck_for_ever unfolding stuck_def by blast
  then show ?thesis using send_run [OF assms(1-9)] assms(1) by (intro exI [of _ ?t] exI [of _ ?tx]) simp
qed

definition ex_alice :: connection where
  "ex_alice = \<lparr>cNode = \<lparr>nodeAddress = ''alice'', receivedTxChan = 0\<rparr>, cRole = Some AccountNode, cSend = SIdle, cRecv = RWaiting\<rparr>"

definition ex_system :: "conn_role \<Rightarrow> receiver_state \<Rightarrow> system" where
  "ex_system role r = \<lparr>glob = ex_v1, loopSt = LIdle,
     conns = [ex_alice, \<lparr>cNode = ex_bob, cRole = Some role, cSend = SIdle, cRecv = r\<rparr>], crashed = False\<rparr>"

lemma ex_system_simps:
  "glob (ex_system role r) = ex_v1" "loopSt (ex_system role r) = LIdle" "\<not> crashed (ex_system role r)"
  "conns (ex_system role r) = [ex_alice, \<lparr>cNode = ex_bob, cRole = Some role, cSend = SIdle, cRecv = r\<rparr>]"
  "cRole ex_alice = Some AccountNode" "cSend ex_alice = SIdle" "cRecv ex_alice = RWaiting" "chan_of ex_alice = 0"
  "address_of ex_alice = ''alice''" "receivedTxChan ex_bob = 1" "nodeAddress ex_bob = ''bob''"
  by (simp_all add: ex_system_def ex_alice_def ex_bob_def chan_of_def address_of_def)

lemma ex_v1_more: "existsAccountBlockChain ex_v1 ''bob''" "nextChan ex_v1 = 2"
  by (simp_all add: ex_v1_def existsAccountBlockChain_def initNode_def Let_def update_conv' initGlobals_def)

theorem deaf_receiver_stops_delivery_witness:
  "\<exists>t tx. sys_reach (ex_system SnapshotNode RNone) t \<and> (\<forall>u. sys_reach t u \<longrightarrow> loopSt u = LDeliver tx (receivedTxChan ex_bob))"
proof -
  let ?s = "ex_system SnapshotNode RNone"
  have "\<exists>t tx. sys_reach ?s t \<and> \<not> crashed t \<and> (\<forall>u. sys_reach t u \<longrightarrow> loopSt u = LDeliver tx (receivedTxChan ex_bob))"
  proof (rule deaf_receiver_stops_delivery [of ?s 0 ex_alice "''bob''" ex_bob 10])
    show "\<forall>d\<in>set (conns ?s). chan_of d = receivedTxChan ex_bob \<longrightarrow> cRole d \<noteq> None \<and> cRecv d = RNone"
      by (auto simp: ex_system_simps)
  qed (simp_all add: ex_system_simps ex_v1_simps ex_v1_more int64_range_def)
  then show ?thesis by blast
qed

text \<open>The receiver's side: a transaction is handed to a waiting receiver, and its receive block is built and appended.\<close>

lemma deliver_run:
  assumes "\<not> crashed s" "j < length (conns s)" "conns s ! j = d" "cRecv d = RWaiting" "loopSt s = LDeliver tx (chan_of d)"
  shows "sys_reach s (setConn j (d\<lparr>cRecv := RGot tx\<rparr>) (s\<lparr>loopSt := LIdle\<rparr>))"
  using sys_reach.step [OF sys_reach.stay assms(1) sys_step.deliver [OF assms(2-5)]] .

lemma receive_run:
  assumes "\<not> crashed s" "j < length (conns s)" "conns s ! j = d" "cRecv d = RGot tx"
    "lookupOtherReceiveTx (cNode d) tx (glob s) = Some False"
  shows "\<exists>b g. sys_reach s (setConn j (d\<lparr>cRecv := RBlocked b\<rparr>) (s\<lparr>glob := g\<rparr>)) \<and> nextChan g = nextChan (glob s)"
proof -
  let ?b = "receiveTx_block now (cNode d) tx (glob s)"
  let ?g = "appended (address_of d) ?b (receiveTxOf (cNode d) tx (glob s)) (glob s)"
  let ?tx = "receiveTxOf (cNode d) tx (glob s)"
  let ?t1 = "setConn j (d\<lparr>cRecv := RChecked tx\<rparr>) s" and ?t2 = "setConn j (d\<lparr>cRecv := RSigned ?tx\<rparr>) s"
  let ?s1 = "setConn j (d\<lparr>cRecv := RReady ?b\<rparr>) s"
  let ?s2 = "setConn j (d\<lparr>cRecv := RReady ?b, cRecv := RBlocked ?b\<rparr>) (?s1\<lparr>glob := ?g\<rparr>)"
  have two: "setConn j x (setConn j y s) = setConn j x s" for x y by (simp add: setConn_def)
  have "sys_step s ?t1" using sys_step.receive_lookup [OF assms(2-5)] by simp
  then have q1: "sys_reach s ?t1" by (rule sys_reach.step [OF sys_reach.stay assms(1)])
  have "sys_step ?t1 ?t2"
    using sys_step.receive_sign [of j ?t1 "d\<lparr>cRecv := RChecked tx\<rparr>" tx] assms(2) by (simp add: two)
  then have q2: "sys_reach s ?t2" using sys_reach.step [OF q1] assms(1) by simp
  have "sys_step ?t2 ?s1"
    using sys_step.receive_build [of j ?t2 "d\<lparr>cRecv := RSigned ?tx\<rparr>" ?tx now] assms(2)
    by (simp add: two receiveTx_block_eq)
  then have r1: "sys_reach s ?s1" using sys_reach.step [OF q2] assms(1) by simp
  have a: "address_of (d\<lparr>cRecv := x\<rparr>) = address_of d" for x by (simp add: address_of_def)
  have "sys_step ?s1 ?s2"
    using sys_step.receive_append [of j ?s1 "d\<lparr>cRecv := RReady ?b\<rparr>" ?b True ?g] assms(2)
    unfolding a by (simp add: append_valid) (simp add: address_of_def)
  moreover have "\<not> crashed ?s1" using assms(1) by simp
  ultimately have r2: "sys_reach s ?s2" using sys_reach.step [OF r1] by blast
  have s2: "?s2 = setConn j (d\<lparr>cRecv := RBlocked ?b\<rparr>) (s\<lparr>glob := ?g\<rparr>)"
    by (intro system.equality) (auto simp: setConn_def)
  have "sys_reach s (setConn j (d\<lparr>cRecv := RBlocked ?b\<rparr>) (s\<lparr>glob := ?g\<rparr>))" using r2 unfolding s2 .
  then show ?thesis by (intro exI [of _ ?b] exI [of _ ?g]) simp
qed

text \<open>C38. Two transfers in a row to a node that has just connected can stop the first version for ever:
  the delivering goroutine waits until the receiver takes the second transaction, while the receiver
  waits until the delivering goroutine takes the receive block of the first one.\<close>

theorem two_transfers_stop_delivery:
  assumes "\<not> crashed s" "i < length (conns s)" "conns s ! i = c" "cRole c = Some AccountNode" "cSend c = SIdle"
    "loopSt s = LIdle" "map_of (nodes (glob s)) to = Some n" "existsAccountBlockChain (glob s) to" "int64_range amount"
    "receivedTxChan n < nextChan (glob s)" "address_of c \<noteq> to"
    and d: "j < length (conns s)" "conns s ! j = d" "i \<noteq> j" "cRole d \<noteq> None" "cRecv d = RWaiting" "cNode d = n"
      "nodeAddress n = to" "\<forall>k<length (conns s). chan_of (conns s ! k) = receivedTxChan n \<longrightarrow> k = j"
      "abPreHash (myAccountBlockChain (glob s) to) = ''''" "abTx (myAccountBlockChain (glob s) to) = None"
  shows "\<exists>t tx. sys_reach s t \<and> \<not> crashed t \<and> (\<forall>u. sys_reach t u \<longrightarrow> loopSt u = LDeliver tx (receivedTxChan n))"
proof -
  let ?a = "address_of c"
  define s1 where "s1 = after_send '''' ?a to amount n s"
  define s2 where "s2 = setConn j (d\<lparr>cRecv := RGot (sendTxOf ?a to amount (glob s))\<rparr>) (s1\<lparr>loopSt := LIdle\<rparr>)"
  define tx where "tx = sendTxOf ?a to amount (glob s2)"
  define s3 where "s3 = after_send '''' ?a to amount n s2"
  have r1: "sys_reach s s1" unfolding s1_def by (rule send_run [OF assms(1-9)])
  have r2: "sys_reach s1 s2"
    unfolding s2_def using assms(1) d(1,2,5,6)
    by (intro deliver_run [of s1 j d]) (simp_all add: s1_def chan_of_def)
  have "conns s2 ! i = c" using d(3) assms(3) by (simp add: s2_def s1_def)
  then have "sys_reach s2 s3"
    unfolding s3_def by (intro send_run [of s2 i c]) (use assms(1-9) in \<open>simp_all add: s1_def s2_def\<close>)
  then have r3: "sys_reach s s3" using r1 r2 by (blast intro: sys_reach_trans)
  have j3: "j < length (conns s3)" "conns s3 ! j = d\<lparr>cRecv := RGot (sendTxOf ?a to amount (glob s))\<rparr>" "\<not> crashed s3"
    using assms(1) d(1) by (simp_all add: s3_def s2_def s1_def)
  have h3: "myAccountBlockChain (glob s3) to = myAccountBlockChain (glob s) to"
    using assms(11) by (simp add: s3_def s2_def s1_def)
  have l3: "lookupOtherReceiveTx (cNode (conns s3 ! j)) tx' (glob s3) = Some False" for tx'
    using d(6,7,9,10) h3 j3(2) by (intro lookup_first) simp_all
  obtain b g where r4: "sys_reach s3 (setConn j ((conns s3 ! j)\<lparr>cRecv := RBlocked b\<rparr>) (s3\<lparr>glob := g\<rparr>))"
    and ng: "nextChan g = nextChan (glob s3)"
    using receive_run [OF j3(3,1) refl _ l3] j3(2) by fastforce
  let ?t = "setConn j ((conns s3 ! j)\<lparr>cRecv := RBlocked b\<rparr>) (s3\<lparr>glob := g\<rparr>)"
  have t: "conns ?t = (conns s)[j := d\<lparr>cRecv := RGot (sendTxOf ?a to amount (glob s)), cRecv := RBlocked b\<rparr>]"
    unfolding setConn_simps using j3(2) by (simp add: s3_def s2_def s1_def)
  have deaf: "deaf e" if e: "e \<in> set (conns ?t)" "chan_of e = receivedTxChan n" for e
  proof -
    obtain k where k: "k < length (conns s)" "e = (conns ?t) ! k" using e(1) unfolding t in_set_conv_nth by auto
    show ?thesis
    proof (cases "k = j")
      case True
      then show ?thesis using k d(4) unfolding t by (simp add: deaf_def)
    next
      case False
      then show ?thesis using k e(2) d(8) unfolding t by simp
    qed
  qed
  have "stuck tx (receivedTxChan n) ?t"
    using deaf assms(10) ng unfolding stuck_def by (simp add: s3_def tx_def) (simp add: s2_def s1_def)
  then have "\<forall>u. sys_reach ?t u \<longrightarrow> loopSt u = LDeliver tx (receivedTxChan n)"
    using stuck_for_ever unfolding stuck_def by blast
  then show ?thesis
    using sys_reach_trans [OF r4 r3] j3(3) by (intro exI [of _ ?t] exI [of _ tx]) simp
qed

theorem two_transfers_stop_delivery_witness:
  "\<exists>t tx. sys_reach (ex_system AccountNode RWaiting) t \<and> (\<forall>u. sys_reach t u \<longrightarrow> loopSt u = LDeliver tx (receivedTxChan ex_bob))"
proof -
  let ?s = "ex_system AccountNode RWaiting"
  let ?d = "\<lparr>cNode = ex_bob, cRole = Some AccountNode, cSend = SIdle, cRecv = RWaiting\<rparr>"
  have "\<exists>t tx. sys_reach ?s t \<and> \<not> crashed t \<and> (\<forall>u. sys_reach t u \<longrightarrow> loopSt u = LDeliver tx (receivedTxChan ex_bob))"
  proof (rule two_transfers_stop_delivery [of ?s 0 ex_alice "''bob''" ex_bob 10 1 ?d])
    show "\<forall>k<length (conns ?s). chan_of (conns ?s ! k) = receivedTxChan ex_bob \<longrightarrow> k = 1"
      by (auto simp: ex_system_simps less_Suc_eq)
  qed (simp_all add: ex_system_simps ex_v1_simps ex_v1_more int64_range_def)
  then show ?thesis by blast
qed

section \<open>A crash\<close>

text \<open>A node whose role is not a number is destroyed, and its channel closed, while the delivering goroutine
  may be sending on it: the whole program panics.\<close>

lemma destroyed_receiver_crashes:
  assumes "i < length (conns s)" "conns s ! i = c" "cRole c = None" "loopSt s = LDeliver tx (chan_of c)" "AtoiErr line = None"
  shows "sys_step s (choose_role i line c s) \<and> crashed (choose_role i line c s)"
  using sys_step.role [OF assms(1-3), of line] assms(4,5) by (auto simp: choose_role_def)

end
