(* ===== verification/Spec2Isabelle.thy ===== *)
theory Spec2Isabelle
  imports Console Monitor Pipeline Peers Genesis Pool_Workers Profile Prototype_System
begin

text \<open>
  Verification development of naive-vite, a node of a block-lattice ledger: every account has
  its own chain of send and receive blocks, and one snapshot chain confirms the heads of the
  account chains.

  \<^bold>\<open>Parts of the program and how they interact.\<close> The block store keeps blocks by hash and by
  height. The block chain keeps the account chains and the snapshot chain on top of it, and
  tells the request pool which sends wait for a receive. The verifiers decide whether a block
  refers to what is on the chain. The pools hold blocks that came from the network or
  from the node itself: they link them to snippets, snippets to forked chains, write the
  current chain to the block chain as far as the verifiers allow, and change over to a longer
  snapshot chain, rolling accounts back. The ledger makes the blocks of the node itself. The syncer
  fetches missing blocks from peers and answers their requests over the p2p layer. The
  consensus says who may produce a snapshot block when and notifies the miner; the miner asks
  the ledger for the block. The node builds, starts and stops all of them. Beside the node there is the
  first version of the program, a stand-alone prototype in one file.

  \<^bold>\<open>Theories.\<close>
  \<^item> \<open>Go_Prelude\<close>: integers of 32 and 64 bits with their wrap-around, decimal strings, lemmas
    on maps and options that all theories share.
  \<^item> \<open>Common_Types\<close>: \<open>common/types.go\<close>, \<open>common/face/syncer.go\<close>; blocks, errors, requests.
  \<^item> \<open>Sha256\<close>, \<open>Hashcal\<close>: \<open>tools/hashcal.go\<close>, with SHA-256 defined in full. \<open>Genesis\<close>: the hashes
    of the genesis blocks that the source writes as literals, evaluated.
  \<^item> \<open>Go_Text\<close>: the functions of Go's library that read and write text.
  \<^item> \<open>Block_Store\<close>: \<open>store/block_store.go\<close>; put and get laws as a locale with one
    interpretation for each index of the store.
  \<^item> \<open>Linked_Chain\<close>: what it is for an index by height to be a chain linked by hashes, and the
    contract of a chain that grows and shrinks at its head, as a locale.
  \<^item> \<open>Req_Pool\<close>, \<open>Chain\<close>: \<open>ledger/req_pool.go\<close>, \<open>chain/account_chain.go\<close>,
    \<open>chain/snapshot_chain.go\<close>, \<open>chain/chain.go\<close>. \<open>Chain_Props\<close>, \<open>Chain_Invariant\<close>: the
    invariant \<open>chain_inv\<close> and that every reachable chain has it. \<open>Chain_Queries\<close>: what the
    searches and snapshot rounds return. \<open>Example_Chain\<close>: the chain used by the witnesses.
  \<^item> \<open>Verifier\<close>: package \<open>verifier\<close>. \<open>Verifier_Props\<close>: when a block is accepted, exactly;
    balances are exact and transfers conserve the amount.
  \<^item> \<open>Pool_Chains\<close>, \<open>Pool_Runs\<close>, \<open>Pool_Disk\<close>, \<open>BC_Pool\<close>: \<open>pool/bc_pool.go\<close>, \<open>pool/chain.go\<close>;
    \<open>Pool_Disk_Props\<close>, \<open>BC_Pool_Props\<close>: writing and rolling back keep the blocks that a
    forked chain shows, fork points, snippets and the choice of the longest chain.
  \<^item> \<open>Account_Pool\<close>, \<open>Pool_Top\<close>, \<open>Pool_Top_Props\<close>: \<open>pool/account_pool.go\<close>, \<open>pool/pool.go\<close>,
    \<open>pool/snapshot_pool.go\<close>, \<open>pool/fetcher.go\<close>, \<open>version/version.go\<close>; insertion never puts
    an unverified block on a chain, returns and makes progress, with the request pool as the
    listener, as in a node; rollback points, total loops. The request pool panics on a receive
    block whose request it does not know (\<open>unfiled_receive_panics\<close>), so these theorems ask that
    waiting receive blocks are addressed like their sources; that all send blocks on the chain are
    filed is an invariant, which a new ledger has (\<open>NewLedger_pool_ok\<close>). \<open>Pool_Workers\<close>:
    the goroutines of the pool, how \<open>Start\<close> spawns them and \<open>Stop\<close> waits for them.
  \<^item> \<open>Ledger\<close>: \<open>ledger/ledger.go\<close>; the block that mining builds is right and a receive credits
    what was sent, but mining waits for its own lock. \<open>Ledger_Transfer\<close>: a whole transfer, with the
    request pool between its two halves.
  \<^item> \<open>Lifecycle\<close>: \<open>common/lock.go\<close>, \<open>common/lifecycle.go\<close>; \<open>Consensus\<close>: \<open>consensus/hdpos.go\<close>;
    \<open>Miner\<close>: package \<open>miner\<close>; \<open>Wallet\<close>: \<open>wallet/wallet.go\<close>; \<open>Monitor\<close>: package \<open>monitor\<close>.
  \<^item> \<open>P2P\<close>, \<open>Boot\<close>: package \<open>p2p\<close>, and how nodes meet through the boot node; \<open>Syncer\<close>: package \<open>syncer\<close>; \<open>Syncer_Props\<close>: fetching works end to
    end between two nodes, handshakes, first synchronisation. \<open>Peers\<close>: the goroutine that reads from
    a peer, and which messages crash it while it handles them.
  \<^item> \<open>Node\<close>: \<open>node/node.go\<close>; a node comes up and goes down. \<open>Pipeline\<close>: the way of a block
    through syncer, pool, verifier and chain.
  \<^item> \<open>Console\<close>: \<open>cmd/node/main.go\<close>; sessions of the interactive shell, what it can start and stop,
    and a transfer typed into it. \<open>Profile\<close>: \<open>cmd/profile/profile.go\<close>; sends in a row.
  \<^item> \<open>Prototype\<close>, \<open>Prototype_Props\<close>: \<open>examples/v0_1.go\<close>; its operations, a transfer, a snapshot,
    and what a connection makes of its lines. \<open>Prototype_System\<close>: its goroutines and unbuffered
    channels as a step relation; accounts stay consistent in every run, and two ways into a
    deadlock.

  \<^bold>\<open>Conventions.\<close> A struct is a record, an operation a function that returns the changed state. A
  result of type \<open>err\<close> is what the code returns as \<open>error\<close>; \<^const>\<open>None\<close> as the result of
  an operation is a panic, such as a nil pointer or an index out of range. The result \<open>Blocks\<close>
  is a wait without end. Where the code ranges over a map, the order is an argument
  (\<open>ord\<close>, \<open>order\<close>), so theorems hold for every order unless they say otherwise. The clock
  is part of the state or an argument. Amounts, counters and times are integers, wrapped to
  their width where the code could overflow them; heights are not wrapped. An
  operation runs as one step under the locks that the code takes; a goroutine that repeats
  something is one step of what it repeats. In particular the handler of a message is one step: a
  peer that another goroutine closes while a handler writes to it, on which the write panics
  (\<open>p2p/peer.go\<close>), does not occur in a run. In the first version, which reads without its lock, these
  reads are separate steps. The entries of \<open>Accounts\<close> in a snapshot block are records, though they
  are pointers in the code: a null entry, on which the snapshot verifier panics, is not expressible.

  \<^bold>\<open>Parameters.\<close> Code of other repositories is an argument with its assumptions as hypotheses: the
  life cycle that the consensus embeds (\<open>lifecycle\<close>, \<open>orderly\<close> in \<open>Node\<close>, with the life cycle of this
  repository as the instance of the witnesses) and the number of members that the profiling driver
  takes from there.

  \<^bold>\<open>Loops.\<close> Loops with a bound are structural recursions or have a termination proof. Those
  whose end depends on the data are \<open>partial_function (option)\<close>, and that they return on
  well-formed states is proved with them (\<open>VerifyReferred_ac_total\<close>, \<open>getForkPoint_spec\<close>,
  \<open>findForkPoint_spec\<close>, \<open>loopGenSnippetChains_total\<close>, \<open>getWaitRollbackAccounts_total\<close>,
  \<open>prototype_accounts\<close>). There is no fuel.

  \<^bold>\<open>Not modelled.\<close> Websocket and HTTP traffic and the JSON encoding of messages (what arrives
  is an argument, with a flag for a decoding error); the floating-point averages of the
  monitor and the shell commands that print them; logging and the formatting of blocks as JSON; the
  second prototype \<open>examples/v0_12.go\<close>, which calls the packages as they were at an earlier time and
  does not fit their code any more; interface declarations, plain option structures and getters; data
  races, that is, interleavings inside an operation that the code does not lock.
\<close>

end
